(* ===== verification/Prelude.thy ===== *)
theory Prelude
  imports Main "HOL-Library.Word" "HOL-Library.Code_Target_Nat"
begin

text \<open>
  Shared vocabulary of the development.

  \<^item> Machine integers.  Where the kernel computes with bit operators the value is
    a word (\<^typ>\<open>8 word\<close> and so on).  Where it computes addresses, sizes and counters
    the value is a natural number and every operation that the kernel's build checks
    (the kernel is built with the development profile, so overflow and underflow
    panic) goes through \<open>cadd\<close>, \<open>csub\<close> or \<open>cmul\<close>, which return \<open>Panic\<close> where
    the machine would.
  \<^item> Results.  \<open>result\<close> is Rust's \<open>Result<_, &'static str>\<close> with a third constructor
    for a panic (the messages are the source's, written without accents); an index out of range, a slice out of range and a checked overflow all
    give \<open>Panic\<close>.
  \<^item> Bytes.  Little endian encoders and decoders, byte-string literals, UTF-8
    validity as \<open>core::str::from_utf8\<close> decides it, physical memory as a function from
    addresses to bytes.
\<close>

section \<open>Collections of rules\<close>

named_theorems result_simps \<open>unfolding rules for the result monad and checked arithmetic\<close>
named_theorems byte_simps \<open>rules for byte encodings and slices\<close>

section \<open>Machine types\<close>

type_synonym u8 = "8 word"
type_synonym u16 = "16 word"
type_synonym u32 = "32 word"
type_synonym u64 = "64 word"

type_synonym bytes = "u8 list"
type_synonym mem = "nat \<Rightarrow> u8"

lemma unat_less: "unat (w :: 'a :: len word) < 2 ^ LENGTH('a)"
  by (rule unsigned_less)

section \<open>Results and panics\<close>

datatype 'a result = Ok 'a | Err string | Panic

primrec rbind :: "'a result \<Rightarrow> ('a \<Rightarrow> 'b result) \<Rightarrow> 'b result" where
  "rbind (Ok x) f = f x"
| "rbind (Err e) f = Err e"
| "rbind Panic f = Panic"

primrec rfold :: "('a \<Rightarrow> 's \<Rightarrow> 's result) \<Rightarrow> 'a list \<Rightarrow> 's \<Rightarrow> 's result" where
  "rfold f [] s = Ok s"
| "rfold f (x # xs) s = rbind (f x s) (rfold f xs)"

primrec ok_or :: "string \<Rightarrow> 'a option \<Rightarrow> 'a result" where
  "ok_or e None = Err e"
| "ok_or e (Some x) = Ok x"

primrec unwrap_or :: "'a \<Rightarrow> 'a result \<Rightarrow> 'a" where
  "unwrap_or d (Ok x) = x"
| "unwrap_or d (Err e) = d"
| "unwrap_or d Panic = d"

definition cadd :: "nat \<Rightarrow> nat \<Rightarrow> nat \<Rightarrow> nat result" where
  "cadd w a b = (if a + b < 2 ^ w then Ok (a + b) else Panic)"

definition csub :: "nat \<Rightarrow> nat \<Rightarrow> nat result" where
  "csub a b = (if b \<le> a then Ok (a - b) else Panic)"

definition cmul :: "nat \<Rightarrow> nat \<Rightarrow> nat \<Rightarrow> nat result" where
  "cmul w a b = (if a * b < 2 ^ w then Ok (a * b) else Panic)"

definition ridx :: "'a list \<Rightarrow> nat \<Rightarrow> 'a result" where
  "ridx xs i = (if i < length xs then Ok (xs ! i) else Panic)"

definition rslice :: "'a list \<Rightarrow> nat \<Rightarrow> nat \<Rightarrow> 'a list result" where
  "rslice xs a b = (if a \<le> b \<and> b \<le> length xs then Ok (take (b - a) (drop a xs)) else Panic)"

definition rset :: "'a list \<Rightarrow> nat \<Rightarrow> 'a \<Rightarrow> 'a list result" where
  "rset xs i v = (if i < length xs then Ok (xs[i := v]) else Panic)"

declare cadd_def [result_simps] csub_def [result_simps] cmul_def [result_simps]
  ridx_def [result_simps] rslice_def [result_simps] rset_def [result_simps]

lemma rbind_Ok_iff [simp]: "rbind r f = Ok y \<longleftrightarrow> (\<exists>x. r = Ok x \<and> f x = Ok y)"
  by (cases r) auto

lemma rbind_Err_iff: "rbind r f = Err e \<longleftrightarrow> r = Err e \<or> (\<exists>x. r = Ok x \<and> f x = Err e)"
  by (cases r) auto

lemma rbind_Panic_iff: "rbind r f = Panic \<longleftrightarrow> r = Panic \<or> (\<exists>x. r = Ok x \<and> f x = Panic)"
  by (cases r) auto

lemma rbind_assoc: "rbind (rbind r f) g = rbind r (\<lambda>x. rbind (f x) g)"
  by (cases r) auto

lemma rbind_Ok_right [simp]: "rbind r Ok = r"
  by (cases r) auto

lemma ok_or_Ok_iff [simp]: "ok_or e x = Ok y \<longleftrightarrow> x = Some y"
  by (cases x) auto

lemma ok_or_not_Panic [simp]: "ok_or e x \<noteq> Panic"
  by (cases x) auto

lemma rfold_append: "rfold f (xs @ ys) s = rbind (rfold f xs s) (rfold f ys)"
proof (induction xs arbitrary: s)
  case (Cons x xs)
  then show ?case by (cases "f x s") auto
qed simp

lemma rfold_invariant:
  assumes "rfold f xs s = Ok t" "P s"
    and "\<And>x u v. x \<in> set xs \<Longrightarrow> P u \<Longrightarrow> f x u = Ok v \<Longrightarrow> P v"
  shows "P t"
  using assms by (induction xs arbitrary: s) auto

lemma rfold_total:
  assumes "P s" and "\<And>x u. x \<in> set xs \<Longrightarrow> P u \<Longrightarrow> \<exists>v. f x u = Ok v \<and> P v"
  shows "\<exists>t. rfold f xs s = Ok t \<and> P t"
  using assms
proof (induction xs arbitrary: s)
  case (Cons x xs)
  obtain v where "f x s = Ok v" "P v" using Cons.prems by auto
  then show ?case using Cons.IH[of v] Cons.prems by auto
qed simp

section \<open>Stateful operations\<close>

text \<open>An operation on the state \<open>'s\<close> returns its result with the state it leaves: after an
  early return with an error the effects done so far stay.\<close>

type_synonym ('s, 'a) op = "'s \<Rightarrow> 'a result \<times> 's"

definition sbind :: "('s, 'a) op \<Rightarrow> ('a \<Rightarrow> ('s, 'b) op) \<Rightarrow> ('s, 'b) op" where
  "sbind m f = (\<lambda>s. case m s of
      (Ok x, s') \<Rightarrow> f x s' | (Err e, s') \<Rightarrow> (Err e, s') | (Panic, s') \<Rightarrow> (Panic, s'))"

definition sret :: "'a \<Rightarrow> ('s, 'a) op" where
  "sret x = (\<lambda>s. (Ok x, s))"

definition serr :: "string \<Rightarrow> ('s, 'a) op" where
  "serr e = (\<lambda>s. (Err e, s))"

definition slift :: "'a result \<Rightarrow> ('s, 'a) op" where
  "slift r = (\<lambda>s. (r, s))"

definition supd :: "('s \<Rightarrow> 's) \<Rightarrow> ('s, unit) op" where
  "supd f = (\<lambda>s. (Ok (), f s))"

definition sget :: "('s \<Rightarrow> 'a) \<Rightarrow> ('s, 'a) op" where
  "sget f = (\<lambda>s. (Ok (f s), s))"

text \<open>\<open>stry\<close> is \<open>let _ = m\<close> and \<open>match m\<close>: the result becomes a value, a panic stays a panic.\<close>

definition stry :: "('s, 'a) op \<Rightarrow> ('s, 'a result) op" where
  "stry m = (\<lambda>s. case m s of
      (Ok x, s') \<Rightarrow> (Ok (Ok x), s') | (Err e, s') \<Rightarrow> (Ok (Err e), s') | (Panic, s') \<Rightarrow> (Panic, s'))"

primrec sfor :: "('a \<Rightarrow> ('s, unit) op) \<Rightarrow> 'a list \<Rightarrow> ('s, unit) op" where
  "sfor f [] = sret ()"
| "sfor f (x # xs) = sbind (f x) (\<lambda>_. sfor f xs)"

named_theorems op_simps \<open>unfolding rules for stateful operations\<close>

lemmas op_basic [op_simps] = sret_def serr_def slift_def supd_def sget_def

lemma sbind_Ok [op_simps]: "m s = (Ok x, s') \<Longrightarrow> sbind m f s = f x s'"
  by (simp add: sbind_def)

lemma sbind_Err [op_simps]: "m s = (Err e, s') \<Longrightarrow> sbind m f s = (Err e, s')"
  by (simp add: sbind_def)

lemma sbind_Panic [op_simps]: "m s = (Panic, s') \<Longrightarrow> sbind m f s = (Panic, s')"
  by (simp add: sbind_def)

lemma sbind_pure [op_simps]:
  "sbind (sget f) g s = g (f s) s" "sbind (supd h) u s = u () (h s)" "sbind (sret x) g s = g x s"
  "sbind (slift (Ok x)) g s = g x s" "sbind (slift (Err e)) g s = (Err e, s)" "sbind (slift Panic) g s = (Panic, s)"
  by (simp_all add: sbind_def sget_def supd_def sret_def slift_def)

lemma sbind_OkE:
  assumes "sbind m f s = (Ok y, t)"
  obtains x s' where "m s = (Ok x, s')" "f x s' = (Ok y, t)"
  using assms by (auto simp: sbind_def split: prod.splits result.splits)

lemma sbind_assoc: "sbind (sbind m f) g = sbind m (\<lambda>x. sbind (f x) g)"
  by (auto simp: sbind_def fun_eq_iff split: prod.splits result.splits)

lemma sfor_append: "sfor f (xs @ ys) = sbind (sfor f xs) (\<lambda>_. sfor f ys)"
  by (induction xs) (auto simp: sbind_assoc fun_eq_iff sbind_def sret_def
      split: prod.splits result.splits)

lemma sfor_total:
  assumes "P s" "\<And>x u. x \<in> set xs \<Longrightarrow> P u \<Longrightarrow> \<exists>v. f x u = (Ok (), v) \<and> P v"
  shows "\<exists>t. sfor f xs s = (Ok (), t) \<and> P t"
  using assms
proof (induction xs arbitrary: s)
  case Nil
  then show ?case by (simp add: sret_def)
next
  case (Cons x xs)
  obtain v where v: "f x s = (Ok (), v)" "P v" using Cons.prems by auto
  then obtain t where "sfor f xs v = (Ok (), t)" "P t" using Cons.IH[of v] Cons.prems by auto
  then show ?case using v by (auto simp: sbind_Ok)
qed

lemma sfor_step_inv:
  assumes "sfor f xs s = (r, t)" "P s"
    and "\<And>x u q v. x \<in> set xs \<Longrightarrow> P u \<Longrightarrow> f x u = (q, v) \<Longrightarrow> P v \<and> q \<noteq> Panic"
  shows "P t \<and> r \<noteq> Panic"
  using assms
proof (induction xs arbitrary: s)
  case Nil
  then show ?case by (auto simp: sret_def)
next
  case (Cons x xs)
  obtain q v where q: "f x s = (q, v)" by (cases "f x s")
  then have v: "P v" "q \<noteq> Panic" using Cons.prems by auto
  show ?case
  proof (cases q)
    case (Ok u)
    then have "sfor f xs v = (r, t)" using Cons.prems(1) q by (simp add: sbind_Ok)
    then show ?thesis using Cons.IH[of v] v Cons.prems(3) by auto
  next
    case (Err e)
    then show ?thesis using Cons.prems(1) q v by (auto simp: sbind_Err)
  qed (use v in simp)
qed

lemma sfor_covers:
  assumes "sfor f xs s = (Ok (), t)" "P s"
    and "\<And>x u v. x \<in> set xs \<Longrightarrow> P u \<Longrightarrow> f x u = (Ok (), v) \<Longrightarrow> P v \<and> Q x v"
    and "\<And>x y u v. y \<in> set xs \<Longrightarrow> P u \<Longrightarrow> Q x u \<Longrightarrow> f y u = (Ok (), v) \<Longrightarrow> Q x v"
  shows "P t \<and> (\<forall>x \<in> set xs. Q x t)"
  using assms
proof (induction xs arbitrary: t rule: rev_induct)
  case Nil
  have "t = s" using Nil.prems(1) by (simp add: sret_def)
  then show ?case using Nil.prems(2) by simp
next
  case (snoc x xs)
  have "sbind (sfor f xs) (\<lambda>_. sbind (f x) (\<lambda>_. sret ())) s = (Ok (), t)"
    using snoc.prems(1) by (simp add: sfor_append)
  then obtain u where u: "sfor f xs s = (Ok (), u)" "f x u = (Ok (), t)"
    by (auto simp: sbind_def sret_def split: prod.splits result.splits)
  have "P u \<and> (\<forall>y \<in> set xs. Q y u)"
  proof (rule snoc.IH[OF u(1) snoc.prems(2)])
    fix y v w assume y: "y \<in> set xs" "P v" "f y v = (Ok (), w)"
    then show "P w \<and> Q y w" by (intro snoc.prems(3)) auto
  next
    fix z y v w assume y: "y \<in> set xs" "P v" "Q z v" "f y v = (Ok (), w)"
    show "Q z w" by (rule snoc.prems(4)[OF _ y(2,3,4)]) (use y(1) in simp)
  qed
  moreover have "P t \<and> Q x t" if "P u" by (rule snoc.prems(3)[OF _ that u(2)]) simp
  moreover have "Q y t" if "P u" "Q y u" for y by (rule snoc.prems(4)[OF _ that u(2)]) simp
  ultimately show ?case by auto
qed

section \<open>Little endian encodings\<close>

primrec le_nat :: "bytes \<Rightarrow> nat" where
  "le_nat [] = 0"
| "le_nat (b # bs) = unat b + 256 * le_nat bs"

primrec le_bytes :: "nat \<Rightarrow> nat \<Rightarrow> bytes" where
  "le_bytes 0 n = []"
| "le_bytes (Suc k) n = of_nat n # le_bytes k (n div 256)"

definition be_nat :: "bytes \<Rightarrow> nat" where
  "be_nat bs = le_nat (rev bs)"

definition be_bytes :: "nat \<Rightarrow> nat \<Rightarrow> bytes" where
  "be_bytes k n = rev (le_bytes k n)"

lemma length_le_bytes [simp]: "length (le_bytes k n) = k"
  by (induction k arbitrary: n) auto

lemma length_be_bytes [simp]: "length (be_bytes k n) = k"
  by (simp add: be_bytes_def)

lemma le_nat_less: "le_nat bs < 256 ^ length bs"
proof (induction bs)
  case (Cons b bs)
  have "unat b < 256" using unat_less[of b] by simp
  then show ?case using Cons by simp
qed simp

lemma le_nat_le_bytes [byte_simps]: "le_nat (le_bytes k n) = n mod 256 ^ k"
proof (induction k arbitrary: n)
  case (Suc k)
  have "unat (of_nat n :: u8) = n mod 256" by (simp add: unat_of_nat)
  then show ?case by (simp add: Suc mod_mult2_eq)
qed simp

lemma le_bytes_le_nat [byte_simps]: "le_bytes (length bs) (le_nat bs) = bs"
proof (induction bs)
  case (Cons b bs)
  have b: "unat b < 256" using unat_less[of b] by simp
  have "of_nat (256 * le_nat bs) = (0 :: u8)"
    by (simp add: word_of_nat_eq_0_iff del: of_nat_mult)
  then have "(of_nat (unat b + 256 * le_nat bs) :: u8) = b" by simp
  then show ?case using Cons b by simp
qed simp

lemma be_nat_be_bytes [byte_simps]: "be_nat (be_bytes k n) = n mod 256 ^ k"
  by (simp add: be_nat_def be_bytes_def le_nat_le_bytes)

section \<open>Byte strings\<close>

definition str :: "string \<Rightarrow> bytes" where
  "str s = map of_char s"

definition ascii_bytes :: "bytes \<Rightarrow> bool" where
  "ascii_bytes bs \<longleftrightarrow> (\<forall>b \<in> set bs. b < 0x80)"

definition utf8_cont :: "u8 \<Rightarrow> bool" where
  "utf8_cont b \<longleftrightarrow> 0x80 \<le> b \<and> b \<le> 0xBF"

fun utf8_valid :: "bytes \<Rightarrow> bool" where
  "utf8_valid [] = True"
| "utf8_valid (b0 # bs) =
    (if b0 < 0x80 then utf8_valid bs
     else if 0xC2 \<le> b0 \<and> b0 \<le> 0xDF then
       (case bs of b1 # r \<Rightarrow> utf8_cont b1 \<and> utf8_valid r | _ \<Rightarrow> False)
     else if 0xE0 \<le> b0 \<and> b0 \<le> 0xEF then
       (case bs of b1 # b2 # r \<Rightarrow>
          utf8_cont b1 \<and> (b0 = 0xE0 \<longrightarrow> 0xA0 \<le> b1) \<and> (b0 = 0xED \<longrightarrow> b1 \<le> 0x9F) \<and>
          utf8_cont b2 \<and> utf8_valid r
        | _ \<Rightarrow> False)
     else if 0xF0 \<le> b0 \<and> b0 \<le> 0xF4 then
       (case bs of b1 # b2 # b3 # r \<Rightarrow>
          utf8_cont b1 \<and> (b0 = 0xF0 \<longrightarrow> 0x90 \<le> b1) \<and> (b0 = 0xF4 \<longrightarrow> b1 \<le> 0x8F) \<and>
          utf8_cont b2 \<and> utf8_cont b3 \<and> utf8_valid r
        | _ \<Rightarrow> False)
     else False)"

lemma utf8_valid_ascii: "ascii_bytes bs \<Longrightarrow> utf8_valid bs"
  unfolding ascii_bytes_def by (induction bs) auto

section \<open>Physical memory\<close>

definition read_bytes :: "mem \<Rightarrow> nat \<Rightarrow> nat \<Rightarrow> bytes" where
  "read_bytes m a n = map (\<lambda>i. m (a + i)) [0..<n]"

definition write_bytes :: "mem \<Rightarrow> nat \<Rightarrow> bytes \<Rightarrow> mem" where
  "write_bytes m a bs = (\<lambda>x. if a \<le> x \<and> x < a + length bs then bs ! (x - a) else m x)"

definition fill_bytes :: "mem \<Rightarrow> nat \<Rightarrow> u8 \<Rightarrow> nat \<Rightarrow> mem" where
  "fill_bytes m a v n = (\<lambda>x. if a \<le> x \<and> x < a + n then v else m x)"

definition read_le :: "nat \<Rightarrow> mem \<Rightarrow> nat \<Rightarrow> nat" where
  "read_le k m a = le_nat (read_bytes m a k)"

abbreviation read_u8 :: "mem \<Rightarrow> nat \<Rightarrow> nat" where "read_u8 m a \<equiv> read_le 1 m a"
abbreviation read_u16 :: "mem \<Rightarrow> nat \<Rightarrow> nat" where "read_u16 m a \<equiv> read_le 2 m a"
abbreviation read_u32 :: "mem \<Rightarrow> nat \<Rightarrow> nat" where "read_u32 m a \<equiv> read_le 4 m a"
abbreviation read_u64 :: "mem \<Rightarrow> nat \<Rightarrow> nat" where "read_u64 m a \<equiv> read_le 8 m a"

lemma length_read_bytes [simp]: "length (read_bytes m a n) = n"
  by (simp add: read_bytes_def)

lemma nth_read_bytes [simp]: "i < n \<Longrightarrow> read_bytes m a n ! i = m (a + i)"
  by (simp add: read_bytes_def)

lemma read_le_less: "read_le k m a < 256 ^ k"
  using le_nat_less[of "read_bytes m a k"] by (simp add: read_le_def)

lemma read_write_bytes_same [byte_simps]:
  "read_bytes (write_bytes m a bs) a (length bs) = bs"
  by (rule nth_equalityI) (auto simp: write_bytes_def)

lemma read_write_bytes_other [byte_simps]:
  "a + n \<le> b \<or> b + length bs \<le> a \<Longrightarrow> read_bytes (write_bytes m b bs) a n = read_bytes m a n"
  by (rule nth_equalityI) (auto simp: write_bytes_def)

lemma write_bytes_outside [simp]:
  "x < a \<or> a + length bs \<le> x \<Longrightarrow> write_bytes m a bs x = m x"
  by (auto simp: write_bytes_def)

lemma write_bytes_inside [simp]:
  "i < length bs \<Longrightarrow> write_bytes m a bs (a + i) = bs ! i"
  by (simp add: write_bytes_def)

lemma fill_bytes_outside [simp]: "x < a \<or> a + n \<le> x \<Longrightarrow> fill_bytes m a v n x = m x"
  by (auto simp: fill_bytes_def)

lemma fill_bytes_inside [simp]: "a \<le> x \<Longrightarrow> x < a + n \<Longrightarrow> fill_bytes m a v n x = v"
  by (auto simp: fill_bytes_def)

section \<open>Alignment\<close>

text \<open>The kernel rounds with \<open>(addr + align - 1) & !(align - 1)\<close> and \<open>addr & !0xfff\<close>;
  on natural numbers these are the quotients below, which the two word lemmas justify.\<close>

definition align_down :: "nat \<Rightarrow> nat \<Rightarrow> nat" where
  "align_down al a = a div al * al"

lemma align_down_le: "align_down al a \<le> a"
  by (simp add: align_down_def)

lemma align_down_gt: "0 < al \<Longrightarrow> a < align_down al a + al"
  using mod_less_divisor[of al a] div_mult_mod_eq[of a al]
  unfolding align_down_def by linarith

lemma align_down_dvd [simp]: "al dvd align_down al a"
  by (simp add: align_down_def)

unbundle bit_operations_syntax

lemma word_align_down:
  fixes w :: "64 word"
  assumes "k < 64"
  shows "unat (w AND NOT (mask k)) = align_down (2 ^ k) (unat w)"
proof -
  have "w AND NOT (mask k) = push_bit k (drop_bit k w)"
    by (rule bit_word_eqI) (auto simp: bit_simps)
  moreover have "unat (push_bit k (drop_bit k w)) = unat w div 2 ^ k * 2 ^ k"
  proof -
    have "unat w div 2 ^ k * 2 ^ k \<le> unat w" by simp
    also have "\<dots> < 2 ^ 64" using unat_less[of w] by simp
    finally have "unat w div 2 ^ k * 2 ^ k < 2 ^ 64" .
    then have "take_bit 64 (push_bit k (drop_bit k (unat w))) = unat w div 2 ^ k * 2 ^ k"
      by (simp add: push_bit_eq_mult drop_bit_eq_div take_bit_nat_eq_self)
    moreover have "take_bit 64 (unat w) = unat w"
      using unat_less[of w] by (simp add: take_bit_nat_eq_self)
    ultimately show ?thesis
      by (simp only: unsigned_push_bit_eq unsigned_drop_bit_eq) simp
  qed
  ultimately show ?thesis by (simp add: align_down_def)
qed

end
