(* ===== verification/Boot_Info.thy ===== *)
theory Boot_Info
  imports Prelude
begin

text \<open>
  The multiboot2 information structure, \<open>kernel/src/boot_info.rs\<close>.

  The structure is read in place, so every operation takes the physical memory.  The
  two iterators follow sizes found in memory: an iteration runs on fuel and \<open>None\<close>
  means that the fuel ran out, as a tag of size 0 makes the loop stand still.
  The lemmas show that an iterator over tags laid out as multiboot2 prescribes
  visits every tag once and stops at the end tag.
\<close>

section \<open>Data\<close>

record memory_area =
  base_addr :: nat
  area_len :: nat
  area_typ :: nat

record boot_info =
  bi_addr :: nat
  total_size :: nat

record tag_ref =
  tag_typ :: nat
  tag_size :: nat
  tag_ptr :: nat

record tag_iter =
  it_ptr :: nat
  it_end :: nat

record memory_area_iter =
  ma_current :: nat
  ma_end :: nat
  entry_size :: nat

record framebuffer_info =
  fb_addr :: nat
  fb_pitch :: nat
  fb_width :: nat
  fb_height :: nat
  fb_bpp :: nat
  fb_type :: nat

record boot_module =
  mod_start :: nat
  mod_len :: nat
  mod_name :: bytes

definition is_usable :: "memory_area \<Rightarrow> bool" where
  "is_usable a \<longleftrightarrow> area_typ a = 1"

definition end_addr :: "memory_area \<Rightarrow> nat result" where
  "end_addr a = cadd 64 (base_addr a) (area_len a)"

section \<open>Iterators\<close>

definition from_addr :: "mem \<Rightarrow> nat \<Rightarrow> boot_info" where
  "from_addr m a = \<lparr> bi_addr = a, total_size = read_u32 m a \<rparr>"

definition tags :: "boot_info \<Rightarrow> tag_iter result" where
  "tags bi = rbind (cadd 64 (bi_addr bi) 8) (\<lambda>p.
     rbind (cadd 64 (bi_addr bi) (total_size bi)) (\<lambda>e.
     Ok \<lparr> it_ptr = p, it_end = e \<rparr>))"

definition tag_next :: "mem \<Rightarrow> tag_iter \<Rightarrow> (tag_ref option \<times> tag_iter) result" where
  "tag_next m it =
    (if it_end it \<le> it_ptr it then Ok (None, it)
     else let typ = read_u32 m (it_ptr it); size = read_u32 m (it_ptr it + 4) in
       if typ = 0 \<and> size = 8 then Ok (None, it)
       else rbind (cadd 64 (it_ptr it) size) (\<lambda>n.
            rbind (cadd 64 n 7) (\<lambda>n7.
            Ok (Some \<lparr> tag_typ = typ, tag_size = size, tag_ptr = it_ptr it \<rparr>,
                it \<lparr> it_ptr := align_down 8 n7 \<rparr>))))"

fun collect_tags :: "nat \<Rightarrow> mem \<Rightarrow> tag_iter \<Rightarrow> tag_ref list result option" where
  "collect_tags 0 m it = None"
| "collect_tags (Suc k) m it =
    (case tag_next m it of
       Ok (None, _) \<Rightarrow> Some (Ok [])
     | Ok (Some t, it') \<Rightarrow>
         map_option (\<lambda>r. rbind r (\<lambda>ts. Ok (t # ts))) (collect_tags k m it')
     | Err e \<Rightarrow> Some (Err e)
     | Panic \<Rightarrow> Some Panic)"

fun tag_find_map :: "nat \<Rightarrow> mem \<Rightarrow> (tag_ref \<Rightarrow> 'a option) \<Rightarrow> tag_iter
    \<Rightarrow> 'a option result option" where
  "tag_find_map 0 m f it = None"
| "tag_find_map (Suc k) m f it =
    (case tag_next m it of
       Ok (None, _) \<Rightarrow> Some (Ok None)
     | Ok (Some t, it') \<Rightarrow>
         (case f t of Some x \<Rightarrow> Some (Ok (Some x)) | None \<Rightarrow> tag_find_map k m f it')
     | Err e \<Rightarrow> Some (Err e)
     | Panic \<Rightarrow> Some Panic)"

definition tag_string :: "mem \<Rightarrow> tag_ref \<Rightarrow> bytes option" where
  "tag_string m t = (let len = tag_size t - 8 in
     if len = 0 then Some []
     else let trimmed = takeWhile (\<lambda>b. b \<noteq> 0) (read_bytes m (tag_ptr t + 8) len) in
       if utf8_valid trimmed then Some trimmed else None)"

definition memory_area_at :: "mem \<Rightarrow> nat \<Rightarrow> memory_area" where
  "memory_area_at m p =
    \<lparr> base_addr = read_u64 m p, area_len = read_u64 m (p + 8), area_typ = read_u32 m (p + 16) \<rparr>"

definition area_next :: "mem \<Rightarrow> memory_area_iter \<Rightarrow> memory_area option \<times> memory_area_iter" where
  "area_next m it =
    (if ma_end it \<le> ma_current it then (None, it)
     else (Some (memory_area_at m (ma_current it)),
           it \<lparr> ma_current := ma_current it + entry_size it \<rparr>))"

fun collect_areas :: "nat \<Rightarrow> mem \<Rightarrow> memory_area_iter \<Rightarrow> memory_area list option" where
  "collect_areas 0 m it = None"
| "collect_areas (Suc k) m it =
    (case area_next m it of
       (None, _) \<Rightarrow> Some []
     | (Some a, it') \<Rightarrow> map_option (\<lambda>as. a # as) (collect_areas k m it'))"

section \<open>Queries\<close>

definition cmdline :: "nat \<Rightarrow> mem \<Rightarrow> boot_info \<Rightarrow> bytes option result option" where
  "cmdline k m bi = (case tags bi of
      Ok it \<Rightarrow> tag_find_map k m (\<lambda>t. if tag_typ t = 1 then tag_string m t else None) it
    | Err e \<Rightarrow> Some (Err e) | Panic \<Rightarrow> Some Panic)"

definition bootloader_name :: "nat \<Rightarrow> mem \<Rightarrow> boot_info \<Rightarrow> bytes option result option" where
  "bootloader_name k m bi = (case tags bi of
      Ok it \<Rightarrow> tag_find_map k m (\<lambda>t. if tag_typ t = 2 then tag_string m t else None) it
    | Err e \<Rightarrow> Some (Err e) | Panic \<Rightarrow> Some Panic)"

definition memory_areas :: "nat \<Rightarrow> mem \<Rightarrow> boot_info
    \<Rightarrow> memory_area_iter option result option" where
  "memory_areas k m bi = (case tags bi of
      Ok it \<Rightarrow> tag_find_map k m (\<lambda>t.
        if tag_typ t = 6 then
          Some \<lparr> ma_current = tag_ptr t + 16, ma_end = tag_ptr t + tag_size t,
                 entry_size = read_u32 m (tag_ptr t + 8) \<rparr>
        else None) it
    | Err e \<Rightarrow> Some (Err e) | Panic \<Rightarrow> Some Panic)"

definition framebuffer :: "nat \<Rightarrow> mem \<Rightarrow> boot_info
    \<Rightarrow> framebuffer_info option result option" where
  "framebuffer k m bi = (case tags bi of
      Ok it \<Rightarrow> tag_find_map k m (\<lambda>t.
        if tag_typ t = 8 then
          Some \<lparr> fb_addr = read_u64 m (tag_ptr t + 8), fb_pitch = read_u32 m (tag_ptr t + 16),
                 fb_width = read_u32 m (tag_ptr t + 20), fb_height = read_u32 m (tag_ptr t + 24),
                 fb_bpp = read_u8 m (tag_ptr t + 28), fb_type = read_u8 m (tag_ptr t + 29) \<rparr>
        else None) it
    | Err e \<Rightarrow> Some (Err e) | Panic \<Rightarrow> Some Panic)"

definition module_of_tag :: "mem \<Rightarrow> tag_ref \<Rightarrow> boot_module result" where
  "module_of_tag m t =
    (let start = read_u32 m (tag_ptr t + 8); fin = read_u32 m (tag_ptr t + 12);
         name = takeWhile (\<lambda>b. b \<noteq> 0) (read_bytes m (tag_ptr t + 16) (tag_size t - 16)) in
     rbind (csub fin start) (\<lambda>len.
     Ok \<lparr> mod_start = start, mod_len = len,
          mod_name = (if utf8_valid name then name else []) \<rparr>))"

fun collect_modules :: "nat \<Rightarrow> mem \<Rightarrow> tag_iter \<Rightarrow> boot_module list result option" where
  "collect_modules 0 m it = None"
| "collect_modules (Suc k) m it =
    (case tag_next m it of
       Ok (None, _) \<Rightarrow> Some (Ok [])
     | Ok (Some t, it') \<Rightarrow>
         (if tag_typ t = 3 then
            (case module_of_tag m t of
               Ok md \<Rightarrow> map_option (\<lambda>r. rbind r (\<lambda>ms. Ok (md # ms))) (collect_modules k m it')
             | Err e \<Rightarrow> Some (Err e)
             | Panic \<Rightarrow> Some Panic)
          else collect_modules k m it')
     | Err e \<Rightarrow> Some (Err e)
     | Panic \<Rightarrow> Some Panic)"

definition modules :: "nat \<Rightarrow> mem \<Rightarrow> boot_info \<Rightarrow> boot_module list result option" where
  "modules k m bi = (case tags bi of
      Ok it \<Rightarrow> collect_modules k m it | Err e \<Rightarrow> Some (Err e) | Panic \<Rightarrow> Some Panic)"

section \<open>Tag sequences\<close>

text \<open>The layout multiboot2 prescribes: each tag occupies its size rounded up to 8 bytes,
  the last tag has type 0 and size 8.  A tag is given by its type and its size.\<close>

fun tags_at :: "mem \<Rightarrow> nat \<Rightarrow> (nat \<times> nat) list \<Rightarrow> nat \<Rightarrow> bool" where
  "tags_at m p [] e \<longleftrightarrow> p < e \<and> read_u32 m p = 0 \<and> read_u32 m (p + 4) = 8"
| "tags_at m p ((ty, sz) # ts) e \<longleftrightarrow> p < e \<and> e < 2 ^ 63 \<and> 8 \<le> sz \<and>
     (ty, sz) \<noteq> (0, 8) \<and> read_u32 m p = ty \<and> read_u32 m (p + 4) = sz \<and>
     tags_at m (align_down 8 (p + sz + 7)) ts e"

fun tag_refs :: "nat \<Rightarrow> (nat \<times> nat) list \<Rightarrow> tag_ref list" where
  "tag_refs p [] = []"
| "tag_refs p ((ty, sz) # ts) =
     \<lparr> tag_typ = ty, tag_size = sz, tag_ptr = p \<rparr> # tag_refs (align_down 8 (p + sz + 7)) ts"

lemma tag_next_at_end:
  "tags_at m p [] e \<Longrightarrow> tag_next m \<lparr> it_ptr = p, it_end = e \<rparr> = Ok (None, \<lparr> it_ptr = p, it_end = e \<rparr>)"
  by (simp add: tag_next_def)

lemma tag_next_at_tag:
  assumes "tags_at m p ((ty, sz) # ts) e"
  shows "tag_next m \<lparr> it_ptr = p, it_end = e \<rparr> =
    Ok (Some \<lparr> tag_typ = ty, tag_size = sz, tag_ptr = p \<rparr>,
        \<lparr> it_ptr = align_down 8 (p + sz + 7), it_end = e \<rparr>)"
proof -
  have "read_u32 m (p + 4) < 256 ^ 4" by (rule read_le_less)
  then have "sz < 2 ^ 32" using assms by simp
  then have "p + sz + 7 < 2 ^ 64" using assms by simp
  then show ?thesis using assms by (auto simp: tag_next_def cadd_def Let_def)
qed

lemma collect_tags_complete:
  assumes "tags_at m p ts e" "length ts < k"
  shows "collect_tags k m \<lparr> it_ptr = p, it_end = e \<rparr> = Some (Ok (tag_refs p ts))"
  using assms
proof (induction ts arbitrary: k p)
  case Nil
  then obtain j where "k = Suc j" by (cases k) auto
  with Nil show ?case by (simp add: tag_next_at_end)
next
  case (Cons t ts)
  then obtain j where k: "k = Suc j" by (cases k) auto
  obtain ty sz where t: "t = (ty, sz)" by (cases t)
  have "tags_at m (align_down 8 (p + sz + 7)) ts e" using Cons.prems t by simp
  then have "collect_tags j m \<lparr> it_ptr = align_down 8 (p + sz + 7), it_end = e \<rparr>
      = Some (Ok (tag_refs (align_down 8 (p + sz + 7)) ts))"
    using Cons k by simp
  then show ?case using tag_next_at_tag[of m p ty sz ts e] Cons.prems by (simp add: k t)
qed

primrec first_some :: "('a \<Rightarrow> 'b option) \<Rightarrow> 'a list \<Rightarrow> 'b option" where
  "first_some f [] = None"
| "first_some f (x # xs) = (case f x of Some y \<Rightarrow> Some y | None \<Rightarrow> first_some f xs)"

lemma tag_find_map_complete:
  assumes "tags_at m p ts e" "length ts < k"
  shows "tag_find_map k m f \<lparr> it_ptr = p, it_end = e \<rparr> =
    Some (Ok (first_some f (tag_refs p ts)))"
  using assms
proof (induction ts arbitrary: k p)
  case Nil
  then obtain j where "k = Suc j" by (cases k) auto
  with Nil show ?case by (simp add: tag_next_at_end)
next
  case (Cons t ts)
  then obtain j where k: "k = Suc j" by (cases k) auto
  obtain ty sz where t: "t = (ty, sz)" by (cases t)
  have "tags_at m (align_down 8 (p + sz + 7)) ts e" using Cons.prems t by simp
  then have "tag_find_map j m f \<lparr> it_ptr = align_down 8 (p + sz + 7), it_end = e \<rparr>
      = Some (Ok (first_some f (tag_refs (align_down 8 (p + sz + 7)) ts)))"
    using Cons k by simp
  then show ?case using tag_next_at_tag[of m p ty sz ts e] Cons.prems
    by (simp add: k t split: option.splits)
qed

text \<open>A tag whose size field is 0 at an 8-aligned address makes the iterator return the
  same tag for ever.\<close>

lemma collect_tags_stands_still:
  assumes "p < e" "8 dvd p" "e < 2 ^ 63" "read_u32 m (p + 4) = 0"
  shows "collect_tags k m \<lparr> it_ptr = p, it_end = e \<rparr> = None"
proof (induction k)
  case (Suc k)
  have "align_down 8 (p + 7) = p" using assms(2) by (auto simp: align_down_def)
  then have "tag_next m \<lparr> it_ptr = p, it_end = e \<rparr> =
      Ok (Some \<lparr> tag_typ = read_u32 m p, tag_size = 0, tag_ptr = p \<rparr>, \<lparr> it_ptr = p, it_end = e \<rparr>)"
    using assms by (simp add: tag_next_def cadd_def Let_def)
  then show ?case using Suc by simp
qed simp

section \<open>Memory areas\<close>

lemma collect_areas_complete:
  assumes "0 < entry_size it" "ma_end it = ma_current it + n * entry_size it" "n < k"
  shows "collect_areas k m it =
    Some (map (\<lambda>i. memory_area_at m (ma_current it + i * entry_size it)) [0..<n])"
  using assms
proof (induction n arbitrary: k it)
  case 0
  then obtain j where "k = Suc j" by (cases k) auto
  with 0 show ?case by (simp add: area_next_def)
next
  case (Suc n)
  then obtain j where k: "k = Suc j" by (cases k) auto
  let ?it = "it \<lparr> ma_current := ma_current it + entry_size it \<rparr>"
  have "collect_areas j m ?it =
      Some (map (\<lambda>i. memory_area_at m (ma_current ?it + i * entry_size it)) [0..<n])"
    using Suc.IH[of ?it j] Suc.prems k by simp
  moreover have "map (\<lambda>i. memory_area_at m (ma_current it + i * entry_size it)) [0..<Suc n] =
      memory_area_at m (ma_current it) #
      map (\<lambda>i. memory_area_at m (ma_current it + Suc i * entry_size it)) [0..<n]"
    by (simp add: map_upt_Suc del: upt_Suc)
  ultimately show ?case using Suc.prems by (simp add: k area_next_def add.assoc del: upt_Suc)
qed

end
