(* ===== verification/Frame_Allocator.thy ===== *)
theory Frame_Allocator
  imports Prelude Boot_Info
begin

text \<open>
  The bitmap allocator of physical frames, \<open>kernel/src/memory/frame_allocator.rs\<close>.

  A frame is named by its start address, as \<open>PhysFrame\<close> is.  The abstract view of an
  allocator is the set \<open>free_frames\<close> of the frames it may still hand out; the lemmas show
  that the search hint \<open>next_free\<close> never hides a free frame, that allocation returns the
  lowest free frame, zeroed, that releasing a frame makes exactly this frame available
  again, that the counter \<open>used\<close> counts the occupied frames outside the unusable
  regions, and that the frames the boot code reserves are never handed out.
\<close>

unbundle bit_operations_syntax

section \<open>Constants\<close>

abbreviation FRAME_SIZE :: nat where "FRAME_SIZE \<equiv> 4096"
abbreviation BITMAP_ADDR :: nat where "BITMAP_ADDR \<equiv> 0x00F00000"
abbreviation BITMAP_SIZE :: nat where "BITMAP_SIZE \<equiv> 64 * 1024"
abbreviation BITMAP_BITS :: nat where "BITMAP_BITS \<equiv> 524288"
abbreviation HEAP_START :: nat where "HEAP_START \<equiv> 0x01000000"
abbreviation HEAP_SIZE :: nat where "HEAP_SIZE \<equiv> 32 * 1024 * 1024"

section \<open>State and operations\<close>

type_synonym phys_frame = nat

record frame_allocator =
  bitmap :: bytes
  num_frames :: nat
  next_free :: nat
  used :: nat

definition bit_get :: "bytes \<Rightarrow> nat \<Rightarrow> bool result" where
  "bit_get bm i = rbind (ridx bm (i div 8)) (\<lambda>b. Ok (b AND push_bit (i mod 8) 1 \<noteq> 0))"

definition bit_set :: "bytes \<Rightarrow> nat \<Rightarrow> bytes result" where
  "bit_set bm i = rbind (ridx bm (i div 8)) (\<lambda>b. rset bm (i div 8) (b OR push_bit (i mod 8) 1))"

definition bit_clear :: "bytes \<Rightarrow> nat \<Rightarrow> bytes result" where
  "bit_clear bm i =
    rbind (ridx bm (i div 8)) (\<lambda>b. rset bm (i div 8) (b AND NOT (push_bit (i mod 8) 1)))"

definition align_up :: "nat \<Rightarrow> nat \<Rightarrow> nat result" where
  "align_up addr al = rbind (cadd 64 addr al) (\<lambda>s. Ok (align_down al (s - 1)))"

definition mark_frame_used :: "nat \<Rightarrow> frame_allocator \<Rightarrow> frame_allocator result" where
  "mark_frame_used f fa = rbind (bit_get (bitmap fa) f) (\<lambda>b.
     if b then Ok fa
     else rbind (bit_set (bitmap fa) f) (\<lambda>bm.
          rbind (cadd 64 (used fa) 1) (\<lambda>u.
          Ok (fa \<lparr> bitmap := bm, used := u \<rparr>))))"

definition mark_range_used :: "nat \<Rightarrow> nat \<Rightarrow> frame_allocator \<Rightarrow> frame_allocator result" where
  "mark_range_used start fin fa = rbind (align_up fin FRAME_SIZE) (\<lambda>e.
     rfold mark_frame_used [start div FRAME_SIZE..<min (e div FRAME_SIZE) BITMAP_BITS] fa)"

definition release_frame :: "nat \<Rightarrow> bytes \<times> nat \<Rightarrow> (bytes \<times> nat) result" where
  "release_frame f s = rbind (bit_clear (fst s) f) (\<lambda>bm. Ok (bm, max (snd s) (f + 1)))"

definition release_area :: "memory_area \<Rightarrow> bytes \<times> nat \<Rightarrow> (bytes \<times> nat) result" where
  "release_area a s =
    (if \<not> is_usable a then Ok s
     else rbind (align_up (base_addr a) FRAME_SIZE) (\<lambda>start.
          rbind (end_addr a) (\<lambda>fin.
          let first = start div FRAME_SIZE;
              last = min (align_down FRAME_SIZE fin div FRAME_SIZE) BITMAP_BITS in
          if BITMAP_BITS \<le> first then Ok s else rfold release_frame [first..<last] s)))"

definition mark_module_used :: "boot_module \<Rightarrow> frame_allocator \<Rightarrow> frame_allocator result" where
  "mark_module_used md = mark_range_used (mod_start md) (mod_start md + mod_len md)"

definition full_bitmap :: bytes where
  "full_bitmap = replicate BITMAP_SIZE 0xFF"

definition new_with :: "memory_area list \<Rightarrow> boot_module list \<Rightarrow> frame_allocator result" where
  "new_with areas mods =
    rbind (rfold release_area areas (full_bitmap, 0)) (\<lambda>s.
    rbind (mark_range_used 0 BITMAP_ADDR
      \<lparr> bitmap = fst s, num_frames = snd s, next_free = 0, used = 0 \<rparr>) (\<lambda>a1.
    rbind (mark_range_used BITMAP_ADDR (BITMAP_ADDR + BITMAP_SIZE) a1) (\<lambda>a2.
    rbind (mark_range_used HEAP_START (HEAP_START + HEAP_SIZE) a2) (\<lambda>a3.
    rbind (mark_range_used 0 0 a3) (\<lambda>a4.
    rfold mark_module_used mods a4)))))"

definition new_frame_allocator :: "nat \<Rightarrow> mem \<Rightarrow> boot_info \<Rightarrow> frame_allocator result option" where
  "new_frame_allocator k m bi =
    (case memory_areas k m bi of
       None \<Rightarrow> None
     | Some Panic \<Rightarrow> Some Panic
     | Some (Err e) \<Rightarrow> Some (Err e)
     | Some (Ok it) \<Rightarrow>
         (case (case it of None \<Rightarrow> Some [] | Some i \<Rightarrow> collect_areas k m i) of
            None \<Rightarrow> None
          | Some areas \<Rightarrow>
              (case modules k m bi of
                 None \<Rightarrow> None
               | Some Panic \<Rightarrow> Some Panic
               | Some (Err e) \<Rightarrow> Some (Err e)
               | Some (Ok mods) \<Rightarrow> Some (new_with areas mods))))"

fun find_free_in :: "bytes \<Rightarrow> nat list \<Rightarrow> nat option result" where
  "find_free_in bm [] = Ok None"
| "find_free_in bm (f # fs) =
     rbind (bit_get bm f) (\<lambda>b. if \<not> b then Ok (Some f) else find_free_in bm fs)"

definition find_free :: "frame_allocator \<Rightarrow> (nat option \<times> frame_allocator) result" where
  "find_free fa = rbind (find_free_in (bitmap fa) [next_free fa..<num_frames fa]) (\<lambda>r.
     case r of None \<Rightarrow> Ok (None, fa) | Some f \<Rightarrow> Ok (Some f, fa \<lparr> next_free := f + 1 \<rparr>))"

definition stats :: "frame_allocator \<Rightarrow> nat \<times> nat" where
  "stats fa = (used fa, num_frames fa)"

definition allocate_frame :: "frame_allocator \<times> mem
    \<Rightarrow> (phys_frame option \<times> frame_allocator \<times> mem) result" where
  "allocate_frame s = rbind (find_free (fst s)) (\<lambda>r.
     case r of
       (None, fa) \<Rightarrow> Ok (None, fa, snd s)
     | (Some f, fa) \<Rightarrow>
         rbind (bit_set (bitmap fa) f) (\<lambda>bm.
         rbind (cadd 64 (used fa) 1) (\<lambda>u.
         Ok (Some (f * FRAME_SIZE), fa \<lparr> bitmap := bm, used := u \<rparr>,
             fill_bytes (snd s) (f * FRAME_SIZE) 0 FRAME_SIZE))))"

definition deallocate_frame :: "phys_frame \<Rightarrow> frame_allocator \<Rightarrow> frame_allocator result" where
  "deallocate_frame frame fa =
    (let f = frame div FRAME_SIZE in
     rbind (bit_get (bitmap fa) f) (\<lambda>b.
       if b then
         rbind (bit_clear (bitmap fa) f) (\<lambda>bm.
         rbind (csub (used fa) 1) (\<lambda>u.
         Ok (fa \<lparr> bitmap := bm, used := u,
                  next_free := (if f < next_free fa then f else next_free fa) \<rparr>)))
       else Ok fa))"

section \<open>Bits of the bitmap\<close>

definition occupied :: "bytes \<Rightarrow> nat \<Rightarrow> bool" where
  "occupied bm i \<longleftrightarrow> bit (bm ! (i div 8)) (i mod 8)"

lemma div8_less: "i < 8 * n \<Longrightarrow> i div 8 < n" for i n :: nat
  by auto

lemma bit_get_eq [simp]: "i < 8 * length bm \<Longrightarrow> bit_get bm i = Ok (occupied bm i)"
  by (simp add: bit_get_def occupied_def result_simps div8_less bit_iff_and_push_bit_not_eq_0)

lemma bit_set_props:
  assumes "i < 8 * length bm"
  shows "\<exists>bm'. bit_set bm i = Ok bm' \<and> length bm' = length bm \<and>
    (\<forall>j < 8 * length bm. occupied bm' j \<longleftrightarrow> j = i \<or> occupied bm j)"
proof -
  have eq: "j = i" if "j div 8 = i div 8" "j mod 8 = i mod 8" for j
    using that by (metis div_mult_mod_eq)
  show ?thesis using assms eq
    by (auto simp: bit_set_def occupied_def result_simps div8_less nth_list_update bit_simps)
qed

lemma bit_clear_props:
  assumes "i < 8 * length bm"
  shows "\<exists>bm'. bit_clear bm i = Ok bm' \<and> length bm' = length bm \<and>
    (\<forall>j < 8 * length bm. occupied bm' j \<longleftrightarrow> j \<noteq> i \<and> occupied bm j)"
proof -
  have eq: "j = i" if "j div 8 = i div 8" "j mod 8 = i mod 8" for j
    using that by (metis div_mult_mod_eq)
  show ?thesis using assms eq
    by (auto simp: bit_clear_def occupied_def result_simps div8_less nth_list_update bit_simps)
qed

section \<open>Abstract view and invariant\<close>

text \<open>\<open>R\<close> is the set of frame indices outside the usable regions of the memory map: their
  bits are set before the counter starts, and they are never managed.\<close>

definition free_frames :: "frame_allocator \<Rightarrow> phys_frame set" where
  "free_frames fa =
    set (map (\<lambda>f. f * FRAME_SIZE) (filter (\<lambda>f. \<not> occupied (bitmap fa) f) [0..<num_frames fa]))"

definition managed_frames :: "nat set \<Rightarrow> frame_allocator \<Rightarrow> phys_frame set" where
  "managed_frames R fa =
    set (map (\<lambda>f. f * FRAME_SIZE) (filter (\<lambda>f. f \<notin> R) [0..<num_frames fa]))"

definition counted :: "nat set \<Rightarrow> bytes \<Rightarrow> nat set" where
  "counted R bm = set (filter (\<lambda>f. occupied bm f \<and> f \<notin> R) [0..<8 * length bm])"

definition fa_inv :: "nat set \<Rightarrow> frame_allocator \<Rightarrow> bool" where
  "fa_inv R fa \<longleftrightarrow>
     length (bitmap fa) \<le> BITMAP_SIZE \<and>
     num_frames fa \<le> 8 * length (bitmap fa) \<and>
     next_free fa \<le> num_frames fa \<and>
     (\<forall>f < next_free fa. occupied (bitmap fa) f) \<and>
     (\<forall>f < 8 * length (bitmap fa). f \<in> R \<longrightarrow> occupied (bitmap fa) f) \<and>
     used fa = card (counted R (bitmap fa))"

lemma mem_free_frames:
  "a \<in> free_frames fa \<longleftrightarrow>
    (\<exists>f < num_frames fa. a = f * FRAME_SIZE \<and> \<not> occupied (bitmap fa) f)"
  by (auto simp: free_frames_def)

lemma mem_managed_frames:
  "a \<in> managed_frames R fa \<longleftrightarrow> (\<exists>f < num_frames fa. a = f * FRAME_SIZE \<and> f \<notin> R)"
  by (auto simp: managed_frames_def)

lemma finite_free_frames [simp]: "finite (free_frames fa)"
  by (simp add: free_frames_def)

lemma finite_counted [simp]: "finite (counted R bm)"
  by (simp add: counted_def)

lemma free_subset_managed: "fa_inv R fa \<Longrightarrow> free_frames fa \<subseteq> managed_frames R fa"
  by (auto simp: mem_free_frames mem_managed_frames fa_inv_def)

lemma card_counted_le: "card (counted R bm) \<le> 8 * length bm"
proof -
  have "counted R bm \<subseteq> {..<8 * length bm}" by (auto simp: counted_def)
  then have "card (counted R bm) \<le> card {..<8 * length bm}" by (rule card_mono[rotated]) simp
  then show ?thesis by simp
qed

lemma used_bound: "fa_inv R fa \<Longrightarrow> used fa \<le> 524288"
  using card_counted_le[of R "bitmap fa"] by (simp add: fa_inv_def)

lemma counted_set:
  assumes "length bm' = length bm" "f < 8 * length bm" "f \<notin> R"
    and "\<forall>j < 8 * length bm. occupied bm' j \<longleftrightarrow> j = f \<or> occupied bm j"
  shows "counted R bm' = insert f (counted R bm)"
  using assms by (auto simp: counted_def)

lemma counted_clear:
  assumes "length bm' = length bm"
    and "\<forall>j < 8 * length bm. occupied bm' j \<longleftrightarrow> j \<noteq> f \<and> occupied bm j"
  shows "counted R bm' = counted R bm - {f}"
  using assms by (auto simp: counted_def)

section \<open>Allocation\<close>

lemma find_free_in_props:
  assumes "b \<le> 8 * length bm"
  shows "(find_free_in bm [a..<b] = Ok None \<and> (\<forall>f. a \<le> f \<and> f < b \<longrightarrow> occupied bm f)) \<or>
    (\<exists>f. find_free_in bm [a..<b] = Ok (Some f) \<and> a \<le> f \<and> f < b \<and> \<not> occupied bm f \<and>
       (\<forall>g. a \<le> g \<and> g < f \<longrightarrow> occupied bm g))"
  using assms
proof (induction "b - a" arbitrary: a)
  case 0
  then show ?case by auto
next
  case (Suc n)
  then have ab: "a < b" and n: "n = b - Suc a" by auto
  have step: "find_free_in bm [a..<b] =
      (if occupied bm a then find_free_in bm [Suc a..<b] else Ok (Some a))"
    using Suc.prems ab by (simp add: upt_conv_Cons)
  show ?case
  proof (cases "occupied bm a")
    case True
    show ?thesis using Suc.hyps(1)[OF n Suc.prems]
    proof
      assume "find_free_in bm [Suc a..<b] = Ok None \<and> (\<forall>f. Suc a \<le> f \<and> f < b \<longrightarrow> occupied bm f)"
      then show ?thesis using True step by (metis Suc_leI le_neq_implies_less)
    next
      assume "\<exists>f. find_free_in bm [Suc a..<b] = Ok (Some f) \<and> Suc a \<le> f \<and> f < b \<and>
        \<not> occupied bm f \<and> (\<forall>g. Suc a \<le> g \<and> g < f \<longrightarrow> occupied bm g)"
      then show ?thesis using True step
        by (metis Suc_leI Suc_leD le_neq_implies_less)
    qed
  next
    case False
    then show ?thesis using step ab by auto
  qed
qed

lemma allocate_frame_none:
  assumes "fa_inv R fa" "free_frames fa = {}"
  shows "allocate_frame (fa, m) = Ok (None, fa, m)"
proof -
  have occ: "\<forall>f < num_frames fa. occupied (bitmap fa) f"
    using assms(2) mem_free_frames by blast
  have "find_free_in (bitmap fa) [next_free fa..<num_frames fa] = Ok None"
    using find_free_in_props[of "num_frames fa" "bitmap fa" "next_free fa"] assms(1) occ
    by (auto simp: fa_inv_def)
  then show ?thesis by (simp add: allocate_frame_def find_free_def)
qed

lemma allocate_frame_some:
  assumes inv: "fa_inv R fa" and ne: "free_frames fa \<noteq> {}"
  shows "\<exists>fa'. allocate_frame (fa, m) =
      Ok (Some (Min (free_frames fa)), fa', fill_bytes m (Min (free_frames fa)) 0 FRAME_SIZE) \<and>
    fa_inv R fa' \<and> free_frames fa' = free_frames fa - {Min (free_frames fa)} \<and>
    num_frames fa' = num_frames fa \<and> used fa' = used fa + 1"
proof -
  let ?bm = "bitmap fa" and ?n = "num_frames fa"
  have len: "?n \<le> 8 * length ?bm" using inv by (simp add: fa_inv_def)
  have below: "\<forall>g < next_free fa. occupied ?bm g" using inv by (simp add: fa_inv_def)
  obtain g where g: "g < ?n" "\<not> occupied ?bm g" using ne mem_free_frames by blast
  have "next_free fa \<le> g" using below g by (meson not_le)
  then obtain f where f: "find_free_in ?bm [next_free fa..<?n] = Ok (Some f)"
      "next_free fa \<le> f" "f < ?n" "\<not> occupied ?bm f"
      "\<forall>h. next_free fa \<le> h \<and> h < f \<longrightarrow> occupied ?bm h"
    using find_free_in_props[OF len, of "next_free fa"] g by auto
  have low: "\<forall>h < f. occupied ?bm h" using f(5) below by (meson not_le)
  have min: "Min (free_frames fa) = f * FRAME_SIZE"
  proof (rule Min_eqI)
    show "f * FRAME_SIZE \<in> free_frames fa" using f by (auto simp: mem_free_frames)
    fix y assume "y \<in> free_frames fa"
    then obtain h where "y = h * FRAME_SIZE" "\<not> occupied ?bm h" by (auto simp: mem_free_frames)
    moreover from this have "f \<le> h" using low by (meson not_le)
    ultimately show "f * FRAME_SIZE \<le> y" by simp
  qed simp
  obtain bm' where bm': "bit_set ?bm f = Ok bm'" "length bm' = length ?bm"
      "\<forall>j < 8 * length ?bm. occupied bm' j \<longleftrightarrow> j = f \<or> occupied ?bm j"
    using bit_set_props[of f ?bm] f(3) len by auto
  have nR: "f \<notin> R" using inv f len by (auto simp: fa_inv_def)
  have fresh: "f \<notin> counted R ?bm" using f(4) by (auto simp: counted_def)
  have cnt: "counted R bm' = insert f (counted R ?bm)"
    using counted_set[OF bm'(2) _ nR bm'(3)] f(3) len by simp
  let ?fa = "fa \<lparr> bitmap := bm', next_free := f + 1, used := used fa + 1 \<rparr>"
  have eq: "allocate_frame (fa, m) = Ok (Some (f * FRAME_SIZE), ?fa, fill_bytes m (f * FRAME_SIZE) 0 FRAME_SIZE)"
    using f bm' used_bound[OF inv] by (simp add: allocate_frame_def find_free_def cadd_def)
  have occ': "occupied bm' h \<longleftrightarrow> h = f \<or> occupied ?bm h" if "h < ?n" for h
    using bm'(3) that len by auto
  have "fa_inv R ?fa"
    using inv f(3) low bm' fresh len by (auto simp: fa_inv_def cnt less_Suc_eq occ')
  moreover have "free_frames ?fa = free_frames fa - {f * FRAME_SIZE}"
    by (auto simp: mem_free_frames occ')
  ultimately show ?thesis using eq min by auto
qed

section \<open>Release\<close>

lemma deallocate_frame_managed:
  assumes inv: "fa_inv R fa" and a: "a \<in> managed_frames R fa" "a \<notin> free_frames fa"
  shows "\<exists>fa'. deallocate_frame a fa = Ok fa' \<and> fa_inv R fa' \<and>
    free_frames fa' = insert a (free_frames fa) \<and> num_frames fa' = num_frames fa \<and>
    used fa' + 1 = used fa"
proof -
  let ?bm = "bitmap fa" and ?n = "num_frames fa"
  obtain f where f: "a = f * FRAME_SIZE" "f < ?n" "f \<notin> R"
    using a(1) by (auto simp: mem_managed_frames)
  have occ: "occupied ?bm f" using a(2) f by (auto simp: mem_free_frames)
  have len: "?n \<le> 8 * length ?bm" using inv by (simp add: fa_inv_def)
  then have f8: "f < 8 * length ?bm" using f by simp
  obtain bm' where bm': "bit_clear ?bm f = Ok bm'" "length bm' = length ?bm"
      "\<forall>j < 8 * length ?bm. occupied bm' j \<longleftrightarrow> j \<noteq> f \<and> occupied ?bm j"
    using bit_clear_props[OF f8] by auto
  have cnt: "counted R bm' = counted R ?bm - {f}" by (rule counted_clear[OF bm'(2,3)])
  have fin: "f \<in> counted R ?bm" using occ f f8 by (auto simp: counted_def)
  have usd: "used fa = card (counted R ?bm)" using inv by (simp add: fa_inv_def)
  then have pos: "1 \<le> used fa" using fin by (auto simp: Suc_le_eq card_gt_0_iff)
  have occ': "occupied bm' h \<longleftrightarrow> h \<noteq> f \<and> occupied ?bm h" if "h < ?n" for h
    using bm'(3) that len by auto
  let ?fa = "fa \<lparr> bitmap := bm', used := used fa - 1,
      next_free := (if f < next_free fa then f else next_free fa) \<rparr>"
  have eq: "deallocate_frame a fa = Ok ?fa"
    using f f8 occ bm' pos by (simp add: deallocate_frame_def csub_def)
  have crd: "card (counted R bm') = used fa - 1" using cnt fin usd by (simp add: card_Diff_singleton)
  have "fa_inv R ?fa" using inv f bm' crd f8 len by (auto simp: fa_inv_def occ')
  moreover have "free_frames ?fa = insert a (free_frames fa)"
    using f by (auto simp: mem_free_frames occ')
  ultimately show ?thesis using eq pos by auto
qed

lemma deallocate_frame_free:
  assumes "fa_inv R fa" "a \<in> free_frames fa"
  shows "deallocate_frame a fa = Ok fa"
proof -
  obtain f where "f < num_frames fa" "a = f * FRAME_SIZE" "\<not> occupied (bitmap fa) f"
    using assms(2) by (auto simp: mem_free_frames)
  then show ?thesis using assms(1) by (simp add: deallocate_frame_def fa_inv_def)
qed

section \<open>Construction from the memory map\<close>

lemma mark_frame_used_props:
  assumes inv: "fa_inv R fa" and f: "f < 8 * length (bitmap fa)"
  shows "\<exists>fa'. mark_frame_used f fa = Ok fa' \<and> fa_inv R fa' \<and>
    length (bitmap fa') = length (bitmap fa) \<and> num_frames fa' = num_frames fa \<and>
    (\<forall>j < 8 * length (bitmap fa). occupied (bitmap fa') j \<longleftrightarrow> j = f \<or> occupied (bitmap fa) j)"
proof (cases "occupied (bitmap fa) f")
  case True
  then show ?thesis using assms by (auto simp: mark_frame_used_def)
next
  case False
  let ?bm = "bitmap fa"
  obtain bm' where bm': "bit_set ?bm f = Ok bm'" "length bm' = length ?bm"
      "\<forall>j < 8 * length ?bm. occupied bm' j \<longleftrightarrow> j = f \<or> occupied ?bm j"
    using bit_set_props[OF f] by auto
  have nR: "f \<notin> R" using inv f False by (auto simp: fa_inv_def)
  have "counted R bm' = insert f (counted R ?bm)" by (rule counted_set[OF bm'(2) f nR bm'(3)])
  moreover have "f \<notin> counted R ?bm" using False by (auto simp: counted_def)
  ultimately have "fa_inv R (fa \<lparr> bitmap := bm', used := used fa + 1 \<rparr>)"
    using inv bm' by (auto simp: fa_inv_def)
  then show ?thesis using False f bm' used_bound[OF inv] by (simp add: mark_frame_used_def cadd_def)
qed

lemma mark_frames_used_props:
  assumes "fa_inv R fa" "set fs \<subseteq> {..<8 * length (bitmap fa)}"
  shows "\<exists>fa'. rfold mark_frame_used fs fa = Ok fa' \<and> fa_inv R fa' \<and>
    length (bitmap fa') = length (bitmap fa) \<and> num_frames fa' = num_frames fa \<and>
    (\<forall>j < 8 * length (bitmap fa). occupied (bitmap fa') j \<longleftrightarrow> j \<in> set fs \<or> occupied (bitmap fa) j)"
  using assms
proof (induction fs arbitrary: fa)
  case (Cons f fs)
  obtain fa1 where fa1: "mark_frame_used f fa = Ok fa1" "fa_inv R fa1"
      "length (bitmap fa1) = length (bitmap fa)" "num_frames fa1 = num_frames fa"
      "\<forall>j < 8 * length (bitmap fa). occupied (bitmap fa1) j \<longleftrightarrow> j = f \<or> occupied (bitmap fa) j"
    using mark_frame_used_props[OF Cons.prems(1), of f] Cons.prems(2) by auto
  then obtain fa2 where "rfold mark_frame_used fs fa1 = Ok fa2" "fa_inv R fa2"
      "length (bitmap fa2) = length (bitmap fa1)" "num_frames fa2 = num_frames fa1"
      "\<forall>j < 8 * length (bitmap fa1). occupied (bitmap fa2) j \<longleftrightarrow> j \<in> set fs \<or> occupied (bitmap fa1) j"
    using Cons.IH[of fa1] Cons.prems(2) by auto
  then show ?case using fa1 by auto
qed simp

text \<open>\<open>reserved_range a b\<close>: every frame that meets the bytes \<open>[a, b)\<close> is occupied.
  \<open>grows\<close> relates an allocator to a later one of the construction, which releases
  nothing.\<close>

definition reserved_range :: "nat \<Rightarrow> nat \<Rightarrow> frame_allocator \<Rightarrow> bool" where
  "reserved_range a b fa \<longleftrightarrow>
     (\<forall>f < 8 * length (bitmap fa). f * FRAME_SIZE < b \<and> a < f * FRAME_SIZE + FRAME_SIZE
        \<longrightarrow> occupied (bitmap fa) f)"

definition grows :: "nat set \<Rightarrow> frame_allocator \<Rightarrow> frame_allocator \<Rightarrow> bool" where
  "grows R fa fa' \<longleftrightarrow> fa_inv R fa' \<and> length (bitmap fa') = length (bitmap fa) \<and>
     num_frames fa' = num_frames fa \<and>
     (\<forall>j < 8 * length (bitmap fa). occupied (bitmap fa) j \<longrightarrow> occupied (bitmap fa') j)"

lemma grows_refl: "fa_inv R fa \<Longrightarrow> grows R fa fa"
  by (simp add: grows_def)

lemma grows_trans: "grows R fa fb \<Longrightarrow> grows R fb fc \<Longrightarrow> grows R fa fc"
  by (simp add: grows_def)

lemma grows_reserved: "grows R fa fb \<Longrightarrow> reserved_range a b fa \<Longrightarrow> reserved_range a b fb"
  by (simp add: grows_def reserved_range_def)

lemma reserved_range_join:
  assumes "reserved_range a b fa" "reserved_range b c fa"
  shows "reserved_range a c fa"
  unfolding reserved_range_def
proof (intro allI impI, elim conjE)
  fix f assume f: "f < 8 * length (bitmap fa)" "f * FRAME_SIZE < c" "a < f * FRAME_SIZE + FRAME_SIZE"
  show "occupied (bitmap fa) f"
    using assms f by (cases "f * FRAME_SIZE < b") (auto simp: reserved_range_def)
qed

lemma grows_free: "grows R fa fb \<Longrightarrow> fa_inv R fa \<Longrightarrow> free_frames fb \<subseteq> free_frames fa"
  by (auto simp: grows_def mem_free_frames fa_inv_def)

lemma mark_range_used_props:
  assumes inv: "fa_inv R fa" and len: "length (bitmap fa) = BITMAP_SIZE" and b: "b + FRAME_SIZE < 2 ^ 64"
  shows "\<exists>fa'. mark_range_used a b fa = Ok fa' \<and> grows R fa fa' \<and> reserved_range a b fa'"
proof -
  let ?e = "align_down FRAME_SIZE (b + FRAME_SIZE - 1) div FRAME_SIZE"
  let ?fs = "[a div FRAME_SIZE..<min ?e BITMAP_BITS]"
  have sub: "set ?fs \<subseteq> {..<8 * length (bitmap fa)}" using len by auto
  obtain fa' where fa': "rfold mark_frame_used ?fs fa = Ok fa'" "fa_inv R fa'"
      "length (bitmap fa') = length (bitmap fa)" "num_frames fa' = num_frames fa"
      "\<forall>j < 8 * length (bitmap fa). occupied (bitmap fa') j \<longleftrightarrow> j \<in> set ?fs \<or> occupied (bitmap fa) j"
    using mark_frames_used_props[OF inv sub] by blast
  have "f \<in> set ?fs" if "f < 8 * length (bitmap fa)" "f * FRAME_SIZE < b" "a < f * FRAME_SIZE + FRAME_SIZE" for f
    using that len by (auto simp: align_down_def)
  then have "reserved_range a b fa'" using fa' by (auto simp: reserved_range_def)
  moreover have "mark_range_used a b fa = Ok fa'"
    using fa'(1) b by (simp add: mark_range_used_def align_up_def cadd_def)
  ultimately show ?thesis using fa' by (auto simp: grows_def)
qed

text \<open>The release phase: a cleared bit lies below the frame count and inside a usable area.\<close>

definition frame_in_area :: "memory_area \<Rightarrow> nat \<Rightarrow> bool" where
  "frame_in_area a f \<longleftrightarrow> is_usable a \<and> base_addr a \<le> f * FRAME_SIZE \<and>
     f * FRAME_SIZE + FRAME_SIZE \<le> base_addr a + area_len a"

definition released :: "memory_area list \<Rightarrow> bytes \<times> nat \<Rightarrow> bool" where
  "released areas s \<longleftrightarrow> length (fst s) = BITMAP_SIZE \<and> snd s \<le> BITMAP_BITS \<and>
     (\<forall>f < BITMAP_BITS. \<not> occupied (fst s) f \<longrightarrow> f < snd s \<and> (\<exists>a \<in> set areas. frame_in_area a f))"

lemma release_frame_props:
  assumes s: "released areas s" and f: "f < BITMAP_BITS" "\<exists>a \<in> set areas. frame_in_area a f"
  shows "\<exists>t. release_frame f s = Ok t \<and> released areas t"
proof -
  have "f < 8 * length (fst s)" using s f by (simp add: released_def)
  then obtain bm' where bm': "bit_clear (fst s) f = Ok bm'" "length bm' = length (fst s)"
      "\<forall>j < 8 * length (fst s). occupied bm' j \<longleftrightarrow> j \<noteq> f \<and> occupied (fst s) j"
    using bit_clear_props by blast
  then have "released areas (bm', max (snd s) (f + 1))"
    using s f by (auto simp: released_def max_def less_Suc_eq)
  then show ?thesis using bm' by (simp add: release_frame_def)
qed

definition area_fits :: "memory_area \<Rightarrow> bool" where
  "area_fits a \<longleftrightarrow> base_addr a + area_len a + FRAME_SIZE < 2 ^ 64"

lemma release_area_props:
  assumes s: "released areas s" and a: "a \<in> set areas" "area_fits a"
  shows "\<exists>t. release_area a s = Ok t \<and> released areas t"
proof -
  let ?first = "align_down FRAME_SIZE (base_addr a + FRAME_SIZE - 1) div FRAME_SIZE"
  let ?last = "min (align_down FRAME_SIZE (base_addr a + area_len a) div FRAME_SIZE) BITMAP_BITS"
  have inside: "frame_in_area a f" if "f \<in> set [?first..<?last]" "is_usable a" for f
  proof -
    have "(base_addr a + FRAME_SIZE - 1) div FRAME_SIZE \<le> f" "f < (base_addr a + area_len a) div FRAME_SIZE"
      using that by (auto simp: align_down_def)
    then show ?thesis using that(2) unfolding frame_in_area_def by auto
  qed
  have step: "\<exists>v. release_frame f u = Ok v \<and> released areas v"
    if "f \<in> set [?first..<?last]" "released areas u" "is_usable a" for f u
    using release_frame_props[OF that(2), of f] inside[OF that(1,3)] that(1) a(1) by auto
  show ?thesis
  proof (cases "is_usable a")
    case True
    have "\<exists>t. rfold release_frame [?first..<?last] s = Ok t \<and> released areas t"
      using s step True by (intro rfold_total) auto
    then show ?thesis using True a s
      by (auto simp: release_area_def align_up_def end_addr_def cadd_def area_fits_def Let_def)
  qed (use s in \<open>simp add: release_area_def\<close>)
qed

lemma length_full_bitmap: "length full_bitmap = BITMAP_SIZE"
  by (simp only: full_bitmap_def length_replicate)

lemma occupied_full_bitmap:
  assumes "f < BITMAP_BITS"
  shows "occupied full_bitmap f"
proof -
  have "(0xFF :: u8) = - 1" by simp
  then have "bit (0xFF :: u8) (f mod 8)" by (simp only: bit_minus_1_iff) simp
  moreover have "full_bitmap ! (f div 8) = 0xFF"
    unfolding full_bitmap_def by (rule nth_replicate) (use assms in auto)
  ultimately show ?thesis by (simp only: occupied_def)
qed

lemma release_phase:
  assumes "\<forall>a \<in> set areas. area_fits a"
  shows "\<exists>s. rfold release_area areas (full_bitmap, 0) = Ok s \<and> released areas s"
proof (rule rfold_total)
  show "released areas (full_bitmap, 0)"
    by (simp add: released_def length_full_bitmap occupied_full_bitmap)
qed (use release_area_props assms in blast)

definition module_fits :: "boot_module \<Rightarrow> bool" where
  "module_fits md \<longleftrightarrow> mod_start md + mod_len md + FRAME_SIZE < 2 ^ 64"

lemma mark_modules_used:
  assumes "\<forall>md \<in> set mods. module_fits md" "fa_inv R fa" "length (bitmap fa) = BITMAP_SIZE"
  shows "\<exists>fa'. rfold mark_module_used mods fa = Ok fa' \<and> grows R fa fa' \<and>
    (\<forall>md \<in> set mods. reserved_range (mod_start md) (mod_start md + mod_len md) fa')"
  using assms
proof (induction mods arbitrary: fa)
  case Nil
  then show ?case by (simp add: grows_refl)
next
  case (Cons md mods)
  obtain fb where fb: "mark_module_used md fa = Ok fb" "grows R fa fb"
      "reserved_range (mod_start md) (mod_start md + mod_len md) fb"
    using mark_range_used_props[OF Cons.prems(2,3), of "mod_start md + mod_len md" "mod_start md"] Cons.prems(1)
    by (auto simp: mark_module_used_def module_fits_def)
  then obtain fc where fc: "rfold mark_module_used mods fb = Ok fc" "grows R fb fc"
      "\<forall>md \<in> set mods. reserved_range (mod_start md) (mod_start md + mod_len md) fc"
    using Cons.IH[of fb] Cons.prems by (auto simp: grows_def)
  then show ?case using fb by (auto intro: grows_trans dest: grows_reserved)
qed

lemma initial_inv:
  assumes "released areas s"
  defines "fa \<equiv> \<lparr> bitmap = fst s, num_frames = snd s, next_free = 0, used = 0 \<rparr>"
  shows "fa_inv {f. occupied (fst s) f} fa" and "length (bitmap fa) = BITMAP_SIZE"
    and "a \<in> free_frames fa \<Longrightarrow> \<exists>ar \<in> set areas. frame_in_area ar (a div FRAME_SIZE)"
proof -
  have "counted {f. occupied (fst s) f} (fst s) = {}" by (auto simp: counted_def)
  then show "fa_inv {f. occupied (fst s) f} fa"
    using assms(1) by (simp add: fa_inv_def fa_def released_def)
  show "length (bitmap fa) = BITMAP_SIZE" using assms(1) by (simp add: fa_def released_def)
  show "a \<in> free_frames fa \<Longrightarrow> \<exists>ar \<in> set areas. frame_in_area ar (a div FRAME_SIZE)"
    using assms(1) by (force simp: mem_free_frames fa_def released_def)
qed

lemma new_with_props:
  assumes areas: "\<forall>a \<in> set areas. area_fits a" and mods: "\<forall>md \<in> set mods. module_fits md"
  shows "\<exists>fa R. new_with areas mods = Ok fa \<and> fa_inv R fa \<and>
    reserved_range 0 (BITMAP_ADDR + BITMAP_SIZE) fa \<and>
    reserved_range HEAP_START (HEAP_START + HEAP_SIZE) fa \<and>
    (\<forall>md \<in> set mods. reserved_range (mod_start md) (mod_start md + mod_len md) fa) \<and>
    (\<forall>a \<in> free_frames fa. \<exists>ar \<in> set areas. frame_in_area ar (a div FRAME_SIZE))"
proof -
  obtain s where s: "rfold release_area areas (full_bitmap, 0) = Ok s" "released areas s"
    using release_phase[OF areas] by blast
  let ?R = "{f. occupied (fst s) f}"
  let ?f0 = "\<lparr> bitmap = fst s, num_frames = snd s, next_free = 0, used = 0 \<rparr>"
  note i0 = initial_inv[OF s(2)]
  obtain f1 where f1: "mark_range_used 0 BITMAP_ADDR ?f0 = Ok f1" "grows ?R ?f0 f1" "reserved_range 0 BITMAP_ADDR f1"
    using mark_range_used_props[OF i0(1,2), of BITMAP_ADDR 0] by auto
  obtain f2 where f2: "mark_range_used BITMAP_ADDR (BITMAP_ADDR + BITMAP_SIZE) f1 = Ok f2" "grows ?R f1 f2"
      "reserved_range BITMAP_ADDR (BITMAP_ADDR + BITMAP_SIZE) f2"
    using mark_range_used_props[of ?R f1 "BITMAP_ADDR + BITMAP_SIZE" BITMAP_ADDR] f1(2) i0(2)
    by (auto simp: grows_def)
  obtain f3 where f3: "mark_range_used HEAP_START (HEAP_START + HEAP_SIZE) f2 = Ok f3" "grows ?R f2 f3"
      "reserved_range HEAP_START (HEAP_START + HEAP_SIZE) f3"
    using mark_range_used_props[of ?R f2 "HEAP_START + HEAP_SIZE" HEAP_START] f1(2) f2(2) i0(2)
    by (auto simp: grows_def)
  obtain f4 where f4: "mark_range_used 0 0 f3 = Ok f4" "grows ?R f3 f4"
    using mark_range_used_props[of ?R f3 0 0] f1(2) f2(2) f3(2) i0(2) by (auto simp: grows_def)
  obtain f5 where f5: "rfold mark_module_used mods f4 = Ok f5" "grows ?R f4 f5"
      "\<forall>md \<in> set mods. reserved_range (mod_start md) (mod_start md + mod_len md) f5"
    using mark_modules_used[OF mods, of ?R f4] f1(2) f2(2) f3(2) f4(2) i0(2) by (auto simp: grows_def)
  have g: "grows ?R f1 f5" "grows ?R f2 f5" "grows ?R f3 f5" "grows ?R ?f0 f5"
    using f1(2) f2(2) f3(2) f4(2) f5(2) by (blast intro: grows_trans)+
  have "reserved_range 0 (BITMAP_ADDR + BITMAP_SIZE) f5"
    by (rule reserved_range_join[OF grows_reserved[OF g(1) f1(3)] grows_reserved[OF g(2) f2(3)]])
  moreover have "reserved_range HEAP_START (HEAP_START + HEAP_SIZE) f5" by (rule grows_reserved[OF g(3) f3(3)])
  moreover have "\<forall>a \<in> free_frames f5. \<exists>ar \<in> set areas. frame_in_area ar (a div FRAME_SIZE)"
    using grows_free[OF g(4) i0(1)] i0(3) by blast
  moreover have "new_with areas mods = Ok f5"
    using s(1) f1(1) f2(1) f3(1) f4(1) f5(1) by (simp add: new_with_def)
  moreover have "fa_inv ?R f5" using g(1) by (simp add: grows_def)
  ultimately show ?thesis using f5(3) by blast
qed

end
