(* ===== verification/Frame_Refcount.thy ===== *)
theory Frame_Refcount
  imports Prelude
begin

text \<open>
  Reference counts of physical frames, \<open>kernel/src/memory/frame_refcount.rs\<close>: a dense
  vector of bytes indexed by frame number, grown on demand.  The lemmas give each
  operation as an update of the abstract counter function \<open>rc_get\<close>: counts saturate
  at 255 and never fall below 0.
\<close>

type_synonym frame_refcount = bytes

definition frame_index :: "nat \<Rightarrow> nat" where
  "frame_index frame = drop_bit 12 frame"

definition rc_new :: frame_refcount where
  "rc_new = []"

definition ensure_index :: "nat \<Rightarrow> frame_refcount \<Rightarrow> frame_refcount" where
  "ensure_index idx counts =
    (if length counts \<le> idx then counts @ replicate (idx + 1 - length counts) 0 else counts)"

definition rc_set :: "nat \<Rightarrow> u8 \<Rightarrow> frame_refcount \<Rightarrow> frame_refcount" where
  "rc_set frame n counts =
    (let idx = frame_index frame in (ensure_index idx counts)[idx := n])"

definition rc_inc :: "nat \<Rightarrow> frame_refcount \<Rightarrow> u8 \<times> frame_refcount" where
  "rc_inc frame counts =
    (let idx = frame_index frame; c = ensure_index idx counts;
         c' = (if c ! idx < 255 then c[idx := c ! idx + 1] else c) in
     (c' ! idx, c'))"

definition rc_dec :: "nat \<Rightarrow> frame_refcount \<Rightarrow> u8 \<times> frame_refcount" where
  "rc_dec frame counts =
    (let idx = frame_index frame in
     if length counts \<le> idx then (0, counts)
     else let c' = (if 0 < counts ! idx then counts[idx := counts ! idx - 1] else counts) in
          (c' ! idx, c'))"

definition rc_get :: "nat \<Rightarrow> frame_refcount \<Rightarrow> u8" where
  "rc_get frame counts =
    (let idx = frame_index frame in if idx < length counts then counts ! idx else 0)"

section \<open>Counters\<close>

lemma frame_index_eq: "frame_index a = a div 4096"
  by (simp add: frame_index_def drop_bit_eq_div)

lemma frame_index_inj:
  "4096 dvd a \<Longrightarrow> 4096 dvd b \<Longrightarrow> frame_index a = frame_index b \<longleftrightarrow> a = b"
  by (auto simp: frame_index_eq)

lemma ensure_index_length: "idx < length (ensure_index idx counts)"
  by (simp add: ensure_index_def)

lemma ensure_index_nth:
  "i < length (ensure_index idx counts) \<Longrightarrow>
    ensure_index idx counts ! i = (if i < length counts then counts ! i else 0)"
  by (auto simp: ensure_index_def nth_append)

lemma length_ensure_index: "length (ensure_index idx counts) = max (length counts) (idx + 1)"
  by (simp add: ensure_index_def)

lemma rc_get_ensure: "rc_get a (ensure_index idx counts) = rc_get a counts"
  by (auto simp: rc_get_def Let_def ensure_index_nth) (auto simp: length_ensure_index)

lemma rc_get_update:
  "idx < length counts \<Longrightarrow>
    rc_get b (counts[idx := v]) = (if frame_index b = idx then v else rc_get b counts)"
  by (auto simp: rc_get_def Let_def)

lemma rc_get_set:
  "rc_get b (rc_set a n counts) = (if frame_index b = frame_index a then n else rc_get b counts)"
  by (simp add: rc_set_def Let_def rc_get_update ensure_index_length rc_get_ensure)

lemma u8_sat_inc: "unat (c + 1 :: u8) = min 255 (unat c + 1)" if "c < 255"
proof -
  have "unat c < 255" using that by (simp add: word_less_nat_alt)
  then show ?thesis by (simp add: unat_word_ariths)
qed

lemma u8_not_less_255: "\<not> c < (255 :: u8) \<Longrightarrow> unat c = 255"
  using unat_less[of c] by (simp add: word_less_nat_alt)

lemma rc_get_inc:
  "unat (rc_get b (snd (rc_inc a counts))) =
    (if frame_index b = frame_index a then min 255 (unat (rc_get a counts) + 1)
     else unat (rc_get b counts))"
proof -
  let ?idx = "frame_index a"
  let ?c = "ensure_index ?idx counts"
  have cur: "?c ! ?idx = rc_get a counts"
    using rc_get_ensure[of a ?idx counts] ensure_index_length[of ?idx counts]
    by (simp add: rc_get_def Let_def)
  have "rc_get b ?c = rc_get a counts" if "frame_index b = ?idx"
    using that ensure_index_length[of ?idx counts] cur by (simp add: rc_get_def)
  then show ?thesis
    by (auto simp: rc_inc_def Let_def rc_get_update ensure_index_length rc_get_ensure cur
        u8_sat_inc u8_not_less_255)
qed

lemma rc_dec_result: "fst (rc_dec a counts) = rc_get a (snd (rc_dec a counts))"
  by (auto simp: rc_dec_def rc_get_def Let_def)

lemma rc_inc_result: "fst (rc_inc a counts) = rc_get a (snd (rc_inc a counts))"
  using ensure_index_length[of "frame_index a" counts] by (auto simp: rc_inc_def rc_get_def Let_def)

lemma u8_dec: "unat (c - 1 :: u8) = unat c - 1" if "0 < c"
proof -
  have "1 \<le> c" using that by (simp add: word_le_nat_alt word_less_nat_alt)
  then show ?thesis by (simp add: unat_sub)
qed

lemma rc_get_dec:
  "unat (rc_get b (snd (rc_dec a counts))) =
    (if frame_index b = frame_index a then unat (rc_get a counts) - 1 else unat (rc_get b counts))"
proof (cases "length counts \<le> frame_index a")
  case True
  then show ?thesis by (auto simp: rc_dec_def rc_get_def Let_def)
next
  case False
  moreover have "unat (counts ! frame_index a) = 0" if "\<not> 0 < counts ! frame_index a"
    using that by (simp add: word_less_nat_alt)
  ultimately show ?thesis
    by (auto simp: rc_dec_def Let_def rc_get_update u8_dec) (auto simp: rc_get_def)
qed

end
