(* ===== verification/Frame_Pool.thy ===== *)
theory Frame_Pool
  imports Prelude
begin

text \<open>
  The contract between the memory manager and the code that takes frames from it
  (page tables, address spaces, shared memory): a state with an invariant, the set
  \<open>avail\<close> of the frames that can be handed out, the set \<open>managed\<close> of the frames that may be
  given back, and two operations.  The allocation loop of the shared memory regions, with
  its rollback, is proved once against the contract.
\<close>

section \<open>Taking several frames, with rollback\<close>

text \<open>The loop of \<open>sys_shm_create\<close>: on a failed allocation the frames already taken are given
  back in the order they were taken.\<close>

primrec alloc_or_rollback :: "('s, nat) op \<Rightarrow> (nat \<Rightarrow> ('s, unit) op) \<Rightarrow> nat \<Rightarrow> nat list
    \<Rightarrow> ('s, nat list option) op" where
  "alloc_or_rollback alloc release 0 frames = sret (Some frames)"
| "alloc_or_rollback alloc release (Suc n) frames =
     sbind (stry (alloc)) (\<lambda>r.
       case r of
         Ok a \<Rightarrow> alloc_or_rollback alloc release n (frames @ [a])
       | _ \<Rightarrow> sbind (sfor release frames) (\<lambda>_. sret None))"

section \<open>The contract\<close>

locale frame_pool =
  fixes inv :: "'s \<Rightarrow> bool"
    and avail :: "'s \<Rightarrow> nat set"
    and managed :: "'s \<Rightarrow> nat set"
    and alloc :: "('s, nat) op"
    and release :: "nat \<Rightarrow> ('s, unit) op"
  assumes finite_avail: "finite (avail s)"
    and avail_managed: "inv s \<Longrightarrow> avail s \<subseteq> managed s"
    and alloc_empty: "inv s \<Longrightarrow> avail s = {} \<Longrightarrow> \<exists>e. alloc s = (Err e, s)"
    and alloc_some: "inv s \<Longrightarrow> avail s \<noteq> {} \<Longrightarrow>
      \<exists>a s'. alloc s = (Ok a, s') \<and> a \<in> avail s \<and> inv s' \<and>
        avail s' = avail s - {a} \<and> managed s' = managed s"
    and release_managed: "inv s \<Longrightarrow> a \<in> managed s \<Longrightarrow>
      \<exists>s'. release a s = (Ok (), s') \<and> inv s' \<and> avail s' = insert a (avail s) \<and>
        managed s' = managed s"
begin

lemma release_all:
  assumes "inv s" "set frames \<subseteq> managed s"
  shows "\<exists>s'. sfor release frames s = (Ok (), s') \<and> inv s' \<and>
    avail s' = avail s \<union> set frames \<and> managed s' = managed s"
  using assms
proof (induction frames arbitrary: s)
  case Nil
  then show ?case by (simp add: sret_def)
next
  case (Cons a frames)
  obtain s1 where s1: "release a s = (Ok (), s1)" "inv s1" "avail s1 = insert a (avail s)"
      "managed s1 = managed s"
    using release_managed[of s a] Cons.prems by auto
  then show ?case using Cons.IH[of s1] Cons.prems by (auto simp: sbind_Ok)
qed

lemma alloc_or_rollback_enough:
  assumes "inv s" "n \<le> card (avail s)"
  shows "\<exists>fs s'. alloc_or_rollback alloc release n frames s = (Ok (Some (frames @ fs)), s') \<and>
    length fs = n \<and> distinct fs \<and> set fs \<subseteq> avail s \<and>
    inv s' \<and> avail s' = avail s - set fs \<and> managed s' = managed s"
  using assms
proof (induction n arbitrary: s frames)
  case 0
  then show ?case by (simp add: sret_def)
next
  case (Suc n)
  have "avail s \<noteq> {}" using Suc.prems by auto
  then obtain a s1 where a: "alloc s = (Ok a, s1)" "a \<in> avail s" "inv s1"
      "avail s1 = avail s - {a}" "managed s1 = managed s"
    using alloc_some Suc.prems(1) by blast
  have "n \<le> card (avail s1)" using Suc.prems(2) a finite_avail[of s] by simp
  then obtain fs s' where fs: "alloc_or_rollback alloc release n (frames @ [a]) s1 =
      (Ok (Some ((frames @ [a]) @ fs)), s')" "length fs = n" "distinct fs" "set fs \<subseteq> avail s1"
      "inv s'" "avail s' = avail s1 - set fs" "managed s' = managed s1"
    using Suc.IH[OF a(3)] by blast
  have "alloc_or_rollback alloc release (Suc n) frames s = (Ok (Some (frames @ (a # fs))), s')"
    using a(1) fs(1) by (simp add: sbind_def stry_def)
  moreover have "avail s' = avail s - set (a # fs)" "set (a # fs) \<subseteq> avail s" "distinct (a # fs)"
    using fs a by auto
  ultimately show ?case using fs a by (metis length_Cons)
qed

lemma alloc_or_rollback_short:
  assumes "inv s" "card (avail s) < n" "set frames \<subseteq> managed s"
  shows "\<exists>s'. alloc_or_rollback alloc release n frames s = (Ok None, s') \<and>
    inv s' \<and> avail s' = avail s \<union> set frames \<and> managed s' = managed s"
  using assms
proof (induction n arbitrary: s frames)
  case (Suc n)
  show ?case
  proof (cases "avail s = {}")
    case True
    obtain e where "alloc s = (Err e, s)" using alloc_empty[OF Suc.prems(1) True] by blast
    then show ?thesis using release_all[OF Suc.prems(1,3)]
      by (auto simp: sbind_def stry_def sret_def)
  next
    case False
    then obtain a s1 where a: "alloc s = (Ok a, s1)" "a \<in> avail s" "inv s1"
        "avail s1 = avail s - {a}" "managed s1 = managed s"
      using alloc_some Suc.prems(1) by blast
    have "card (avail s1) < n" using Suc.prems(2) a finite_avail[of s] card_gt_0_iff[of "avail s"] by auto
    moreover have "set (frames @ [a]) \<subseteq> managed s1" using Suc.prems a avail_managed[of s] by auto
    ultimately obtain s' where "alloc_or_rollback alloc release n (frames @ [a]) s1 = (Ok None, s')"
        "inv s'" "avail s' = avail s1 \<union> set (frames @ [a])" "managed s' = managed s1"
      using Suc.IH[OF a(3)] by blast
    moreover have "avail s1 \<union> set (frames @ [a]) = avail s \<union> set frames" using a by auto
    ultimately show ?thesis using a by (simp add: sbind_def stry_def)
  qed
qed simp

end

end
