(* ===== verification/Paging.thy ===== *)
theory Paging
  imports Frame_Allocator Frame_Refcount Frame_Pool
begin

text \<open>
  Virtual memory primitives, \<open>kernel/src/memory/paging.rs\<close>.

  The page-table code itself belongs to the \<open>x86_64\<close> crate.  It is the
  parameter \<open>x86_ops\<close> of the operations that use it: the mapper operations on the
  page table whose root is a given frame, the fields of a table entry, and the range checks of \<open>VirtAddr::new\<close> and
  \<open>PhysAddr::new\<close>.  What
  a theorem needs of it is a named hypothesis (\<open>mapper_frames_ok\<close>: creating a mapping takes
  frames from the allocator and gives none back).

  \<open>kmem\<close> collects the memory-related statics of the kernel: physical memory, the frame
  allocator, the reference counts, CR3 and the root of the kernel mapper.  The lemmas
  establish the frame pool contract for \<open>alloc_frame\<close>, \<open>alloc_zeroed_frame\<close> and \<open>free_frame\<close>.
\<close>

section \<open>Page table flags\<close>

type_synonym pflags = u64

abbreviation PRESENT :: pflags where "PRESENT \<equiv> 1"
abbreviation WRITABLE :: pflags where "WRITABLE \<equiv> 2"
abbreviation USER_ACCESSIBLE :: pflags where "USER_ACCESSIBLE \<equiv> 4"
abbreviation WRITE_THROUGH :: pflags where "WRITE_THROUGH \<equiv> 8"
abbreviation NO_CACHE :: pflags where "NO_CACHE \<equiv> 16"
abbreviation COW_MARKER :: pflags where "COW_MARKER \<equiv> 512"

definition KERNEL_RW :: pflags where "KERNEL_RW = PRESENT OR WRITABLE"
definition USER_RW :: pflags where "USER_RW = PRESENT OR WRITABLE OR USER_ACCESSIBLE"
definition USER_RX :: pflags where "USER_RX = PRESENT OR USER_ACCESSIBLE"

definition flags_contain :: "pflags \<Rightarrow> pflags \<Rightarrow> bool" where
  "flags_contain f g \<longleftrightarrow> f AND g = g"

definition flags_minus :: "pflags \<Rightarrow> pflags \<Rightarrow> pflags" where
  "flags_minus f g = f AND NOT g"

section \<open>The page-table code of the crate, and the memory statics\<close>

datatype map_result = MapOk | PageAlreadyMapped | MapFailed

record x86_ops =
  virt_ok :: "nat \<Rightarrow> bool"
  phys_ok :: "nat \<Rightarrow> bool"
  mp_map_to :: "phys_frame \<Rightarrow> nat \<Rightarrow> phys_frame \<Rightarrow> pflags \<Rightarrow> frame_allocator \<times> mem
      \<Rightarrow> map_result \<times> frame_allocator \<times> mem"
  mp_unmap :: "phys_frame \<Rightarrow> nat \<Rightarrow> mem \<Rightarrow> phys_frame option \<times> mem"
  mp_update_flags :: "phys_frame \<Rightarrow> nat \<Rightarrow> pflags \<Rightarrow> mem \<Rightarrow> bool \<times> mem"
  mp_translate :: "phys_frame \<Rightarrow> nat \<Rightarrow> mem \<Rightarrow> (phys_frame \<times> pflags) option"
  mp_translate_addr :: "phys_frame \<Rightarrow> nat \<Rightarrow> mem \<Rightarrow> nat option"
  pte_flags :: "u64 \<Rightarrow> pflags"
  pte_addr :: "u64 \<Rightarrow> nat"
  pte_new :: "nat \<Rightarrow> pflags \<Rightarrow> u64"

record kmem =
  pm :: mem
  falloc :: "frame_allocator option"
  refc :: frame_refcount
  cr3 :: phys_frame
  kmapper :: "phys_frame option"

definition virt_new :: "x86_ops \<Rightarrow> nat \<Rightarrow> nat result" where
  "virt_new X a = (if virt_ok X a then Ok a else Panic)"

definition phys_new :: "x86_ops \<Rightarrow> nat \<Rightarrow> nat result" where
  "phys_new X a = (if phys_ok X a then Ok a else Panic)"

definition paging_init :: "kmem \<Rightarrow> kmem" where
  "paging_init s = s \<lparr> kmapper := Some (cr3 s) \<rparr>"

definition alloc_frame :: "(kmem, phys_frame) op" where
  "alloc_frame s = (case falloc s of
      None \<Rightarrow> (Err ''frame alloc non init'', s)
    | Some fa \<Rightarrow>
        (case allocate_frame (fa, pm s) of
           Ok (None, fa', m) \<Rightarrow> (Err ''plus de frames libres'', s \<lparr> falloc := Some fa', pm := m \<rparr>)
         | Ok (Some a, fa', m) \<Rightarrow> (Ok a, s \<lparr> falloc := Some fa', pm := m \<rparr>)
         | Err e \<Rightarrow> (Err e, s)
         | Panic \<Rightarrow> (Panic, s)))"

definition free_frame :: "phys_frame \<Rightarrow> (kmem, unit) op" where
  "free_frame a s = (case falloc s of
      None \<Rightarrow> (Ok (), s)
    | Some fa \<Rightarrow>
        (case deallocate_frame a fa of
           Ok fa' \<Rightarrow> (Ok (), s \<lparr> falloc := Some fa' \<rparr>)
         | Err e \<Rightarrow> (Err e, s)
         | Panic \<Rightarrow> (Panic, s)))"

definition alloc_zeroed_frame :: "(kmem, phys_frame) op" where
  "alloc_zeroed_frame = sbind alloc_frame (\<lambda>a.
     sbind (supd (\<lambda>s. s \<lparr> pm := fill_bytes (pm s) a 0 4096 \<rparr>)) (\<lambda>_. sret a))"

definition kernel_map_to :: "x86_ops \<Rightarrow> nat \<Rightarrow> phys_frame \<Rightarrow> pflags \<Rightarrow> (kmem, unit) op" where
  "kernel_map_to X page frame flags s = (case kmapper s of
      None \<Rightarrow> (Err ''paging non initialise'', s)
    | Some p4 \<Rightarrow> (case falloc s of
        None \<Rightarrow> (Err ''frame alloc non initialise'', s)
      | Some fa \<Rightarrow>
          (let (r, fa', m) = mp_map_to X p4 page frame flags (fa, pm s);
               s' = s \<lparr> falloc := Some fa', pm := m \<rparr> in
           if r = MapOk then (Ok (), s') else (Err ''map_to failed'', s'))))"

definition alloc_and_map :: "x86_ops \<Rightarrow> nat \<Rightarrow> pflags \<Rightarrow> (kmem, unit) op" where
  "alloc_and_map X page flags = sbind alloc_frame (\<lambda>a. kernel_map_to X page a flags)"

definition kernel_translate :: "x86_ops \<Rightarrow> nat \<Rightarrow> kmem \<Rightarrow> nat option" where
  "kernel_translate X addr s = (case kmapper s of
      None \<Rightarrow> None | Some p4 \<Rightarrow> mp_translate_addr X p4 addr (pm s))"

definition map_mmio_page :: "x86_ops \<Rightarrow> phys_frame \<Rightarrow> nat \<Rightarrow> (kmem, unit) op" where
  "map_mmio_page X p4 cur s = (case rbind (phys_new X cur) (virt_new X) of
      Ok page \<Rightarrow> (case falloc s of
          None \<Rightarrow> (Err ''frame alloc non init'', s)
        | Some fa \<Rightarrow>
            (let (r, fa', m) = mp_map_to X p4 page cur
                   (PRESENT OR WRITABLE OR NO_CACHE OR WRITE_THROUGH) (fa, pm s);
                 s' = s \<lparr> falloc := Some fa', pm := m \<rparr> in
             case r of MapOk \<Rightarrow> (Ok (), s') | PageAlreadyMapped \<Rightarrow> (Ok (), s')
             | MapFailed \<Rightarrow> (Err ''map_mmio: map_to a echoue'', s')))
    | Err e \<Rightarrow> (Err e, s) | Panic \<Rightarrow> (Panic, s))"

definition map_mmio :: "x86_ops \<Rightarrow> nat \<Rightarrow> nat \<Rightarrow> (kmem, nat) op" where
  "map_mmio X phys sz =
    sbind (slift (rbind (cadd 64 phys sz) (\<lambda>e. cadd 64 e 0xfff))) (\<lambda>e.
    let start = align_down 4096 phys; fin = align_down 4096 e in
    sbind (sget kmapper) (\<lambda>mp. sbind (slift (ok_or ''paging non initialise'' mp)) (\<lambda>p4.
    sbind (sget falloc) (\<lambda>fa. sbind (slift (ok_or ''frame alloc non init'' fa)) (\<lambda>_.
    sbind (sfor (map_mmio_page X p4)
             (map (\<lambda>i. start + i * 4096) [0..<(fin - start) div 4096])) (\<lambda>_.
    sret phys))))))"

definition switch_cr3 :: "phys_frame \<Rightarrow> kmem \<Rightarrow> kmem" where
  "switch_cr3 frame s = s \<lparr> cr3 := frame \<rparr>"

section \<open>The frame pool contract\<close>

definition kmem_inv :: "nat set \<Rightarrow> kmem \<Rightarrow> bool" where
  "kmem_inv R s \<longleftrightarrow> (case falloc s of None \<Rightarrow> False | Some fa \<Rightarrow> fa_inv R fa)"

definition kfree :: "kmem \<Rightarrow> phys_frame set" where
  "kfree s = (case falloc s of None \<Rightarrow> {} | Some fa \<Rightarrow> free_frames fa)"

definition kmanaged :: "nat set \<Rightarrow> kmem \<Rightarrow> phys_frame set" where
  "kmanaged R s = (case falloc s of None \<Rightarrow> {} | Some fa \<Rightarrow> managed_frames R fa)"

definition mapper_frames_ok :: "x86_ops \<Rightarrow> nat set \<Rightarrow> bool" where
  "mapper_frames_ok X R \<longleftrightarrow> (\<forall>p4 page frame flags fa m.
     fa_inv R fa \<longrightarrow> (case mp_map_to X p4 page frame flags (fa, m) of (_, fa', _) \<Rightarrow>
       fa_inv R fa' \<and> free_frames fa' \<subseteq> free_frames fa \<and> num_frames fa' = num_frames fa))"

lemma kmem_invE:
  assumes "kmem_inv R s"
  obtains fa where "falloc s = Some fa" "fa_inv R fa"
  using assms by (auto simp: kmem_inv_def split: option.splits)

lemma managed_frames_cong: "num_frames fa = num_frames fb \<Longrightarrow> managed_frames R fa = managed_frames R fb"
  by (simp add: managed_frames_def)

lemma kfree_aligned: "a \<in> kfree s \<Longrightarrow> 4096 dvd a"
  by (auto simp: kfree_def mem_free_frames split: option.splits)

lemma alloc_frame_empty:
  assumes "kmem_inv R s" "kfree s = {}"
  shows "alloc_frame s = (Err ''plus de frames libres'', s)"
proof -
  obtain fa where fa: "falloc s = Some fa" "fa_inv R fa" using assms(1) by (rule kmem_invE)
  then show ?thesis using allocate_frame_none[OF fa(2)] assms(2)
    by (simp add: alloc_frame_def kfree_def)
qed

lemma alloc_frame_some:
  assumes "kmem_inv R s" "kfree s \<noteq> {}"
  shows "\<exists>s'. alloc_frame s = (Ok (Min (kfree s)), s') \<and> kmem_inv R s' \<and>
    kfree s' = kfree s - {Min (kfree s)} \<and> kmanaged R s' = kmanaged R s \<and>
    pm s' = fill_bytes (pm s) (Min (kfree s)) 0 4096 \<and> refc s' = refc s \<and> cr3 s' = cr3 s"
proof -
  obtain fa where fa: "falloc s = Some fa" "fa_inv R fa" using assms(1) by (rule kmem_invE)
  have ne: "free_frames fa \<noteq> {}" using assms(2) fa by (simp add: kfree_def)
  obtain fa' where "allocate_frame (fa, pm s) = Ok (Some (Min (free_frames fa)), fa',
        fill_bytes (pm s) (Min (free_frames fa)) 0 FRAME_SIZE)"
      "fa_inv R fa'" "free_frames fa' = free_frames fa - {Min (free_frames fa)}"
      "num_frames fa' = num_frames fa"
    using allocate_frame_some[OF fa(2) ne] by blast
  then show ?thesis using fa
    by (simp add: alloc_frame_def kfree_def kmem_inv_def kmanaged_def managed_frames_def)
qed

lemma free_frame_managed:
  assumes "kmem_inv R s" "a \<in> kmanaged R s"
  shows "\<exists>s'. free_frame a s = (Ok (), s') \<and> kmem_inv R s' \<and> kfree s' = insert a (kfree s) \<and>
    kmanaged R s' = kmanaged R s \<and> pm s' = pm s \<and> refc s' = refc s \<and> cr3 s' = cr3 s"
proof -
  obtain fa where fa: "falloc s = Some fa" "fa_inv R fa" using assms(1) by (rule kmem_invE)
  have a: "a \<in> managed_frames R fa" using assms(2) fa by (simp add: kmanaged_def)
  show ?thesis
  proof (cases "a \<in> free_frames fa")
    case True
    then have "insert a (free_frames fa) = free_frames fa" by auto
    then show ?thesis using deallocate_frame_free[OF fa(2) True] fa assms(1)
      by (simp add: free_frame_def kfree_def kmanaged_def kmem_inv_def)
  next
    case False
    then show ?thesis using deallocate_frame_managed[OF fa(2) a] fa
      by (auto simp: free_frame_def kfree_def kmem_inv_def kmanaged_def managed_frames_def)
  qed
qed

lemma alloc_zeroed_frame_empty:
  assumes "kmem_inv R s" "kfree s = {}"
  shows "alloc_zeroed_frame s = (Err ''plus de frames libres'', s)"
  using alloc_frame_empty[OF assms] by (simp add: alloc_zeroed_frame_def sbind_Err)

lemma alloc_zeroed_frame_some:
  assumes "kmem_inv R s" "kfree s \<noteq> {}"
  shows "\<exists>s'. alloc_zeroed_frame s = (Ok (Min (kfree s)), s') \<and> kmem_inv R s' \<and>
    kfree s' = kfree s - {Min (kfree s)} \<and> kmanaged R s' = kmanaged R s \<and>
    pm s' = fill_bytes (pm s) (Min (kfree s)) 0 4096 \<and> refc s' = refc s \<and> cr3 s' = cr3 s"
proof -
  have idem: "fill_bytes (fill_bytes m a 0 n) a 0 n = fill_bytes m a 0 n" for m a n
    by (auto simp: fill_bytes_def fun_eq_iff)
  obtain s' where "alloc_frame s = (Ok (Min (kfree s)), s')" "kmem_inv R s'"
      "kfree s' = kfree s - {Min (kfree s)}" "kmanaged R s' = kmanaged R s"
      "pm s' = fill_bytes (pm s) (Min (kfree s)) 0 4096" "refc s' = refc s" "cr3 s' = cr3 s"
    using alloc_frame_some[OF assms] by blast
  then show ?thesis
    by (simp add: alloc_zeroed_frame_def sbind_def supd_def sret_def idem kmem_inv_def kfree_def
        kmanaged_def)
qed

lemma finite_kfree [simp]: "finite (kfree s)"
  by (simp add: kfree_def split: option.splits)

lemma kfree_managed: "kmem_inv R s \<Longrightarrow> kfree s \<subseteq> kmanaged R s"
  using free_subset_managed by (fastforce simp: kmem_inv_def kfree_def kmanaged_def split: option.splits)

interpretation zp: frame_pool "kmem_inv R" kfree "kmanaged R" alloc_zeroed_frame free_frame for R
proof (unfold_locales, goal_cases)
  case (1 s)
  show ?case by simp
next
  case (2 s)
  then show ?case by (rule kfree_managed)
next
  case (3 s)
  then show ?case using alloc_zeroed_frame_empty by blast
next
  case (4 s)
  then show ?case using alloc_zeroed_frame_some[OF 4] Min_in[of "kfree s"] by fastforce
next
  case (5 s a)
  then show ?case using free_frame_managed[OF 5] by blast
qed

end
