(* ===== verification/BTree_Map.thy ===== *)
theory BTree_Map
  imports Main "HOL-Library.Multiset"
begin

text \<open>
  Ordered maps, \<open>alloc::collections::BTreeMap\<close>, as the kernel uses them: a list of
  key-value pairs with strictly increasing keys, so that iteration visits the keys in
  order.  Lookup is \<^const>\<open>map_of\<close>.  The laws of insertion and removal do not need the
  ordering; the laws on the sequence of values do.

  The contract of a keyed store is the locale \<open>keyed_store\<close>; it is interpreted on the
  ordered map, and the file system of the kernel is interpreted on it in \<open>Ramfs\<close>.
\<close>

section \<open>Operations\<close>

type_synonym ('k, 'v) btree_map = "('k \<times> 'v) list"

abbreviation bt_get :: "('k, 'v) btree_map \<Rightarrow> 'k \<Rightarrow> 'v option" where
  "bt_get \<equiv> map_of"

fun bt_insert :: "'k :: linorder \<Rightarrow> 'v \<Rightarrow> ('k, 'v) btree_map \<Rightarrow> ('k, 'v) btree_map" where
  "bt_insert k v [] = [(k, v)]"
| "bt_insert k v ((k', v') # xs) =
    (if k < k' then (k, v) # (k', v') # xs
     else if k = k' then (k, v) # xs
     else (k', v') # bt_insert k v xs)"

definition bt_remove :: "'k \<Rightarrow> ('k, 'v) btree_map \<Rightarrow> ('k, 'v) btree_map" where
  "bt_remove k xs = filter (\<lambda>p. fst p \<noteq> k) xs"

definition bt_ok :: "('k :: linorder, 'v) btree_map \<Rightarrow> bool" where
  "bt_ok xs \<longleftrightarrow> sorted_wrt (<) (map fst xs)"

abbreviation bt_values :: "('k, 'v) btree_map \<Rightarrow> 'v list" where
  "bt_values xs \<equiv> map snd xs"

section \<open>Laws\<close>

lemma bt_get_insert [simp]: "map_of (bt_insert k v xs) = (map_of xs)(k \<mapsto> v)"
  by (induction k v xs rule: bt_insert.induct) (auto simp: fun_eq_iff)

lemma bt_get_remove [simp]: "map_of (bt_remove k xs) = (map_of xs)(k := None)"
  by (induction xs) (auto simp: bt_remove_def fun_eq_iff)

lemma set_bt_insert: "set (bt_insert k v xs) \<subseteq> insert (k, v) (set xs)"
  by (induction k v xs rule: bt_insert.induct) auto

lemma keys_bt_insert [simp]: "fst ` set (bt_insert k v xs) = insert k (fst ` set xs)"
  by (induction k v xs rule: bt_insert.induct) auto

lemma set_bt_remove [simp]: "set (bt_remove k xs) = {p \<in> set xs. fst p \<noteq> k}"
  by (auto simp: bt_remove_def)

lemma bt_ok_Nil [simp]: "bt_ok []"
  by (simp add: bt_ok_def)

lemma bt_ok_Cons: "bt_ok ((k, v) # xs) \<longleftrightarrow> (\<forall>p \<in> set xs. k < fst p) \<and> bt_ok xs"
  by (auto simp: bt_ok_def)

lemma bt_ok_insert [simp]: "bt_ok xs \<Longrightarrow> bt_ok (bt_insert k v xs)"
proof (induction k v xs rule: bt_insert.induct)
  case (2 k v k' v' xs)
  have "\<forall>p \<in> set (bt_insert k v xs). k' < fst p" if "k' < k"
    using set_bt_insert[of k v xs] 2(2) that by (auto simp: bt_ok_Cons)
  then show ?case using 2 by (auto simp: bt_ok_Cons)
qed (simp add: bt_ok_Cons)

lemma bt_ok_remove [simp]: "bt_ok xs \<Longrightarrow> bt_ok (bt_remove k xs)"
  by (induction xs) (auto simp: bt_remove_def bt_ok_Cons)

lemma bt_ok_distinct: "bt_ok xs \<Longrightarrow> distinct (map fst xs)"
  by (simp add: bt_ok_def strict_sorted_iff)

lemma bt_get_mem: "bt_ok xs \<Longrightarrow> map_of xs k = Some v \<longleftrightarrow> (k, v) \<in> set xs"
  using bt_ok_distinct by (metis map_of_SomeD map_of_is_SomeI)

lemma bt_ok_ext:
  assumes "bt_ok xs" "bt_ok ys" "map_of xs = map_of ys"
  shows "xs = ys"
proof -
  have eq: "set xs = set ys"
    using assms bt_get_mem by (metis (no_types, opaque_lifting) subrelI subset_antisym)
  then have keys: "map fst xs = map fst ys"
    using assms(1,2) sorted_distinct_set_unique[of "map fst xs" "map fst ys"]
    by (simp add: bt_ok_def strict_sorted_iff)
  have "inj_on fst (set xs)" using bt_ok_distinct[OF assms(1)] by (simp add: distinct_map)
  then show ?thesis using keys eq by (metis inj_on_map_eq_map Un_absorb)
qed

section \<open>Occurrences of values\<close>

lemma count_bt_insert_new:
  "map_of xs k = None \<Longrightarrow>
    count_list (bt_values (bt_insert k v xs)) x = count_list (bt_values xs) x + (if x = v then 1 else 0)"
  by (induction k v xs rule: bt_insert.induct) (auto split: if_splits)

lemma count_bt_insert_replace:
  "bt_ok xs \<Longrightarrow> map_of xs k = Some w \<Longrightarrow>
    count_list (bt_values (bt_insert k v xs)) x + (if x = w then 1 else 0)
      = count_list (bt_values xs) x + (if x = v then 1 else 0)"
proof (induction k v xs rule: bt_insert.induct)
  case (2 k v k' v' xs)
  have "k \<notin> fst ` set xs" if "k < k'"
    using 2(2) that by (fastforce simp: bt_ok_Cons)
  then have "\<not> k < k'" using 2(3) map_of_eq_None_iff[of xs k] by (auto split: if_splits)
  then show ?case using 2 by (auto simp: bt_ok_Cons split: if_splits)
qed simp

lemma mset_bt_insert_new:
  "map_of xs k = None \<Longrightarrow> mset (bt_values (bt_insert k v xs)) = mset (v # bt_values xs)"
  by (induction k v xs rule: bt_insert.induct) (auto split: if_splits)

lemma bt_insert_map_same:
  "bt_ok xs \<Longrightarrow> map_of xs k = Some w \<Longrightarrow> f v = f w \<Longrightarrow> map f (bt_values (bt_insert k v xs)) = map f (bt_values xs)"
proof (induction k v xs rule: bt_insert.induct)
  case (2 k v k' v' xs)
  have "k \<notin> fst ` set xs" if "k < k'" using 2(2) that by (fastforce simp: bt_ok_Cons)
  then have "\<not> k < k'" using 2(3) map_of_eq_None_iff[of xs k] by (auto split: if_splits)
  then show ?case using 2 by (auto simp: bt_ok_Cons split: if_splits)
qed simp

lemma mset_bt_remove:
  "bt_ok xs \<Longrightarrow> map_of xs k = Some w \<Longrightarrow> mset (bt_values xs) = add_mset w (mset (bt_values (bt_remove k xs)))"
proof (induction xs)
  case (Cons e xs)
  obtain k' v where e: "e = (k', v)" by (cases e)
  show ?case
  proof (cases "k = k'")
    case True
    then have "bt_remove k (e # xs) = xs"
      using Cons.prems(1) e by (auto simp: bt_remove_def bt_ok_Cons intro!: filter_True)
    then show ?thesis using Cons.prems(2) e True by simp
  next
    case False
    then have "bt_remove k (e # xs) = e # bt_remove k xs" using e by (simp add: bt_remove_def)
    then show ?thesis using Cons False e by (simp add: bt_ok_Cons)
  qed
qed simp

lemma distinct_bt_insert_new:
  assumes "map_of xs k = None" "distinct (bt_values xs)" "v \<notin> set (bt_values xs)"
  shows "distinct (bt_values (bt_insert k v xs))"
proof -
  have "distinct (v # bt_values xs)" using assms(2,3) by simp
  then show ?thesis using mset_eq_imp_distinct_iff[OF mset_bt_insert_new[OF assms(1)]] by blast
qed

section \<open>Keyed stores\<close>

locale keyed_store =
  fixes lookup :: "'s \<Rightarrow> 'k \<Rightarrow> 'v option"
    and update :: "'k \<Rightarrow> 'v \<Rightarrow> 's \<Rightarrow> 's"
    and delete :: "'k \<Rightarrow> 's \<Rightarrow> 's"
    and keys :: "'s \<Rightarrow> 'k list"
    and inv :: "'s \<Rightarrow> bool"
  assumes lookup_update: "lookup (update k v s) = (lookup s)(k \<mapsto> v)"
    and lookup_delete: "lookup (delete k s) = (lookup s)(k := None)"
    and keys_lookup: "set (keys s) = {k. lookup s k \<noteq> None}"
    and inv_update: "inv s \<Longrightarrow> inv (update k v s)"
    and inv_delete: "inv s \<Longrightarrow> inv (delete k s)"
    and keys_distinct: "inv s \<Longrightarrow> distinct (keys s)"
begin

lemma lookup_fold_update:
  "lookup (fold (\<lambda>p. update (fst p) (snd p)) ps s) k =
    (case map_of (rev ps) k of Some v \<Rightarrow> Some v | None \<Rightarrow> lookup s k)"
proof (induction ps arbitrary: s)
  case (Cons p ps)
  have "map_of (rev (p # ps)) k =
      (case map_of (rev ps) k of None \<Rightarrow> (if k = fst p then Some (snd p) else None) | Some v \<Rightarrow> Some v)"
    by (cases p) (auto simp: map_add_def split: option.splits)
  then show ?case using Cons[of "update (fst p) (snd p) s"]
    by (auto simp: lookup_update split: option.splits)
qed simp

lemma inv_fold_update: "inv s \<Longrightarrow> inv (fold (\<lambda>p. update (fst p) (snd p)) ps s)"
  by (induction ps arbitrary: s) (auto simp: inv_update)

lemma update_delete_absent: "lookup (delete k (update k v s)) = (lookup s)(k := None)"
  by (simp add: lookup_update lookup_delete)

end

interpretation btree: keyed_store map_of bt_insert bt_remove "map fst" bt_ok
proof (unfold_locales, goal_cases)
  case (3 s)
  have "map_of s k \<noteq> None \<longleftrightarrow> k \<in> fst ` set s" for k
    using map_of_eq_None_iff[of s k] by simp
  then show ?case by (auto simp: image_iff)
qed (simp_all add: bt_ok_distinct)

text \<open>Inserting the entries of an ordered map into an empty one rebuilds it.\<close>

lemma bt_rebuild:
  assumes "bt_ok xs"
  shows "fold (\<lambda>e. bt_insert (fst e) (snd e)) xs [] = xs"
proof (rule bt_ok_ext)
  show "bt_ok (fold (\<lambda>e. bt_insert (fst e) (snd e)) xs [])" by (rule btree.inv_fold_update) simp
  have "map_of (rev xs) = map_of xs"
    using bt_ok_distinct[OF assms] map_of_inject_set[of "rev xs" xs]
    by (simp add: rev_map[symmetric])
  then show "map_of (fold (\<lambda>e. bt_insert (fst e) (snd e)) xs []) = map_of xs"
    by (auto simp: fun_eq_iff btree.lookup_fold_update split: option.splits)
qed (rule assms)

end
