(* ===== verification/Address_Space.thy ===== *)
theory Address_Space
  imports Paging BTree_Map
begin

text \<open>
  Address spaces of user processes, \<open>kernel/src/memory/address_space.rs\<close>.

  An address space is its root table and the map from page addresses to frames that the
  kernel keeps beside the page tables.  Operations that take \<open>&mut self\<close> run on the pair of
  the address space and the memory statics.

  The central invariant \<open>frames_inv\<close> ties the reference counts to the live address spaces:
  the count of a frame is the number of pages, over all the live address spaces, that map
  it; no mapped frame is free.  It is preserved by mapping, by the copy-on-write clone and
  by destruction, and destruction frees exactly the frames nobody else maps.
\<close>

section \<open>State and operations\<close>

record address_space =
  p4 :: phys_frame
  mapped_pages :: "(nat, phys_frame) btree_map"

type_synonym as_st = "address_space \<times> kmem"

definition on_mem :: "(kmem, 'a) op \<Rightarrow> (as_st, 'a) op" where
  "on_mem m s = (case m (snd s) of (r, k) \<Rightarrow> (r, (fst s, k)))"

definition table_entry :: "mem \<Rightarrow> phys_frame \<Rightarrow> nat \<Rightarrow> u64" where
  "table_entry m t i = of_nat (read_u64 m (t + 8 * i))"

text \<open>The two table copies shared by \<open>new_user\<close> and \<open>clone_cow\<close>: the low P3 is copied entry by
  entry, the other P4 entries are copied as they are.\<close>

definition init_tables :: "x86_ops \<Rightarrow> phys_frame \<Rightarrow> phys_frame \<Rightarrow> phys_frame \<Rightarrow> mem \<Rightarrow> mem" where
  "init_tables X src dst p3 m =
    (let e0 = table_entry m src 0;
         m1 = (if flags_contain (pte_flags X e0) PRESENT
               then write_bytes m p3 (read_bytes m (pte_addr X e0) 4096) else m);
         m2 = write_bytes m1 dst (le_bytes 8 (unat (pte_new X p3 (PRESENT OR WRITABLE OR USER_ACCESSIBLE))))
     in write_bytes m2 (dst + 8) (read_bytes m2 (src + 8) (511 * 8)))"

definition new_user :: "x86_ops \<Rightarrow> (kmem, address_space) op" where
  "new_user X =
    sbind alloc_zeroed_frame (\<lambda>p4_frame.
    sbind alloc_zeroed_frame (\<lambda>new_p3.
    sbind (supd (\<lambda>k. k \<lparr> pm := init_tables X (cr3 k) p4_frame new_p3 (pm k) \<rparr>)) (\<lambda>_.
    sret \<lparr> p4 = p4_frame, mapped_pages = [] \<rparr>)))"

definition activate :: "address_space \<Rightarrow> kmem \<Rightarrow> kmem" where
  "activate a k = switch_cr3 (p4 a) k"

definition replace_mapping :: "nat \<Rightarrow> phys_frame \<Rightarrow> address_space \<Rightarrow> address_space" where
  "replace_mapping vaddr frame a =
    a \<lparr> mapped_pages := bt_insert (align_down 4096 vaddr) frame (mapped_pages a) \<rparr>"

definition as_map_to :: "x86_ops \<Rightarrow> nat \<Rightarrow> phys_frame \<Rightarrow> pflags \<Rightarrow> (as_st, unit) op" where
  "as_map_to X page frame flags s =
    (let a = fst s; k = snd s in
     case falloc k of
       None \<Rightarrow> (Err ''frame alloc non init'', s)
     | Some fa \<Rightarrow>
         (let (r, fa', m) = mp_map_to X (p4 a) page frame flags (fa, pm k);
              k' = k \<lparr> falloc := Some fa', pm := m \<rparr> in
          case r of
            MapOk \<Rightarrow> (Ok (), (a \<lparr> mapped_pages := bt_insert page frame (mapped_pages a) \<rparr>, k'))
          | PageAlreadyMapped \<Rightarrow> (Err ''page deja mappee'', (a, k'))
          | MapFailed \<Rightarrow> (Err ''map_to failed'', (a, k'))))"

definition map_alloc :: "x86_ops \<Rightarrow> nat \<Rightarrow> pflags \<Rightarrow> (as_st, phys_frame) op" where
  "map_alloc X page flags =
    sbind (on_mem alloc_zeroed_frame) (\<lambda>frame.
    sbind (on_mem (supd (\<lambda>k. k \<lparr> refc := rc_set frame 1 (refc k) \<rparr>))) (\<lambda>_.
    sbind (as_map_to X page frame flags) (\<lambda>_. sret frame)))"

definition frame_of_page :: "x86_ops \<Rightarrow> nat \<Rightarrow> pflags \<Rightarrow> (as_st, phys_frame) op" where
  "frame_of_page X page flags s =
    (case bt_get (mapped_pages (fst s)) page of
       Some f \<Rightarrow> (Ok f, s) | None \<Rightarrow> map_alloc X page flags s)"

function write_data :: "x86_ops \<Rightarrow> pflags \<Rightarrow> nat \<Rightarrow> bytes \<Rightarrow> (as_st, unit) op" where
  "write_data X flags cur data =
    (if data = [] then sret ()
     else let page = align_down 4096 cur; off = cur - page;
              n = min (4096 - off) (length data) in
       sbind (frame_of_page X page flags) (\<lambda>frame.
       sbind (on_mem (supd (\<lambda>k. k \<lparr> pm := write_bytes (pm k) (frame + off) (take n data) \<rparr>))) (\<lambda>_.
       sbind (slift (rbind (cadd 64 cur n) (virt_new X))) (\<lambda>cur'.
       write_data X flags cur' (drop n data)))))"
  by pat_completeness auto
termination
proof (relation "measure (\<lambda>(X, flags, cur, data). length data)", goal_cases)
  case (2 X flags cur data page off n frame u cur')
  have "off < 4096" using 2 align_down_gt[of 4096 cur] align_down_le[of 4096 cur] by simp
  then show ?case using 2 by simp
qed simp

declare write_data.simps [simp del]

definition ensure_page :: "x86_ops \<Rightarrow> pflags \<Rightarrow> nat \<Rightarrow> (as_st, unit) op" where
  "ensure_page X flags cur =
    sbind (slift (virt_new X cur)) (\<lambda>page. \<lambda>s.
      if bt_get (mapped_pages (fst s)) cur \<noteq> None then (Ok (), s)
      else sbind (map_alloc X page flags) (\<lambda>_. sret ()) s)"

definition pages_between :: "nat \<Rightarrow> nat \<Rightarrow> nat list" where
  "pages_between start fin = map (\<lambda>i. start + i * 4096) [0..<(fin - start) div 4096]"

definition ensure_mapped :: "x86_ops \<Rightarrow> nat \<Rightarrow> nat \<Rightarrow> pflags \<Rightarrow> (as_st, unit) op" where
  "ensure_mapped X vaddr len flags =
    sbind (slift (rbind (cadd 64 vaddr len) (\<lambda>e. cadd 64 e 4095))) (\<lambda>e.
    sfor (ensure_page X flags) (pages_between (align_down 4096 vaddr) (align_down 4096 e)))"

definition as_translate :: "x86_ops \<Rightarrow> address_space \<Rightarrow> nat \<Rightarrow> kmem \<Rightarrow> nat option" where
  "as_translate X a addr k = mp_translate_addr X (p4 a) addr (pm k)"

definition unmap_va :: "x86_ops \<Rightarrow> nat \<Rightarrow> (as_st, unit) op" where
  "unmap_va X vaddr =
    (let va = align_down 4096 vaddr in
     sbind (slift (virt_new X va)) (\<lambda>page. \<lambda>s.
       (case mp_unmap X (p4 (fst s)) page (pm (snd s)) of
          (Some _, m) \<Rightarrow>
            (Ok (), ((fst s) \<lparr> mapped_pages := bt_remove va (mapped_pages (fst s)) \<rparr>,
                     (snd s) \<lparr> pm := m \<rparr>))
        | (None, m) \<Rightarrow> (Err ''unmap_va: page non mappee'', (fst s, (snd s) \<lparr> pm := m \<rparr>)))))"

section \<open>Copy-on-write clone and destruction\<close>

definition downgrade_page :: "x86_ops \<Rightarrow> phys_frame \<Rightarrow> nat \<times> phys_frame \<Rightarrow> (kmem, unit) op" where
  "downgrade_page X root vf =
    sbind (slift (virt_new X (fst vf))) (\<lambda>page. \<lambda>k.
      (case mp_translate X root page (pm k) of
         None \<Rightarrow> (Ok (), k)
       | Some (_, flags) \<Rightarrow>
           if flags_contain flags USER_ACCESSIBLE \<and> flags_contain flags WRITABLE then
             (Ok (), k \<lparr> pm := snd (mp_update_flags X root page
                (flags_minus flags WRITABLE OR COW_MARKER) (pm k)) \<rparr>)
           else (Ok (), k)))"

definition page_flags_or_rx :: "x86_ops \<Rightarrow> phys_frame \<Rightarrow> mem \<Rightarrow> nat \<Rightarrow> pflags" where
  "page_flags_or_rx X root m v =
    (case mp_translate X root v m of Some (_, flags) \<Rightarrow> flags | None \<Rightarrow> USER_RX)"

definition share_page :: "x86_ops \<Rightarrow> phys_frame \<Rightarrow> (nat \<times> phys_frame) \<times> pflags \<Rightarrow> (kmem, unit) op" where
  "share_page X root e k =
    (case e of ((vaddr, frame), flags) \<Rightarrow>
      (case falloc k of
         None \<Rightarrow> (Err ''frame alloc non init'', k)
       | Some fa \<Rightarrow>
           (let (_, fa', m) = mp_map_to X root vaddr frame flags (fa, pm k) in
            (Ok (), k \<lparr> falloc := Some fa', pm := m, refc := snd (rc_inc frame (refc k)) \<rparr>))))"

definition clone_cow :: "x86_ops \<Rightarrow> address_space \<Rightarrow> (kmem, address_space) op" where
  "clone_cow X a =
    sbind alloc_zeroed_frame (\<lambda>new_p4.
    sbind alloc_zeroed_frame (\<lambda>new_p3.
    sbind (supd (\<lambda>k. k \<lparr> pm := init_tables X (p4 a) new_p4 new_p3 (pm k) \<rparr>)) (\<lambda>_.
    sbind (sfor (downgrade_page X (p4 a)) (mapped_pages a)) (\<lambda>_.
    sbind (sget (\<lambda>k. map (\<lambda>vf. (vf, page_flags_or_rx X (p4 a) (pm k) (fst vf))) (mapped_pages a)))
      (\<lambda>entries.
    sbind (sget falloc) (\<lambda>fa. sbind (slift (ok_or ''frame alloc non init'' fa)) (\<lambda>_.
    sbind (sfor (share_page X new_p4) entries) (\<lambda>_.
    sret \<lparr> p4 = new_p4,
           mapped_pages = fold (\<lambda>e. bt_insert (fst e) (snd e)) (mapped_pages a) [] \<rparr>))))))))"

definition drop_frame :: "phys_frame \<Rightarrow> (kmem, unit) op" where
  "drop_frame frame =
    sbind (\<lambda>k. (Ok (fst (rc_dec frame (refc k))), k \<lparr> refc := snd (rc_dec frame (refc k)) \<rparr>))
      (\<lambda>remaining. if remaining = 0 then free_frame frame else sret ())"

definition destroy :: "(as_st, unit) op" where
  "destroy s =
    sbind (on_mem (sfor drop_frame (bt_values (mapped_pages (fst s))))) (\<lambda>_.
    sbind (on_mem (free_frame (p4 (fst s)))) (\<lambda>_.
    supd (\<lambda>t. ((fst t) \<lparr> mapped_pages := [] \<rparr>, snd t)))) s"

definition drop_address_space :: "(as_st, unit) op" where
  "drop_address_space s = (if mapped_pages (fst s) \<noteq> [] then destroy s else (Ok (), s))"

section \<open>References to frames\<close>

text \<open>\<open>refs_inv R fs k\<close>: \<open>fs\<close> lists every reference to a data frame, with repetitions; each
  referenced frame is managed, not free, and its count is its number of references.\<close>

definition refs_inv :: "nat set \<Rightarrow> phys_frame list \<Rightarrow> kmem \<Rightarrow> bool" where
  "refs_inv R fs k \<longleftrightarrow> kmem_inv R k \<and> set fs \<subseteq> kmanaged R k - kfree k \<and>
     (\<forall>f \<in> set fs. unat (rc_get f (refc k)) = count_list fs f)"

lemma kmanaged_aligned: "a \<in> kmanaged R s \<Longrightarrow> 4096 dvd a"
  by (auto simp: kmanaged_def mem_managed_frames split: option.splits)

lemma refs_inv_cong:
  assumes "set fs = set gs" "\<And>f. count_list fs f = count_list gs f"
  shows "refs_inv R fs k = refs_inv R gs k"
  using assms by (auto simp: refs_inv_def)

lemma refs_inv_mono:
  assumes "refs_inv R fs k" "kmem_inv R k'" "kfree k' \<subseteq> kfree k" "kmanaged R k' = kmanaged R k"
    "refc k' = refc k"
  shows "refs_inv R fs k'"
  using assms by (auto simp: refs_inv_def)

lemma refs_inv_index:
  assumes "refs_inv R fs k" "f \<in> kmanaged R k" "g \<in> set fs"
  shows "frame_index g = frame_index f \<longleftrightarrow> g = f"
proof -
  have "g \<in> kmanaged R k" using assms(1,3) by (auto simp: refs_inv_def)
  then show ?thesis using assms(2) frame_index_inj[of g f] by (simp add: kmanaged_aligned)
qed

lemma refs_inv_new:
  assumes inv: "refs_inv R fs k" and f: "f \<in> kfree k"
    and k': "kmem_inv R k'" "kfree k' \<subseteq> kfree k - {f}" "kmanaged R k' = kmanaged R k"
      "refc k' = rc_set f 1 (refc k)"
  shows "refs_inv R (f # fs) k'" and "refs_inv R fs k'"
proof -
  have kinv: "kmem_inv R k" using inv by (simp add: refs_inv_def)
  have fm: "f \<in> kmanaged R k" using f kfree_managed[OF kinv] by auto
  have new: "f \<notin> set fs" using inv f by (auto simp: refs_inv_def)
  have old: "unat (rc_get g (refc k')) = count_list fs g" if "g \<in> set fs" for g
    using inv that new refs_inv_index[OF inv fm that] by (auto simp: refs_inv_def k' rc_get_set)
  show "refs_inv R (f # fs) k'"
    using inv k' fm old new by (auto simp: refs_inv_def rc_get_set count_notin)
  show "refs_inv R fs k'" using inv k' old by (auto simp: refs_inv_def)
qed

section \<open>Dropping references\<close>

lemma drop_frame_props:
  assumes inv: "refs_inv R (g # fs) k"
  shows "\<exists>k'. drop_frame g k = (Ok (), k') \<and> refs_inv R fs k' \<and> kmanaged R k' = kmanaged R k \<and>
    kfree k' = kfree k \<union> ({g} - set fs) \<and> pm k' = pm k \<and> cr3 k' = cr3 k"
proof -
  let ?k1 = "k \<lparr> refc := snd (rc_dec g (refc k)) \<rparr>"
  have kinv: "kmem_inv R k" using inv by (simp add: refs_inv_def)
  have gm: "g \<in> kmanaged R k" using inv by (simp add: refs_inv_def)
  have g1: "unat (rc_get g (refc k)) = Suc (count_list fs g)" using inv by (simp add: refs_inv_def)
  have left: "unat (fst (rc_dec g (refc k))) = count_list fs g"
    using rc_get_dec[of g g "refc k"] g1 by (simp add: rc_dec_result)
  have k1: "kmem_inv R ?k1" "kfree ?k1 = kfree k" "kmanaged R ?k1 = kmanaged R k"
    using kinv by (simp_all add: kmem_inv_def kfree_def kmanaged_def)
  have gm1: "g \<in> kmanaged R ?k1" using gm k1(3) by (simp only:)
  have counts: "unat (rc_get f (refc ?k1)) = count_list fs f" if "f \<in> set fs" for f
    using inv that g1 rc_get_dec[of f g "refc k"] refs_inv_index[OF inv gm, of f]
    by (cases "f = g") (auto simp: refs_inv_def)
  have inv1: "refs_inv R fs ?k1" using inv k1 counts by (auto simp: refs_inv_def)
  show ?thesis
  proof (cases "g \<in> set fs")
    case True
    then have "count_list fs g \<noteq> 0" by (simp add: count_list_0_iff)
    then have "fst (rc_dec g (refc k)) \<noteq> 0" using left by auto
    then have "drop_frame g k = (Ok (), ?k1)" by (simp add: drop_frame_def sbind_def sret_def)
    moreover have "kfree ?k1 = kfree k \<union> ({g} - set fs)" using k1(2) True by auto
    ultimately show ?thesis using inv1 k1(3)
      by (intro exI[of _ ?k1] conjI) simp_all
  next
    case False
    then have "unat (fst (rc_dec g (refc k))) = 0" using left by (simp add: count_list_0_iff)
    then have z: "fst (rc_dec g (refc k)) = 0" by (simp add: unat_eq_0)
    obtain k2 where k2: "free_frame g ?k1 = (Ok (), k2)" "kmem_inv R k2" "kfree k2 = insert g (kfree ?k1)"
        "kmanaged R k2 = kmanaged R ?k1" "pm k2 = pm ?k1" "refc k2 = refc ?k1" "cr3 k2 = cr3 ?k1"
      using free_frame_managed[OF k1(1) gm1] by blast
    have "refs_inv R fs k2" using inv1 k2 False by (auto simp: refs_inv_def)
    moreover have "drop_frame g k = (Ok (), k2)" using z k2(1) by (simp add: drop_frame_def sbind_def)
    moreover have "kfree k2 = kfree k \<union> ({g} - set fs)" using k2(3) k1(2) False by auto
    ultimately show ?thesis using k2(4,5,7) k1(3)
      by (intro exI[of _ k2] conjI) simp_all
  qed
qed

lemma drop_frames_props:
  assumes "refs_inv R (gs @ fs) k"
  shows "\<exists>k'. sfor drop_frame gs k = (Ok (), k') \<and> refs_inv R fs k' \<and> kmanaged R k' = kmanaged R k \<and>
    kfree k' = kfree k \<union> (set gs - set fs) \<and> pm k' = pm k \<and> cr3 k' = cr3 k"
  using assms
proof (induction gs arbitrary: k)
  case Nil
  then show ?case by (simp add: sret_def)
next
  case (Cons g gs)
  obtain k1 where k1: "drop_frame g k = (Ok (), k1)" "refs_inv R (gs @ fs) k1"
      "kmanaged R k1 = kmanaged R k" "kfree k1 = kfree k \<union> ({g} - set (gs @ fs))" "pm k1 = pm k"
      "cr3 k1 = cr3 k"
    using drop_frame_props[of R g "gs @ fs" k] Cons.prems unfolding append_Cons by blast
  obtain k2 where k2: "sfor drop_frame gs k1 = (Ok (), k2)" "refs_inv R fs k2"
      "kmanaged R k2 = kmanaged R k1" "kfree k2 = kfree k1 \<union> (set gs - set fs)" "pm k2 = pm k1"
      "cr3 k2 = cr3 k1"
    using Cons.IH[OF k1(2)] by blast
  have "kfree k2 = kfree k \<union> (set (g # gs) - set fs)" using k1(4) k2(4) by auto
  moreover have "sfor drop_frame (g # gs) k = (Ok (), k2)" using k1(1) k2(1) by (simp add: sbind_Ok)
  ultimately show ?case using k1(3,5,6) k2(2,3,5,6)
    by (intro exI[of _ k2] conjI) simp_all
qed

section \<open>The live address spaces\<close>

definition as_frames :: "address_space list \<Rightarrow> phys_frame list" where
  "as_frames as = concat (map (\<lambda>a. bt_values (mapped_pages a)) as)"

definition frames_inv :: "nat set \<Rightarrow> address_space list \<Rightarrow> kmem \<Rightarrow> bool" where
  "frames_inv R as k \<longleftrightarrow> refs_inv R (as_frames as) k \<and>
     (\<forall>a \<in> set as. bt_ok (mapped_pages a)) \<and> distinct (map p4 as) \<and>
     p4 ` set as \<subseteq> kmanaged R k - kfree k \<and> p4 ` set as \<inter> set (as_frames as) = {}"

lemma as_frames_Cons [simp]: "as_frames (a # as) = bt_values (mapped_pages a) @ as_frames as"
  by (simp add: as_frames_def)

lemma frames_inv_kmem: "frames_inv R as k \<Longrightarrow> kmem_inv R k"
  by (simp add: frames_inv_def refs_inv_def)

lemma frames_inv_mono:
  assumes "frames_inv R as k" "kmem_inv R k'" "kfree k' \<subseteq> kfree k" "kmanaged R k' = kmanaged R k"
    "refc k' = refc k"
  shows "frames_inv R as k'"
  using assms refs_inv_mono[of R "as_frames as" k k'] by (auto simp: frames_inv_def)

lemma frames_inv_new_frame:
  assumes inv: "frames_inv R as k" and f: "f \<in> kfree k"
    and k': "kmem_inv R k'" "kfree k' \<subseteq> kfree k - {f}" "kmanaged R k' = kmanaged R k"
      "refc k' = rc_set f 1 (refc k)"
  shows "frames_inv R as k'"
  using inv k' refs_inv_new(2)[OF _ f k'] by (auto simp: frames_inv_def)

lemma frames_inv_map_new:
  assumes inv: "frames_inv R (a # as) k" and f: "f \<in> kfree k"
    and page: "bt_get (mapped_pages a) page = None"
    and k': "kmem_inv R k'" "kfree k' \<subseteq> kfree k - {f}" "kmanaged R k' = kmanaged R k"
      "refc k' = rc_set f 1 (refc k)"
  shows "frames_inv R (a \<lparr> mapped_pages := bt_insert page f (mapped_pages a) \<rparr> # as) k'"
proof -
  let ?b = "a \<lparr> mapped_pages := bt_insert page f (mapped_pages a) \<rparr>"
  have cnt: "count_list (as_frames (?b # as)) g = count_list (f # as_frames (a # as)) g" for g
    using count_bt_insert_new[OF page, of f g] by simp
  have st: "set (as_frames (?b # as)) = set (f # as_frames (a # as))"
    using cnt by (metis count_list_0_iff subsetI subset_antisym)
  have "refs_inv R (f # as_frames (a # as)) k'"
    using refs_inv_new(1)[OF _ f k'] inv by (simp add: frames_inv_def)
  then have "refs_inv R (as_frames (?b # as)) k'" using refs_inv_cong[OF st cnt] by blast
  moreover have "f \<notin> p4 ` set (a # as)" using inv f by (auto simp: frames_inv_def)
  ultimately show ?thesis using inv k' st by (auto simp: frames_inv_def)
qed

section \<open>Creation\<close>

lemma on_mem_eq: "m k = (r, k') \<Longrightarrow> on_mem m (a, k) = (r, (a, k'))"
  by (simp add: on_mem_def)

lemma two_frames:
  assumes inv: "kmem_inv R k" and two: "2 \<le> card (kfree k)"
  obtains f g k1 k2 where "alloc_zeroed_frame k = (Ok f, k1)" "alloc_zeroed_frame k1 = (Ok g, k2)"
    "f \<in> kfree k" "kmem_inv R k2" "kfree k2 \<subseteq> kfree k - {f}" "kmanaged R k2 = kmanaged R k"
    "refc k2 = refc k"
proof -
  have k0: "kfree k \<noteq> {}" using two by auto
  obtain k1 where k1: "alloc_zeroed_frame k = (Ok (Min (kfree k)), k1)" "kmem_inv R k1"
      "kfree k1 = kfree k - {Min (kfree k)}" "kmanaged R k1 = kmanaged R k" "refc k1 = refc k"
    using alloc_zeroed_frame_some[OF inv k0] by blast
  have "card (kfree k1) = card (kfree k) - 1" using k1(3) k0 by (simp add: card_Diff_singleton)
  then have "kfree k1 \<noteq> {}" using two by auto
  then obtain k2 where k2: "alloc_zeroed_frame k1 = (Ok (Min (kfree k1)), k2)" "kmem_inv R k2"
      "kfree k2 = kfree k1 - {Min (kfree k1)}" "kmanaged R k2 = kmanaged R k1" "refc k2 = refc k1"
    using alloc_zeroed_frame_some[OF k1(2)] by blast
  show ?thesis by (rule that[OF k1(1) k2(1)]) (use k1 k2 k0 in auto)
qed

lemma new_user_ok:
  assumes inv: "frames_inv R as k" and two: "2 \<le> card (kfree k)"
  shows "\<exists>a k'. new_user X k = (Ok a, k') \<and> mapped_pages a = [] \<and> p4 a \<in> kfree k \<and>
    frames_inv R (a # as) k' \<and> kfree k' \<subseteq> kfree k"
proof -
  have k0: "kmem_inv R k" by (rule frames_inv_kmem[OF inv])
  obtain f g k1 k2 where k2: "alloc_zeroed_frame k = (Ok f, k1)" "alloc_zeroed_frame k1 = (Ok g, k2)"
      "f \<in> kfree k" "kmem_inv R k2" "kfree k2 \<subseteq> kfree k - {f}" "kmanaged R k2 = kmanaged R k" "refc k2 = refc k"
    using two_frames[OF k0 two] .
  let ?k3 = "k2 \<lparr> pm := init_tables X (cr3 k2) f g (pm k2) \<rparr>"
  let ?a = "\<lparr> p4 = f, mapped_pages = [] \<rparr>"
  have eq: "new_user X k = (Ok ?a, ?k3)"
    using k2(1,2) by (simp add: new_user_def sbind_def supd_def sret_def)
  have k3: "kmem_inv R ?k3" "kfree ?k3 \<subseteq> kfree k - {f}" "kmanaged R ?k3 = kmanaged R k" "refc ?k3 = refc k"
    using k2 by (auto simp: kmem_inv_def kfree_def kmanaged_def)
  have i3: "frames_inv R as ?k3" using frames_inv_mono[OF inv k3(1) _ k3(3,4)] k3(2) by blast
  have "f \<in> kmanaged R k" "f \<notin> p4 ` set as" "f \<notin> set (as_frames as)"
    using k2(3) inv kfree_managed[OF k0] by (auto simp: frames_inv_def refs_inv_def)
  then have "frames_inv R (?a # as) ?k3" using i3 k3 by (auto simp: frames_inv_def)
  then show ?thesis using eq k2(3) k3(2) by auto
qed

section \<open>Mapping\<close>

lemma mapper_kmem:
  assumes X: "mapper_frames_ok X R" and k: "kmem_inv R k" "falloc k = Some fa"
    and map: "mp_map_to X root page frame flags (fa, pm k) = (r, fa', m)"
  defines "k' \<equiv> k \<lparr> falloc := Some fa', pm := m \<rparr>"
  shows "kmem_inv R k'" "kfree k' \<subseteq> kfree k" "kmanaged R k' = kmanaged R k" "refc k' = refc k"
proof -
  have fa: "fa_inv R fa" using k by (simp add: kmem_inv_def)
  have "fa_inv R fa' \<and> free_frames fa' \<subseteq> free_frames fa \<and> num_frames fa' = num_frames fa"
    using X[unfolded mapper_frames_ok_def, rule_format, OF fa, of root page frame flags "pm k"] map
    by simp
  then show "kmem_inv R k'" "kfree k' \<subseteq> kfree k" "kmanaged R k' = kmanaged R k" "refc k' = refc k"
    using k(2) by (simp_all add: k'_def kmem_inv_def kfree_def kmanaged_def managed_frames_def)
qed

lemma map_alloc_cases:
  assumes inv: "kmem_inv R k" and ne: "kfree k \<noteq> {}"
  defines "f \<equiv> Min (kfree k)"
  obtains k2 fa q fa' m where "kmem_inv R k2" "kfree k2 = kfree k - {f}" "kmanaged R k2 = kmanaged R k"
    "refc k2 = rc_set f 1 (refc k)" "pm k2 = fill_bytes (pm k) f 0 4096" "falloc k2 = Some fa"
    "mp_map_to X (p4 a) page f flags (fa, pm k2) = (q, fa', m)"
    "map_alloc X page flags (a, k) =
      (case q of
         MapOk \<Rightarrow> (Ok f, (a \<lparr> mapped_pages := bt_insert page f (mapped_pages a) \<rparr>,
                          k2 \<lparr> falloc := Some fa', pm := m \<rparr>))
       | PageAlreadyMapped \<Rightarrow> (Err ''page deja mappee'', (a, k2 \<lparr> falloc := Some fa', pm := m \<rparr>))
       | MapFailed \<Rightarrow> (Err ''map_to failed'', (a, k2 \<lparr> falloc := Some fa', pm := m \<rparr>)))"
proof -
  obtain k1 where k1: "alloc_zeroed_frame k = (Ok f, k1)" "kmem_inv R k1" "kfree k1 = kfree k - {f}"
      "kmanaged R k1 = kmanaged R k" "refc k1 = refc k" "pm k1 = fill_bytes (pm k) f 0 4096"
    using alloc_zeroed_frame_some[OF inv ne] unfolding f_def by blast
  let ?k2 = "k1 \<lparr> refc := rc_set f 1 (refc k1) \<rparr>"
  have k2: "kmem_inv R ?k2" "kfree ?k2 = kfree k - {f}" "kmanaged R ?k2 = kmanaged R k"
      "refc ?k2 = rc_set f 1 (refc k)" "pm ?k2 = fill_bytes (pm k) f 0 4096"
    using k1 by (simp_all add: kmem_inv_def kfree_def kmanaged_def)
  obtain fa where fa: "falloc ?k2 = Some fa" using k2(1) by (rule kmem_invE)
  obtain q fa' m where q: "mp_map_to X (p4 a) page f flags (fa, pm ?k2) = (q, fa', m)"
    by (cases "mp_map_to X (p4 a) page f flags (fa, pm ?k2)") auto
  show ?thesis
    by (rule that[OF k2 fa q]) (use k1(1) fa q in \<open>simp add: map_alloc_def sbind_def on_mem_def supd_def
          sret_def as_map_to_def Let_def split: map_result.splits\<close>)
qed

lemma map_alloc_empty:
  "kmem_inv R k \<Longrightarrow> kfree k = {} \<Longrightarrow>
    map_alloc X page flags (a, k) = (Err ''plus de frames libres'', (a, k))"
  using alloc_zeroed_frame_empty[of R k] by (simp add: map_alloc_def sbind_def on_mem_def)

lemma map_alloc_props:
  assumes X: "mapper_frames_ok X R" and inv: "frames_inv R (a # as) k"
    and page: "bt_get (mapped_pages a) page = None"
    and res: "map_alloc X page flags (a, k) = (r, (a', k'))"
  shows "r \<noteq> Panic \<and> frames_inv R (a' # as) k' \<and> kfree k' \<subseteq> kfree k \<and> p4 a' = p4 a \<and>
    (case r of Ok f \<Rightarrow> f \<in> kfree k \<and> f \<notin> kfree k' \<and> mapped_pages a' = bt_insert page f (mapped_pages a)
     | _ \<Rightarrow> mapped_pages a' = mapped_pages a)"
proof (cases "kfree k = {}")
  case True
  then show ?thesis using map_alloc_empty[OF frames_inv_kmem[OF inv] True] res inv by auto
next
  case False
  let ?f = "Min (kfree k)"
  have f: "?f \<in> kfree k" using False by simp
  obtain k2 fa q fa' m where k2: "kmem_inv R k2" "kfree k2 = kfree k - {?f}" "kmanaged R k2 = kmanaged R k"
      "refc k2 = rc_set ?f 1 (refc k)" "falloc k2 = Some fa"
    and q: "mp_map_to X (p4 a) page ?f flags (fa, pm k2) = (q, fa', m)"
    and step: "map_alloc X page flags (a, k) =
      (case q of
         MapOk \<Rightarrow> (Ok ?f, (a \<lparr> mapped_pages := bt_insert page ?f (mapped_pages a) \<rparr>,
                          k2 \<lparr> falloc := Some fa', pm := m \<rparr>))
       | PageAlreadyMapped \<Rightarrow> (Err ''page deja mappee'', (a, k2 \<lparr> falloc := Some fa', pm := m \<rparr>))
       | MapFailed \<Rightarrow> (Err ''map_to failed'', (a, k2 \<lparr> falloc := Some fa', pm := m \<rparr>)))"
    using map_alloc_cases[OF frames_inv_kmem[OF inv] False] by metis
  let ?k3 = "k2 \<lparr> falloc := Some fa', pm := m \<rparr>"
  note k3 = mapper_kmem[OF X k2(1,5) q]
  have k3': "kfree ?k3 \<subseteq> kfree k - {?f}" "kmanaged R ?k3 = kmanaged R k" "refc ?k3 = rc_set ?f 1 (refc k)"
    using k3 k2 by auto
  show ?thesis
  proof (cases q)
    case MapOk
    then show ?thesis using step res frames_inv_map_new[OF inv f page k3(1) k3'] k3'(1) f by auto
  qed (use step res frames_inv_new_frame[OF inv f k3(1) k3'] k3'(1) in auto)
qed

definition as_extends :: "nat set \<Rightarrow> address_space list \<Rightarrow> as_st \<Rightarrow> as_st \<Rightarrow> bool" where
  "as_extends R as s t \<longleftrightarrow> frames_inv R (fst t # as) (snd t) \<and> p4 (fst t) = p4 (fst s) \<and>
     kfree (snd t) \<subseteq> kfree (snd s) \<and>
     map_of (mapped_pages (fst s)) \<subseteq>\<^sub>m map_of (mapped_pages (fst t))"

lemma as_extends_trans: "as_extends R as s t \<Longrightarrow> as_extends R as t u \<Longrightarrow> as_extends R as s u"
  by (auto simp: as_extends_def intro: map_le_trans)

lemma map_alloc_extends:
  assumes "mapper_frames_ok X R" "frames_inv R (fst s # as) (snd s)"
    "bt_get (mapped_pages (fst s)) page = None" "map_alloc X page flags s = (r, t)"
  shows "as_extends R as s t \<and> r \<noteq> Panic \<and>
    (\<forall>f. r = Ok f \<longrightarrow> bt_get (mapped_pages (fst t)) page = Some f)"
proof -
  obtain a k a' k' where s: "s = (a, k)" "t = (a', k')" by (cases s, cases t) auto
  note p = map_alloc_props[OF assms(1) _ _ assms(4)[unfolded s], of as]
  have le: "map_of (mapped_pages a) \<subseteq>\<^sub>m (map_of (mapped_pages a))(page \<mapsto> f)" for f
    using assms(3) s by (auto simp: map_le_def)
  show ?thesis using p assms(2,3) s le
    by (cases r) (auto simp: as_extends_def)
qed

lemma ensure_page_extends:
  assumes "mapper_frames_ok X R" "virt_ok X page" "frames_inv R (fst s # as) (snd s)"
    "ensure_page X flags page s = (r, t)"
  shows "as_extends R as s t \<and> r \<noteq> Panic \<and>
    (r = Ok () \<longrightarrow> bt_get (mapped_pages (fst t)) page \<noteq> None)"
proof (cases "bt_get (mapped_pages (fst s)) page")
  case (Some f)
  then show ?thesis using assms
    by (auto simp: ensure_page_def virt_new_def slift_def sbind_def as_extends_def)
next
  case None
  obtain q u where q: "map_alloc X page flags s = (q, u)" by (cases "map_alloc X page flags s")
  then show ?thesis using assms(2,4) None map_alloc_extends[OF assms(1,3) None q]
    by (cases q) (auto simp: ensure_page_def virt_new_def slift_def sbind_def sret_def)
qed

text \<open>After \<open>ensure_mapped\<close> returns without error, every page of the range is mapped, and no mapping
  that existed has changed.\<close>

lemma ensure_mapped_props:
  assumes X: "mapper_frames_ok X R" and inv: "frames_inv R (a # as) k"
    and fits: "vaddr + len + 4095 < 2 ^ 64"
    and canon: "\<forall>p \<in> set (pages_between (align_down 4096 vaddr) (align_down 4096 (vaddr + len + 4095))).
      virt_ok X p"
    and res: "ensure_mapped X vaddr len flags (a, k) = (r, t)"
  shows "as_extends R as (a, k) t" and "r \<noteq> Panic"
    and "r = Ok () \<Longrightarrow> \<forall>p \<in> set (pages_between (align_down 4096 vaddr) (align_down 4096 (vaddr + len + 4095))).
      bt_get (mapped_pages (fst t)) p \<noteq> None"
proof -
  let ?ps = "pages_between (align_down 4096 vaddr) (align_down 4096 (vaddr + len + 4095))"
  let ?P = "as_extends R as (a, k)"
  have loop: "sfor (ensure_page X flags) ?ps (a, k) = (r, t)"
    using res fits by (simp add: ensure_mapped_def slift_def sbind_def cadd_def)
  have P0: "?P (a, k)" using inv by (simp add: as_extends_def)
  have step: "?P v \<and> q \<noteq> Panic \<and> (q = Ok () \<longrightarrow> bt_get (mapped_pages (fst v)) p \<noteq> None) \<and>
      map_of (mapped_pages (fst u)) \<subseteq>\<^sub>m map_of (mapped_pages (fst v))"
    if "p \<in> set ?ps" "?P u" "ensure_page X flags p u = (q, v)" for p u q v
  proof -
    have "frames_inv R (fst u # as) (snd u)" "virt_ok X p" using that canon by (auto simp: as_extends_def)
    then show ?thesis using ensure_page_extends[OF X _ _ that(3), of as] as_extends_trans[OF that(2)]
      by (auto simp: as_extends_def)
  qed
  have "?P t \<and> r \<noteq> Panic" by (rule sfor_step_inv[where P = ?P, OF loop P0]) (use step in blast)
  then show "?P t" "r \<noteq> Panic" by auto
  assume r: "r = Ok ()"
  have "?P t \<and> (\<forall>p \<in> set ?ps. bt_get (mapped_pages (fst t)) p \<noteq> None)"
  proof (rule sfor_covers[where P = ?P, OF loop[unfolded r] P0])
    fix p u v assume "p \<in> set ?ps" "?P u" "ensure_page X flags p u = (Ok (), v)"
    then show "?P v \<and> bt_get (mapped_pages (fst v)) p \<noteq> None" using step by blast
  next
    fix x p u v assume h: "p \<in> set ?ps" "?P u" "bt_get (mapped_pages (fst u)) x \<noteq> None"
      "ensure_page X flags p u = (Ok (), v)"
    then have "map_of (mapped_pages (fst u)) \<subseteq>\<^sub>m map_of (mapped_pages (fst v))" using step by blast
    then show "bt_get (mapped_pages (fst v)) x \<noteq> None" using h(3) by (force simp: map_le_def dom_def)
  qed
  then show "\<forall>p \<in> set ?ps. bt_get (mapped_pages (fst t)) p \<noteq> None" by blast
qed

section \<open>Destruction\<close>

lemma destroy_props:
  assumes inv: "frames_inv R (a # as) k"
  shows "\<exists>k'. destroy (a, k) = (Ok (), (a \<lparr> mapped_pages := [] \<rparr>, k')) \<and> frames_inv R as k' \<and>
    kfree k' = kfree k \<union> (set (bt_values (mapped_pages a)) - set (as_frames as)) \<union> {p4 a} \<and>
    kmanaged R k' = kmanaged R k"
proof -
  let ?gs = "bt_values (mapped_pages a)"
  have refs: "refs_inv R (?gs @ as_frames as) k" using inv by (simp add: frames_inv_def)
  obtain k1 where k1: "sfor drop_frame ?gs k = (Ok (), k1)" "refs_inv R (as_frames as) k1"
      "kmanaged R k1 = kmanaged R k" "kfree k1 = kfree k \<union> (set ?gs - set (as_frames as))"
    using drop_frames_props[OF refs] by blast
  have p4m: "p4 a \<in> kmanaged R k1" using inv k1(3) by (simp add: frames_inv_def)
  have "kmem_inv R k1" using k1(2) by (simp add: refs_inv_def)
  then obtain k2 where k2: "free_frame (p4 a) k1 = (Ok (), k2)" "kmem_inv R k2"
      "kfree k2 = insert (p4 a) (kfree k1)" "kmanaged R k2 = kmanaged R k1" "refc k2 = refc k1"
    using free_frame_managed[OF _ p4m] by blast
  have fresh: "p4 a \<notin> set (as_frames as)" "p4 a \<notin> p4 ` set as" using inv by (auto simp: frames_inv_def)
  have "refs_inv R (as_frames as) k2"
    using k1(2) k2 fresh by (auto simp: refs_inv_def)
  moreover have "p4 ` set as \<subseteq> kmanaged R k2 - kfree k2"
  proof
    fix q assume q: "q \<in> p4 ` set as"
    have "p4 ` set as \<subseteq> kmanaged R k - kfree k" "p4 ` set as \<inter> set ?gs = {}"
      using inv by (auto simp: frames_inv_def)
    then have "q \<in> kmanaged R k" "q \<notin> kfree k" "q \<notin> set ?gs" "q \<noteq> p4 a"
      using q fresh(2) by blast+
    then show "q \<in> kmanaged R k2 - kfree k2" using k1(3,4) k2(3,4) by simp
  qed
  ultimately have "frames_inv R as k2" using inv by (auto simp: frames_inv_def)
  moreover have "destroy (a, k) = (Ok (), (a \<lparr> mapped_pages := [] \<rparr>, k2))"
    using k1(1) k2(1) by (simp add: destroy_def sbind_def on_mem_def supd_def)
  moreover have "kfree k2 = kfree k \<union> (set ?gs - set (as_frames as)) \<union> {p4 a}"
    using k1(4) k2(3) by auto
  ultimately show ?thesis using k1(3) k2(4) by auto
qed

section \<open>Cloning\<close>

lemma share_page_props:
  assumes X: "mapper_frames_ok X R" and inv: "refs_inv R fs k" and f: "f \<in> set fs"
    and sat: "count_list fs f < 255"
  shows "\<exists>k'. share_page X root ((v, f), flags) k = (Ok (), k') \<and> refs_inv R (f # fs) k' \<and>
    kfree k' \<subseteq> kfree k \<and> kmanaged R k' = kmanaged R k"
proof -
  have kinv: "kmem_inv R k" using inv by (simp add: refs_inv_def)
  obtain fa where fa: "falloc k = Some fa" using kinv by (rule kmem_invE)
  obtain q fa' m where q: "mp_map_to X root v f flags (fa, pm k) = (q, fa', m)"
    by (cases "mp_map_to X root v f flags (fa, pm k)") auto
  let ?k1 = "k \<lparr> falloc := Some fa', pm := m \<rparr>"
  let ?k2 = "?k1 \<lparr> refc := snd (rc_inc f (refc k)) \<rparr>"
  note k1 = mapper_kmem[OF X kinv fa q]
  have k2: "kmem_inv R ?k2" "kfree ?k2 \<subseteq> kfree k" "kmanaged R ?k2 = kmanaged R k"
    using k1 by (simp_all add: kmem_inv_def kfree_def kmanaged_def)
  have fm: "f \<in> kmanaged R k" using inv f by (auto simp: refs_inv_def)
  have rcf: "unat (rc_get f (refc k)) = count_list fs f" using inv f by (simp add: refs_inv_def)
  have counts: "unat (rc_get g (refc ?k2)) = count_list (f # fs) g" if "g \<in> set (f # fs)" for g
    using inv that f sat rcf rc_get_inc[of g f "refc k"] refs_inv_index[OF inv fm, of g]
    by (cases "g = f") (auto simp: refs_inv_def)
  have "refs_inv R (f # fs) ?k2" using inv k2 counts f by (auto simp: refs_inv_def)
  moreover have "share_page X root ((v, f), flags) k = (Ok (), ?k2)"
    using fa q by (simp add: share_page_def)
  ultimately show ?thesis using k2 by blast
qed

lemma share_pages_props:
  assumes X: "mapper_frames_ok X R" and "refs_inv R fs k" "\<forall>e \<in> set es. snd (fst e) \<in> set fs"
    and "\<forall>f. count_list (map (\<lambda>e. snd (fst e)) es @ fs) f \<le> 255"
  shows "\<exists>k'. sfor (share_page X root) es k = (Ok (), k') \<and>
    refs_inv R (map (\<lambda>e. snd (fst e)) es @ fs) k' \<and> kfree k' \<subseteq> kfree k \<and> kmanaged R k' = kmanaged R k"
  using assms(2-)
proof (induction es arbitrary: k fs)
  case Nil
  then show ?case by (simp add: sret_def)
next
  case (Cons e es)
  obtain v f flags where e: "e = ((v, f), flags)" by (metis surj_pair)
  let ?g = "map (\<lambda>e. snd (fst e)) es"
  have b: "count_list (?g @ f # fs) g = count_list (f # ?g @ fs) g" for g by simp
  have "count_list (f # ?g @ fs) f \<le> 255" using Cons.prems(3)[rule_format, of f] e by simp
  then have sat: "count_list fs f < 255" by simp
  have "f \<in> set fs" using Cons.prems(2) e by simp
  then obtain k1 where k1: "share_page X root e k = (Ok (), k1)" "refs_inv R (f # fs) k1"
      "kfree k1 \<subseteq> kfree k" "kmanaged R k1 = kmanaged R k"
    using share_page_props[OF X Cons.prems(1) _ sat, of root v flags] e by blast
  have bnd: "\<forall>h. count_list (?g @ f # fs) h \<le> 255"
  proof
    fix h show "count_list (?g @ f # fs) h \<le> 255"
      using Cons.prems(3)[rule_format, of h] by (simp add: e split: if_splits)
  qed
  have mem: "\<forall>e \<in> set es. snd (fst e) \<in> set (f # fs)" using Cons.prems(2) by simp
  obtain k2 where k2: "sfor (share_page X root) es k1 = (Ok (), k2)"
      "refs_inv R (?g @ f # fs) k2" "kfree k2 \<subseteq> kfree k1" "kmanaged R k2 = kmanaged R k1"
    using Cons.IH[OF k1(2) mem bnd] by blast
  have "refs_inv R (f # ?g @ fs) k2" using k2(2) refs_inv_cong[OF _ b, of R k2] by auto
  moreover have "sfor (share_page X root) (e # es) k = (Ok (), k2)" using k1(1) k2(1) by (simp add: sbind_Ok)
  ultimately show ?case using k1 k2 e by auto
qed

lemma downgrade_pages_props:
  assumes "\<forall>vf \<in> set vs. virt_ok X (fst vf)"
  shows "\<exists>m. sfor (downgrade_page X root) vs k = (Ok (), k \<lparr> pm := m \<rparr>)"
  using assms
proof (induction vs arbitrary: k)
  case Nil
  then show ?case by (auto simp: sret_def intro: exI[of _ "pm k"])
next
  case (Cons vf vs)
  have "\<exists>m. downgrade_page X root vf k = (Ok (), k \<lparr> pm := m \<rparr>)"
    using Cons.prems by (auto simp: downgrade_page_def virt_new_def slift_def sbind_def
        split: option.splits intro: exI[of _ "pm k"])
  then obtain m where m: "downgrade_page X root vf k = (Ok (), k \<lparr> pm := m \<rparr>)" by blast
  obtain m' where "sfor (downgrade_page X root) vs (k \<lparr> pm := m \<rparr>) = (Ok (), k \<lparr> pm := m, pm := m' \<rparr>)"
    using Cons.IH[of "k \<lparr> pm := m \<rparr>"] Cons.prems by auto
  then show ?case using m by (auto simp: sbind_Ok)
qed

lemma clone_cow_props:
  assumes X: "mapper_frames_ok X R" and inv: "frames_inv R (a # as) k" and two: "2 \<le> card (kfree k)"
    and canon: "\<forall>vf \<in> set (mapped_pages a). virt_ok X (fst vf)"
    and sat: "\<forall>f. count_list (bt_values (mapped_pages a) @ as_frames (a # as)) f \<le> 255"
  shows "\<exists>c k'. clone_cow X a k = (Ok c, k') \<and> mapped_pages c = mapped_pages a \<and>
    p4 c \<in> kfree k \<and> kfree k' \<subseteq> kfree k \<and> frames_inv R (c # a # as) k'"
proof -
  obtain f g k1 k2 where al: "alloc_zeroed_frame k = (Ok f, k1)" "alloc_zeroed_frame k1 = (Ok g, k2)"
    and k2: "f \<in> kfree k" "kmem_inv R k2" "kfree k2 \<subseteq> kfree k - {f}" "kmanaged R k2 = kmanaged R k"
      "refc k2 = refc k"
    using two_frames[OF frames_inv_kmem[OF inv] two] .
  let ?k3 = "k2 \<lparr> pm := init_tables X (p4 a) f g (pm k2) \<rparr>"
  obtain m where m: "sfor (downgrade_page X (p4 a)) (mapped_pages a) ?k3 = (Ok (), ?k3 \<lparr> pm := m \<rparr>)"
    using downgrade_pages_props[OF canon] by blast
  let ?k4 = "?k3 \<lparr> pm := m \<rparr>"
  let ?es = "map (\<lambda>vf. (vf, page_flags_or_rx X (p4 a) (pm ?k4) (fst vf))) (mapped_pages a)"
  have k4: "kmem_inv R ?k4" "kfree ?k4 \<subseteq> kfree k" "kmanaged R ?k4 = kmanaged R k" "refc ?k4 = refc k"
    using k2 by (auto simp: kmem_inv_def kfree_def kmanaged_def)
  have fr4: "f \<notin> kfree ?k4" using k2(3) by (auto simp: kfree_def)
  have i4: "frames_inv R (a # as) ?k4" by (rule frames_inv_mono[OF inv k4])
  then have r4: "refs_inv R (as_frames (a # as)) ?k4" by (simp only: frames_inv_def)
  have mem: "\<forall>e \<in> set ?es. snd (fst e) \<in> set (as_frames (a # as))" by auto
  have vals: "map (\<lambda>e. snd (fst e)) ?es = bt_values (mapped_pages a)" by simp
  obtain k5 where k5: "sfor (share_page X f) ?es ?k4 = (Ok (), k5)"
      "refs_inv R (bt_values (mapped_pages a) @ as_frames (a # as)) k5" "kfree k5 \<subseteq> kfree ?k4"
      "kmanaged R k5 = kmanaged R ?k4"
    using share_pages_props[OF X r4 mem, of f] sat unfolding vals by blast
  let ?c = "\<lparr> p4 = f, mapped_pages = mapped_pages a \<rparr>"
  have ok: "bt_ok (mapped_pages a)" using inv by (simp add: frames_inv_def)
  obtain fa where fa: "falloc ?k4 = Some fa" using k4(1) by (rule kmem_invE)
  have eq: "clone_cow X a k = (Ok ?c, k5)"
    using al m k5(1) fa unfolding clone_cow_def
    by (simp add: sbind_def supd_def sget_def slift_def sret_def bt_rebuild[OF ok])
  have fm: "f \<in> kmanaged R k" using k2(1) kfree_managed[OF frames_inv_kmem[OF inv]] by auto
  have "f \<notin> p4 ` set (a # as)" "f \<notin> set (as_frames (a # as))"
    using inv k2(1) by (auto simp: frames_inv_def refs_inv_def)
  moreover have "p4 ` set (a # as) \<subseteq> kmanaged R k5 - kfree k5" "f \<in> kmanaged R k5 - kfree k5"
    using i4 k4(3) k5(3,4) fm fr4 by (auto simp: frames_inv_def)
  ultimately have "frames_inv R (?c # a # as) k5"
    using i4 k5(2) ok unfolding frames_inv_def by auto
  then show ?thesis using eq k2(1) k4(2) k5(3) by (intro exI[of _ ?c] exI[of _ k5]) auto
qed

end
