(* ===== verification/User_Memory.thy ===== *)
theory User_Memory
  imports Address_Space
begin

text \<open>
  What a user program sees: \<open>user_byte a m v\<close> is the byte at virtual address \<open>v\<close> of the address
  space \<open>a\<close>, read through the frames the kernel recorded for it.  The lemmas show that
  \<open>write_data\<close> stores its data at the given addresses across page boundaries, that the
  pages it has to allocate are zero elsewhere, and that no other user byte changes.

  The hypothesis on the page-table code is \<open>mapper_writes_tables\<close>: with \<open>T root m\<close> the set of
  the frames that hold the tables below \<open>root\<close>, creating a mapping writes only to those
  frames and to frames it takes from the allocator, and the tables are a function of
  their own contents.
\<close>

definition user_byte :: "address_space \<Rightarrow> mem \<Rightarrow> nat \<Rightarrow> u8 option" where
  "user_byte a m v = (case bt_get (mapped_pages a) (align_down 4096 v) of
     None \<Rightarrow> None | Some f \<Rightarrow> Some (m (f + v mod 4096)))"

definition mapper_writes_tables :: "x86_ops \<Rightarrow> (phys_frame \<Rightarrow> mem \<Rightarrow> phys_frame set) \<Rightarrow> bool" where
  "mapper_writes_tables X T \<longleftrightarrow>
    (\<forall>root page frame flags fa m. case mp_map_to X root page frame flags (fa, m) of (_, fa', m') \<Rightarrow>
       (\<forall>x. align_down 4096 x \<notin> T root m \<union> (free_frames fa - free_frames fa') \<longrightarrow> m' x = m x) \<and>
       T root m' \<subseteq> T root m \<union> (free_frames fa - free_frames fa')) \<and>
    (\<forall>root m m'. (\<forall>x. align_down 4096 x \<in> T root m \<longrightarrow> m' x = m x) \<longrightarrow> T root m' = T root m)"

definition as_mem_ok :: "(phys_frame \<Rightarrow> mem \<Rightarrow> phys_frame set) \<Rightarrow> nat set \<Rightarrow> address_space list
    \<Rightarrow> as_st \<Rightarrow> bool" where
  "as_mem_ok T R as s \<longleftrightarrow> frames_inv R (fst s # as) (snd s) \<and>
     distinct (bt_values (mapped_pages (fst s))) \<and>
     T (p4 (fst s)) (pm (snd s)) \<inter> (kfree (snd s) \<union> set (bt_values (mapped_pages (fst s)))) = {}"

section \<open>Frames and addresses\<close>

lemma align_down_frame: "4096 dvd f \<Longrightarrow> i < 4096 \<Longrightarrow> align_down 4096 (f + i) = f"
  by (auto simp: align_down_def)

lemma align_down_add_mod: "align_down 4096 v + v mod 4096 = v"
  by (simp add: align_down_def)

lemma fill_bytes_frame:
  "4096 dvd f \<Longrightarrow> fill_bytes m f b 4096 x = (if align_down 4096 x = f then b else m x)"
  using align_down_gt[of 4096 x] align_down_le[of 4096 x]
  by (auto simp: fill_bytes_def align_down_def elim!: dvdE)

lemma mapped_frame_aligned:
  assumes "frames_inv R (a # as) k" "bt_get (mapped_pages a) p = Some f"
  shows "4096 dvd f" "f \<notin> kfree k" "f \<in> set (bt_values (mapped_pages a))"
proof -
  show "f \<in> set (bt_values (mapped_pages a))" using assms(2) by (force dest: map_of_SomeD)
  then have "f \<in> kmanaged R k - kfree k" using assms(1) by (auto simp: frames_inv_def refs_inv_def)
  then show "4096 dvd f" "f \<notin> kfree k" using kmanaged_aligned by blast+
qed

lemma mapped_frames_inj:
  assumes "distinct (bt_values (mapped_pages a))" "bt_get (mapped_pages a) p = Some f"
    "bt_get (mapped_pages a) q = Some f"
  shows "p = q"
proof -
  have "inj_on snd (set (mapped_pages a))" using assms(1) by (simp add: distinct_map)
  moreover have "(p, f) \<in> set (mapped_pages a)" "(q, f) \<in> set (mapped_pages a)"
    using assms(2,3) by (auto dest: map_of_SomeD)
  ultimately show ?thesis by (metis inj_onD snd_conv fst_conv)
qed

section \<open>Writing to one mapped page\<close>

lemma user_byte_write:
  assumes inv: "frames_inv R (a # as) k" and dist: "distinct (bt_values (mapped_pages a))"
    and page: "bt_get (mapped_pages a) page = Some f" "4096 dvd page" and len: "off + length bs \<le> 4096"
  shows "user_byte a (write_bytes m (f + off) bs) v =
    (if page + off \<le> v \<and> v < page + off + length bs then Some (bs ! (v - (page + off)))
     else user_byte a m v)"
proof -
  note f = mapped_frame_aligned[OF inv page(1)]
  let ?q = "align_down 4096 v" and ?o = "v mod 4096"
  have v: "?q + ?o = v" "?o < 4096" by (simp_all add: align_down_add_mod)
  show ?thesis
  proof (cases "?q = page")
    case True
    have "page + off \<le> v \<and> v < page + off + length bs \<longleftrightarrow> off \<le> ?o \<and> ?o < off + length bs"
      "v - (page + off) = ?o - off"
      using v(1) True by linarith+
    then show ?thesis using page(1) by (simp add: user_byte_def True write_bytes_def)
  next
    case False
    have out: "\<not> (page + off \<le> v \<and> v < page + off + length bs)"
    proof
      assume "page + off \<le> v \<and> v < page + off + length bs"
      then have "v = page + (v - page)" "v - page < 4096" using len by auto
      then show False using False align_down_frame[OF page(2)] by metis
    qed
    show ?thesis
    proof (cases "bt_get (mapped_pages a) ?q")
      case (Some g)
      have gf: "g \<noteq> f" using mapped_frames_inj[OF dist page(1)] Some False by blast
      have g: "align_down 4096 (g + ?o) = g"
        using align_down_frame[OF mapped_frame_aligned(1)[OF inv Some] v(2)] .
      have "\<not> (f + off \<le> g + ?o \<and> g + ?o < f + off + length bs)"
      proof
        assume "f + off \<le> g + ?o \<and> g + ?o < f + off + length bs"
        then have "g + ?o = f + (g + ?o - f)" "g + ?o - f < 4096" using len by linarith+
        then show False using gf g align_down_frame[OF f(1)] by metis
      qed
      then show ?thesis using Some out by (auto simp: user_byte_def write_bytes_def)
    qed (use out in \<open>simp add: user_byte_def\<close>)
  qed
qed

section \<open>Mapping a fresh page\<close>

lemma mapper_memD:
  assumes "mapper_writes_tables X T" "mp_map_to X root page frame flags (fa, m) = (q, fa', m')"
  shows "align_down 4096 x \<notin> T root m \<union> (free_frames fa - free_frames fa') \<Longrightarrow> m' x = m x"
    and "T root m' \<subseteq> T root m \<union> (free_frames fa - free_frames fa')"
proof -
  have "case mp_map_to X root page frame flags (fa, m) of (_, fa', m') \<Rightarrow>
       (\<forall>x. align_down 4096 x \<notin> T root m \<union> (free_frames fa - free_frames fa') \<longrightarrow> m' x = m x) \<and>
       T root m' \<subseteq> T root m \<union> (free_frames fa - free_frames fa')"
    by (rule assms(1)[unfolded mapper_writes_tables_def, THEN conjunct1, THEN spec, THEN spec,
          THEN spec, THEN spec, THEN spec, THEN spec])
  then show "align_down 4096 x \<notin> T root m \<union> (free_frames fa - free_frames fa') \<Longrightarrow> m' x = m x"
    and "T root m' \<subseteq> T root m \<union> (free_frames fa - free_frames fa')"
    unfolding assms(2) by auto
qed

lemma tables_cong:
  assumes "mapper_writes_tables X T" "\<And>x. align_down 4096 x \<in> T root m \<Longrightarrow> m' x = m x"
  shows "T root m' = T root m"
  using assms(1)[unfolded mapper_writes_tables_def, THEN conjunct2, rule_format, of root m m'] assms(2)
  by blast

lemma map_alloc_mem:
  assumes X: "mapper_frames_ok X R" "mapper_writes_tables X T" and ok: "as_mem_ok T R as (a, k)"
    and page: "bt_get (mapped_pages a) page = None"
    and res: "map_alloc X page flags (a, k) = (Ok f, (a', k'))"
  shows "as_mem_ok T R as (a', k')" and "bt_get (mapped_pages a') page = Some f"
    and "user_byte a (pm k) v = Some b \<Longrightarrow> user_byte a' (pm k') v = Some b"
    and "align_down 4096 v = page \<Longrightarrow> user_byte a' (pm k') v = Some 0"
proof -
  have inv: "frames_inv R (a # as) k" using ok by (simp add: as_mem_ok_def)
  have ne: "kfree k \<noteq> {}" using map_alloc_empty[OF frames_inv_kmem[OF inv]] res by fastforce
  obtain k2 fa q fa' m where k2: "kmem_inv R k2" "kfree k2 = kfree k - {Min (kfree k)}"
      "pm k2 = fill_bytes (pm k) (Min (kfree k)) 0 4096" "falloc k2 = Some fa"
    and q: "mp_map_to X (p4 a) page (Min (kfree k)) flags (fa, pm k2) = (q, fa', m)"
    and step: "map_alloc X page flags (a, k) =
      (case q of
         MapOk \<Rightarrow> (Ok (Min (kfree k)), (a \<lparr> mapped_pages := bt_insert page (Min (kfree k)) (mapped_pages a) \<rparr>,
                          k2 \<lparr> falloc := Some fa', pm := m \<rparr>))
       | PageAlreadyMapped \<Rightarrow> (Err ''page deja mappee'', (a, k2 \<lparr> falloc := Some fa', pm := m \<rparr>))
       | MapFailed \<Rightarrow> (Err ''map_to failed'', (a, k2 \<lparr> falloc := Some fa', pm := m \<rparr>)))"
    using map_alloc_cases[OF frames_inv_kmem[OF inv] ne] by metis
  have f: "f = Min (kfree k)" "a' = a \<lparr> mapped_pages := bt_insert page f (mapped_pages a) \<rparr>"
      "k' = k2 \<lparr> falloc := Some fa', pm := m \<rparr>"
    using step res by (auto split: map_result.splits)
  have fk: "f \<in> kfree k" using ne f(1) by simp
  then have f4: "4096 dvd f" by (rule kfree_aligned)
  have free: "free_frames fa = kfree k - {f}" "kfree k' = free_frames fa'"
    using k2(2,4) f by (simp_all add: kfree_def)
  have pmk2: "pm k2 = fill_bytes (pm k) f 0 4096" using k2(3) f(1) by simp
  have T0: "T (p4 a) (pm k) \<inter> (kfree k \<union> set (bt_values (mapped_pages a))) = {}"
    using ok by (simp add: as_mem_ok_def)
  have T2: "T (p4 a) (pm k2) = T (p4 a) (pm k)"
    using T0 fk by (intro tables_cong[OF X(2)]) (auto simp: pmk2 fill_bytes_frame[OF f4])
  note M = mapper_memD[OF X(2) q]
  have same: "pm k' x = (if align_down 4096 x = f then 0 else pm k x)"
    if "align_down 4096 x \<notin> T (p4 a) (pm k)" "align_down 4096 x \<notin> kfree k - {f}" for x
  proof -
    have "m x = pm k2 x" using M(1)[of x] that T2 free(1) by auto
    then show ?thesis using f(3) pmk2 by (simp add: fill_bytes_frame[OF f4])
  qed
  have sub: "kfree k' \<subseteq> kfree k - {f}" and fi: "frames_inv R (a' # as) k'"
    using map_alloc_props[OF X(1) inv page res] by auto
  show get: "bt_get (mapped_pages a') page = Some f" by (simp add: f(2))
  have fnew: "f \<notin> set (bt_values (mapped_pages a))"
    using fk inv by (auto simp: frames_inv_def refs_inv_def)
  have vals: "set (bt_values (mapped_pages a')) \<subseteq> insert f (set (bt_values (mapped_pages a)))"
    using set_bt_insert[of page f "mapped_pages a"] by (auto simp: f(2))
  have "T (p4 a) (pm k') \<subseteq> T (p4 a) (pm k) \<union> (kfree k - {f} - kfree k')"
    using M(2) T2 free f(3) by auto
  moreover have "kfree k \<inter> set (bt_values (mapped_pages a)) = {}"
    using inv by (auto simp: frames_inv_def refs_inv_def)
  ultimately have "T (p4 a) (pm k') \<inter> (kfree k' \<union> set (bt_values (mapped_pages a'))) = {}"
    using T0 vals sub fk by blast
  moreover have "distinct (bt_values (mapped_pages a'))"
    using distinct_bt_insert_new[OF page _ fnew] ok by (simp add: as_mem_ok_def f(2))
  ultimately show "as_mem_ok T R as (a', k')" using fi by (simp add: as_mem_ok_def f(2))
  show "user_byte a' (pm k') v = Some b" if b: "user_byte a (pm k) v = Some b"
  proof -
    obtain g where g: "bt_get (mapped_pages a) (align_down 4096 v) = Some g" "pm k (g + v mod 4096) = b"
      using b by (auto simp: user_byte_def split: option.splits)
    note gp = mapped_frame_aligned[OF inv g(1)]
    have al: "align_down 4096 (g + v mod 4096) = g" by (rule align_down_frame[OF gp(1)]) simp
    have "g \<notin> T (p4 a) (pm k)" "g \<noteq> f" using gp(3) T0 fnew by auto
    then have "pm k' (g + v mod 4096) = b" using same[of "g + v mod 4096"] gp(2) g(2) unfolding al by simp
    moreover have "align_down 4096 v \<noteq> page" using page g(1) by auto
    ultimately show ?thesis using g(1) by (simp add: user_byte_def f(2))
  qed
  show "user_byte a' (pm k') v = Some 0" if v: "align_down 4096 v = page"
  proof -
    have al: "align_down 4096 (f + v mod 4096) = f" by (rule align_down_frame[OF f4]) simp
    have "f \<notin> T (p4 a) (pm k)" using T0 fk by auto
    then have "pm k' (f + v mod 4096) = 0" using same[of "f + v mod 4096"] unfolding al by simp
    then show ?thesis using get v by (simp add: user_byte_def)
  qed
qed

section \<open>Writing across pages\<close>

abbreviation ubyte :: "as_st \<Rightarrow> nat \<Rightarrow> u8 option" where
  "ubyte s v \<equiv> user_byte (fst s) (pm (snd s)) v"

text \<open>\<open>stored s t cur data\<close>: from \<open>s\<close> to \<open>t\<close> the user bytes from \<open>cur\<close> on became \<open>data\<close>, the other user
  bytes that existed are unchanged, and the bytes that came into existence are 0.\<close>

definition stored :: "as_st \<Rightarrow> as_st \<Rightarrow> nat \<Rightarrow> bytes \<Rightarrow> bool" where
  "stored s t cur data \<longleftrightarrow>
    (\<forall>i < length data. ubyte t (cur + i) = Some (data ! i)) \<and>
    (\<forall>v. \<not> (cur \<le> v \<and> v < cur + length data) \<longrightarrow>
       (case ubyte s v of Some b \<Rightarrow> ubyte t v = Some b | None \<Rightarrow> ubyte t v \<in> {None, Some 0}))"

lemma stored_Nil: "stored s s cur []"
  by (auto simp: stored_def split: option.splits)

lemma stored_in: "stored s t cur d \<Longrightarrow> i < length d \<Longrightarrow> ubyte t (cur + i) = Some (d ! i)"
  by (simp add: stored_def)

lemma stored_out:
  assumes "stored s t cur d" "\<not> (cur \<le> v \<and> v < cur + length d)"
  shows "case ubyte s v of Some b \<Rightarrow> ubyte t v = Some b | None \<Rightarrow> ubyte t v \<in> {None, Some 0}"
  using assms unfolding stored_def by (elim conjE allE[of _ v]) simp

lemma stored_mapped: "stored s t cur d \<Longrightarrow> ubyte s v \<noteq> None \<Longrightarrow> ubyte t v \<noteq> None"
  using stored_in[of s t cur d "v - cur"] stored_out[of s t cur d v]
  by (cases "cur \<le> v \<and> v < cur + length d") (auto split: option.splits)

lemma stored_append:
  assumes "stored s t cur d1" "stored t u (cur + length d1) d2"
  shows "stored s u cur (d1 @ d2)"
  unfolding stored_def
proof (intro conjI allI impI)
  fix i assume i: "i < length (d1 @ d2)"
  show "ubyte u (cur + i) = Some ((d1 @ d2) ! i)"
  proof (cases "i < length d1")
    case True
    then have "ubyte t (cur + i) = Some (d1 ! i)" using assms(1) by (simp add: stored_def)
    moreover have "\<not> (cur + length d1 \<le> cur + i \<and> cur + i < cur + length d1 + length d2)" using True by simp
    ultimately have "ubyte u (cur + i) = Some (d1 ! i)"
      using stored_out[OF assms(2), of "cur + i"] by simp
    then show ?thesis using True by (simp add: nth_append)
  next
    case False
    then have j: "i - length d1 < length d2" "cur + i = cur + length d1 + (i - length d1)" using i by auto
    then have "ubyte u (cur + i) = Some (d2 ! (i - length d1))"
      using stored_in[OF assms(2) j(1)] by simp
    then show ?thesis using False by (simp add: nth_append)
  qed
next
  fix v assume v: "\<not> (cur \<le> v \<and> v < cur + length (d1 @ d2))"
  have 1: "case ubyte s v of Some b \<Rightarrow> ubyte t v = Some b | None \<Rightarrow> ubyte t v \<in> {None, Some 0}"
    by (rule stored_out[OF assms(1)]) (use v in auto)
  have 2: "case ubyte t v of Some b \<Rightarrow> ubyte u v = Some b | None \<Rightarrow> ubyte u v \<in> {None, Some 0}"
    by (rule stored_out[OF assms(2)]) (use v in auto)
  show "case ubyte s v of Some b \<Rightarrow> ubyte u v = Some b | None \<Rightarrow> ubyte u v \<in> {None, Some 0}"
    using 1 2 by (auto split: option.splits)
qed

lemma stored_trans_Nil: "stored s t c [] \<Longrightarrow> stored t u cur d \<Longrightarrow> stored s u cur d"
  using stored_append[of s t cur "[]" u d] by (auto simp: stored_def)

lemma frame_of_page_mem:
  assumes X: "mapper_frames_ok X R" "mapper_writes_tables X T" and ok: "as_mem_ok T R as s"
    and res: "frame_of_page X page flags s = (Ok f, t)"
  shows "as_mem_ok T R as t \<and> bt_get (mapped_pages (fst t)) page = Some f \<and> stored s t c []"
proof (cases "bt_get (mapped_pages (fst s)) page")
  case (Some g)
  then show ?thesis using res ok stored_Nil by (simp add: frame_of_page_def)
next
  case None
  obtain a k a' k' where s: "s = (a, k)" "t = (a', k')" by (cases s, cases t) auto
  have m: "map_alloc X page flags (a, k) = (Ok f, (a', k'))" using res None s by (simp add: frame_of_page_def)
  have pg: "bt_get (mapped_pages a) page = None" using None s by simp
  note p = map_alloc_mem[OF X ok[unfolded s] pg m]
  have "ubyte t v \<in> {None, Some 0}" if "ubyte s v = None" for v
  proof (cases "align_down 4096 v = page")
    case True
    then show ?thesis using p(4) s by simp
  next
    case False
    have "mapped_pages a' = bt_insert page f (mapped_pages a)"
      using map_alloc_props[OF X(1) _ pg m, of as] ok s by (simp add: as_mem_ok_def)
    then show ?thesis using that False s by (auto simp: user_byte_def split: option.splits)
  qed
  then have "stored s t c []" using p(3) s by (auto simp: stored_def split: option.splits)
  then show ?thesis using p(1,2) s by simp
qed

lemma write_frame_mem:
  assumes X: "mapper_writes_tables X T" and ok: "as_mem_ok T R as (a, k)"
    and page: "bt_get (mapped_pages a) page = Some f" "4096 dvd page" and len: "off + length bs \<le> 4096"
  defines "k' \<equiv> k \<lparr> pm := write_bytes (pm k) (f + off) bs \<rparr>"
  shows "as_mem_ok T R as (a, k')" "stored (a, k) (a, k') (page + off) bs"
proof -
  have inv: "frames_inv R (a # as) k" and dist: "distinct (bt_values (mapped_pages a))"
    using ok by (auto simp: as_mem_ok_def)
  note f = mapped_frame_aligned[OF inv page(1)]
  note uw = user_byte_write[OF inv dist page len]
  show "stored (a, k) (a, k') (page + off) bs"
    by (auto simp: stored_def k'_def uw split: option.splits)
  have fT: "f \<notin> T (p4 a) (pm k)" using ok f(3) by (auto simp: as_mem_ok_def)
  have "T (p4 a) (pm k') = T (p4 a) (pm k)"
  proof (rule tables_cong[OF X])
    fix x assume x: "align_down 4096 x \<in> T (p4 a) (pm k)"
    have "\<not> (f + off \<le> x \<and> x < f + off + length bs)"
    proof
      assume "f + off \<le> x \<and> x < f + off + length bs"
      then have "x = f + (x - f)" "x - f < 4096" using len by auto
      then have "align_down 4096 x = f" using align_down_frame[OF f(1)] by metis
      then show False using x fT by simp
    qed
    then show "pm k' x = pm k x" by (auto simp: k'_def write_bytes_def)
  qed
  moreover have "frames_inv R (a # as) k'"
    by (rule frames_inv_mono[OF inv]) (use frames_inv_kmem[OF inv] in
        \<open>simp_all add: k'_def kmem_inv_def kfree_def kmanaged_def\<close>)
  moreover have "kfree k' = kfree k" by (simp add: k'_def kfree_def)
  ultimately show "as_mem_ok T R as (a, k')" using ok by (simp add: as_mem_ok_def)
qed

lemma write_data_contents:
  assumes "mapper_frames_ok X R" "mapper_writes_tables X T" "as_mem_ok T R as s"
    "write_data X flags cur data s = (Ok (), t)"
  shows "as_mem_ok T R as t \<and> stored s t cur data"
  using assms
proof (induction X flags cur data arbitrary: s rule: write_data.induct)
  case (1 X flags cur data)
  note X = 1(2,3)
  show ?case
  proof (cases "data = []")
    case True
    then show ?thesis using 1(4,5) stored_Nil by (simp add: write_data.simps sret_def)
  next
    case False
    define page where "page = align_down 4096 cur"
    define off where "off = cur - page"
    define n where "n = min (4096 - off) (length data)"
    have cur: "page + off = cur" "off < 4096"
      using align_down_le[of 4096 cur] align_down_gt[of 4096 cur] by (simp_all add: page_def off_def)
    have len: "off + length (take n data) \<le> 4096" using cur(2) by (simp add: n_def)
    have "write_data X flags cur data s =
       sbind (frame_of_page X page flags) (\<lambda>frame.
       sbind (on_mem (supd (\<lambda>k. k \<lparr> pm := write_bytes (pm k) (frame + off) (take n data) \<rparr>))) (\<lambda>_.
       sbind (slift (rbind (cadd 64 cur n) (virt_new X))) (\<lambda>cur'.
       write_data X flags cur' (drop n data)))) s"
      unfolding write_data.simps[of X flags cur data] page_def off_def n_def using False by (simp add: Let_def)
    then have run: "sbind (frame_of_page X page flags) (\<lambda>frame.
       sbind (on_mem (supd (\<lambda>k. k \<lparr> pm := write_bytes (pm k) (frame + off) (take n data) \<rparr>))) (\<lambda>_.
       sbind (slift (rbind (cadd 64 cur n) (virt_new X))) (\<lambda>cur'.
       write_data X flags cur' (drop n data)))) s = (Ok (), t)" using 1(5) by simp
    then obtain f s1 where s1: "frame_of_page X page flags s = (Ok f, s1)"
      and r1: "sbind (on_mem (supd (\<lambda>k. k \<lparr> pm := write_bytes (pm k) (f + off) (take n data) \<rparr>))) (\<lambda>_.
       sbind (slift (rbind (cadd 64 cur n) (virt_new X))) (\<lambda>cur'.
       write_data X flags cur' (drop n data))) s1 = (Ok (), t)"
      by (rule sbind_OkE)
    obtain a k where s1e: "s1 = (a, k)" by (cases s1)
    let ?s2 = "(a, k \<lparr> pm := write_bytes (pm k) (f + off) (take n data) \<rparr>)"
    have r2: "write_data X flags (cur + n) (drop n data) ?s2 = (Ok (), t)"
      using r1 by (auto simp: s1e sbind_def on_mem_def supd_def slift_def cadd_def virt_new_def
          split: if_splits)
    note p1 = frame_of_page_mem[OF X 1(4) s1, of cur]
    have ok1: "as_mem_ok T R as (a, k)" "bt_get (mapped_pages a) page = Some f"
      using p1 by (auto simp: s1e)
    have pd: "4096 dvd page" by (simp add: page_def)
    note p2 = write_frame_mem[OF X(2) ok1 pd len]
    have st2: "stored s ?s2 cur (take n data)"
      using stored_trans_Nil[of s s1 cur ?s2] p1 p2(2) cur(1) by (simp add: s1e)
    have "as_mem_ok T R as t \<and> stored ?s2 t (cur + n) (drop n data)"
      using 1(1)[OF False page_def off_def n_def X p2(1) r2] .
    moreover have "length (take n data) = n" by (simp add: n_def)
    ultimately show ?thesis using stored_append[OF st2, of t "drop n data"] by simp
  qed
qed

section \<open>Reserving a range\<close>

lemma stored_Nil_trans: "stored s t c [] \<Longrightarrow> stored t u c' [] \<Longrightarrow> stored s u c'' []"
  using stored_trans_Nil[of s t c u c'' "[]"] by (auto simp: stored_def)

lemma ensure_page_mem:
  assumes X: "mapper_frames_ok X R" "mapper_writes_tables X T" and ok: "as_mem_ok T R as s"
    and res: "ensure_page X flags page s = (Ok (), t)"
  shows "as_mem_ok T R as t \<and> stored s t c [] \<and> bt_get (mapped_pages (fst t)) page \<noteq> None"
proof -
  have v: "virt_ok X page" using res by (auto simp: ensure_page_def virt_new_def slift_def sbind_def
        split: if_splits)
  obtain f where f: "frame_of_page X page flags s = (Ok f, t)"
  proof (cases "bt_get (mapped_pages (fst s)) page")
    case None
    then show ?thesis using res v that
      by (auto simp: ensure_page_def frame_of_page_def virt_new_def slift_def sbind_def sret_def
          split: prod.splits result.splits)
  next
    case (Some g)
    then show ?thesis using res v that
      by (auto simp: ensure_page_def frame_of_page_def virt_new_def slift_def sbind_def)
  qed
  then show ?thesis using frame_of_page_mem[OF X ok f, of c] by simp
qed

lemma ensure_mapped_mem:
  assumes X: "mapper_frames_ok X R" "mapper_writes_tables X T" and ok: "as_mem_ok T R as s"
    and res: "ensure_mapped X vaddr len flags s = (Ok (), t)"
  shows "as_mem_ok T R as t \<and> stored s t c []" and "vaddr + len + 4095 < 2 ^ 64"
    and "\<forall>p \<in> set (pages_between (align_down 4096 vaddr) (align_down 4096 (vaddr + len + 4095))).
      bt_get (mapped_pages (fst t)) p \<noteq> None"
proof -
  let ?ps = "pages_between (align_down 4096 vaddr) (align_down 4096 (vaddr + len + 4095))"
  let ?P = "\<lambda>u. as_mem_ok T R as u \<and> stored s u c []"
  show fits: "vaddr + len + 4095 < 2 ^ 64"
    using res by (auto simp: ensure_mapped_def slift_def sbind_def cadd_def split: if_splits)
  have loop: "sfor (ensure_page X flags) ?ps s = (Ok (), t)"
    using res fits by (simp add: ensure_mapped_def slift_def sbind_def cadd_def)
  have P0: "?P s" using ok stored_Nil by blast
  have "?P t \<and> (\<forall>p \<in> set ?ps. bt_get (mapped_pages (fst t)) p \<noteq> None)"
  proof (rule sfor_covers[where P = ?P, OF loop P0])
    fix p u v assume h: "p \<in> set ?ps" "?P u" "ensure_page X flags p u = (Ok (), v)"
    have "as_mem_ok T R as u" "stored s u c []" using h(2) by auto
    then show "?P v \<and> bt_get (mapped_pages (fst v)) p \<noteq> None"
      using ensure_page_mem[OF X _ h(3), of as c] stored_Nil_trans by blast
  next
    fix x p u v assume h: "p \<in> set ?ps" "?P u" "bt_get (mapped_pages (fst u)) x \<noteq> None"
      "ensure_page X flags p u = (Ok (), v)"
    have inv: "frames_inv R (fst u # as) (snd u)" using h(2) by (simp add: as_mem_ok_def)
    have vo: "virt_ok X p" using h(4) by (auto simp: ensure_page_def virt_new_def slift_def sbind_def
          split: if_splits)
    have "map_of (mapped_pages (fst u)) \<subseteq>\<^sub>m map_of (mapped_pages (fst v))"
      using ensure_page_extends[OF X(1) vo inv h(4)] by (simp add: as_extends_def)
    then show "bt_get (mapped_pages (fst v)) x \<noteq> None" using h(3) by (force simp: map_le_def dom_def)
  qed
  then show "as_mem_ok T R as t \<and> stored s t c []"
    and "\<forall>p \<in> set ?ps. bt_get (mapped_pages (fst t)) p \<noteq> None" by auto
qed

lemma page_multiple_between:
  fixes a b e :: nat
  assumes "a \<le> b" "b < e"
  shows "b * 4096 \<in> (\<lambda>i. a * 4096 + i * 4096) ` {0..<(e * 4096 - a * 4096) div 4096}"
proof (rule image_eqI[of _ _ "b - a"])
  show "b * 4096 = a * 4096 + (b - a) * 4096" using assms(1) by (simp add: diff_mult_distrib)
  have "(e * 4096 - a * 4096) div 4096 = e - a" by (simp flip: diff_mult_distrib)
  then show "b - a \<in> {0..<(e * 4096 - a * 4096) div 4096}" using assms by simp
qed

lemma pages_between_covers:
  assumes "vaddr \<le> v" "v < vaddr + len"
  shows "align_down 4096 v \<in> set (pages_between (align_down 4096 vaddr) (align_down 4096 (vaddr + len + 4095)))"
proof -
  have ab: "vaddr div 4096 \<le> v div 4096" using assms(1) by (rule div_le_mono)
  have "v + 4096 \<le> vaddr + len + 4095" using assms(2) by simp
  then have "(v + 4096) div 4096 \<le> (vaddr + len + 4095) div 4096" by (rule div_le_mono)
  then have be: "v div 4096 < (vaddr + len + 4095) div 4096" by simp
  show ?thesis using page_multiple_between[OF ab be]
    by (simp only: pages_between_def align_down_def set_map set_upt)
qed

lemma user_byte_mapped: "bt_get (mapped_pages a) (align_down 4096 v) \<noteq> None \<longleftrightarrow> user_byte a m v \<noteq> None"
  by (auto simp: user_byte_def split: option.splits)

end
