(* ===== verification/Cow.thy ===== *)
theory Cow
  imports User_Memory
begin

text \<open>
  Copy-on-write faults, \<open>kernel/src/memory/cow.rs\<close>.

  The state is the address space of the current process, if there is one, and the memory
  statics.  The lemmas show that resolving a fault on a shared page gives the faulting
  process a private copy with the same bytes, leaves every byte of every other address space
  as it was, and keeps the reference counts exact; on a page that is not shared it only
  changes the flags.  \<open>mapper_edits_tables\<close> is the hypothesis on the page-table code: removing a
  mapping or changing its flags writes only to the tables.
\<close>

type_synonym cow_st = "address_space option \<times> kmem"

definition on_kmem :: "(kmem, 'a) op \<Rightarrow> (cow_st, 'a) op" where
  "on_kmem m s = (case m (snd s) of (r, k) \<Rightarrow> (r, (fst s, k)))"

definition cow_flags :: "pflags \<Rightarrow> pflags" where
  "cow_flags flags = flags_minus (flags OR WRITABLE) COW_MARKER"

definition set_flags_or_fail :: "x86_ops \<Rightarrow> nat \<Rightarrow> pflags \<Rightarrow> (kmem, unit) op" where
  "set_flags_or_fail X page flags k =
    (case mp_update_flags X (cr3 k) page flags (pm k) of (ok, m) \<Rightarrow>
       (if ok then Ok () else Err ''update_flags failed'', k \<lparr> pm := m \<rparr>))"

definition unmap_or_fail :: "x86_ops \<Rightarrow> nat \<Rightarrow> (kmem, unit) op" where
  "unmap_or_fail X page k =
    (case mp_unmap X (cr3 k) page (pm k) of (r, m) \<Rightarrow>
       (if r \<noteq> None then Ok () else Err ''unmap failed'', k \<lparr> pm := m \<rparr>))"

definition map_or_fail :: "x86_ops \<Rightarrow> nat \<Rightarrow> phys_frame \<Rightarrow> pflags \<Rightarrow> (kmem, unit) op" where
  "map_or_fail X page frame flags k =
    (case falloc k of
       None \<Rightarrow> (Err ''frame alloc non init'', k)
     | Some fa \<Rightarrow>
         (case mp_map_to X (cr3 k) page frame flags (fa, pm k) of (r, fa', m) \<Rightarrow>
            (if r = MapOk then Ok () else Err ''map_to failed'',
             k \<lparr> falloc := Some fa', pm := m \<rparr>)))"

definition copy_frame :: "phys_frame \<Rightarrow> phys_frame \<Rightarrow> kmem \<Rightarrow> kmem" where
  "copy_frame src dst k = k \<lparr> pm := write_bytes (pm k) dst (read_bytes (pm k) src 4096) \<rparr>"

definition cow_counts :: "phys_frame \<Rightarrow> phys_frame \<Rightarrow> kmem \<Rightarrow> kmem" where
  "cow_counts old new k = k \<lparr> refc := rc_set new 1 (snd (rc_dec old (refc k))) \<rparr>"

definition cow_copy :: "x86_ops \<Rightarrow> nat \<Rightarrow> phys_frame \<Rightarrow> pflags \<Rightarrow> (cow_st, unit) op" where
  "cow_copy X page old flags =
    sbind (on_kmem alloc_zeroed_frame) (\<lambda>new.
    sbind (on_kmem (supd (copy_frame old new))) (\<lambda>_.
    sbind (on_kmem (supd (cow_counts old new))) (\<lambda>_.
    sbind (on_kmem (unmap_or_fail X page)) (\<lambda>_.
    sbind (on_kmem (map_or_fail X page new (cow_flags flags))) (\<lambda>_.
    supd (\<lambda>s. (map_option (replace_mapping page new) (fst s), snd s)))))))"

definition try_resolve_cow :: "x86_ops \<Rightarrow> nat \<Rightarrow> (cow_st, unit) op" where
  "try_resolve_cow X addr s =
    (let page = align_down 4096 addr; k = snd s in
     case mp_translate X (cr3 k) addr (pm k) of
       None \<Rightarrow> (Err ''not mapped'', s)
     | Some (frame, flags) \<Rightarrow>
         (let old = align_down 4096 frame in
          if \<not> flags_contain flags COW_MARKER then (Err ''not CoW'', s)
          else if \<not> flags_contain flags USER_ACCESSIBLE then (Err ''not user'', s)
          else if rc_get old (refc k) \<le> 1 then
            on_kmem (set_flags_or_fail X page (cow_flags flags)) s
          else cow_copy X page old flags s))"

definition mark_cow_page :: "x86_ops \<Rightarrow> phys_frame \<Rightarrow> nat \<Rightarrow> (kmem, unit) op" where
  "mark_cow_page X root cur =
    sbind (\<lambda>k. (case mp_translate X root cur (pm k) of
        Some (_, flags) \<Rightarrow>
          (if flags_contain flags USER_ACCESSIBLE \<and> flags_contain flags WRITABLE then
             (Ok (), k \<lparr> pm := snd (mp_update_flags X root cur
                (flags_minus flags WRITABLE OR COW_MARKER) (pm k)) \<rparr>)
           else (Ok (), k))
      | None \<Rightarrow> (Ok (), k)))
    (\<lambda>_. slift (rbind (cadd 64 cur 4096) (\<lambda>n. rbind (virt_new X n) (\<lambda>_. Ok ()))))"

definition mark_range_cow :: "x86_ops \<Rightarrow> phys_frame \<Rightarrow> nat \<Rightarrow> nat \<Rightarrow> (kmem, unit) op" where
  "mark_range_cow X root start fin =
    (let first = align_down 4096 start in
     sfor (mark_cow_page X root)
       (map (\<lambda>i. first + i * 4096) [0..<(fin - first + 4095) div 4096]))"

section \<open>Flags\<close>

lemma cow_flags_writable: "flags_contain (cow_flags f) WRITABLE"
proof -
  have "((f OR WRITABLE) AND NOT COW_MARKER) AND WRITABLE = (f OR WRITABLE) AND (NOT COW_MARKER AND WRITABLE)"
    by (simp only: and.assoc)
  also have "NOT COW_MARKER AND WRITABLE = WRITABLE" by simp
  also have "(f OR WRITABLE) AND WRITABLE = WRITABLE" by (simp add: bit.conj_disj_distrib2)
  finally show ?thesis by (simp only: flags_contain_def cow_flags_def flags_minus_def)
qed

lemma cow_flags_unmarked: "\<not> flags_contain (cow_flags f) COW_MARKER"
proof -
  have "((f OR WRITABLE) AND NOT COW_MARKER) AND COW_MARKER = (f OR WRITABLE) AND (NOT COW_MARKER AND COW_MARKER)"
    by (simp only: and.assoc)
  also have "\<dots> = 0" by simp
  finally show ?thesis by (simp only: flags_contain_def cow_flags_def flags_minus_def) simp
qed

section \<open>Reference counts\<close>

lemma refs_inv_replace:
  assumes inv: "refs_inv R fs k" and new: "new \<in> kfree k" and old: "2 \<le> count_list fs old"
    and k': "kmem_inv R k'" "kfree k' \<subseteq> kfree k - {new}" "kmanaged R k' = kmanaged R k"
      "refc k' = rc_set new 1 (snd (rc_dec old (refc k)))"
    and gs: "\<And>x. count_list gs x + (if x = old then 1 else 0) = count_list fs x + (if x = new then 1 else 0)"
  shows "refs_inv R gs k'"
proof -
  have kinv: "kmem_inv R k" using inv by (simp add: refs_inv_def)
  have newm: "new \<in> kmanaged R k" using new kfree_managed[OF kinv] by auto
  have oldfs: "old \<in> set fs" using old by (metis count_notin not_numeral_le_zero)
  then have oldm: "old \<in> kmanaged R k" using inv by (auto simp: refs_inv_def)
  have newfs: "new \<notin> set fs" using inv new by (auto simp: refs_inv_def)
  then have no: "new \<noteq> old" using oldfs by auto
  have mem: "g = new \<or> g \<in> set fs" if "g \<in> set gs" for g
  proof (rule ccontr)
    assume "\<not> (g = new \<or> g \<in> set fs)"
    then have "count_list gs g = 0" using gs[of g] by (simp add: count_notin)
    then show False using that by (simp add: count_list_0_iff)
  qed
  have counts: "unat (rc_get g (refc k')) = count_list gs g" if g: "g \<in> set gs" for g
  proof (cases "g = new")
    case True
    then show ?thesis using gs[of g] newfs no by (simp add: k'(4) rc_get_set count_notin)
  next
    case False
    then have gf: "g \<in> set fs" using mem[OF g] by simp
    have c: "unat (rc_get g (refc k)) = count_list fs g" using inv gf by (simp add: refs_inv_def)
    have i: "frame_index g \<noteq> frame_index new" "frame_index g = frame_index old \<longleftrightarrow> g = old"
      using refs_inv_index[OF inv newm gf] refs_inv_index[OF inv oldm gf] False by auto
    then show ?thesis using gs[of g] False c rc_get_dec[of g old "refc k"]
      by (cases "g = old") (auto simp: k'(4) rc_get_set)
  qed
  have "set gs \<subseteq> kmanaged R k' - kfree k'"
    using mem inv newm k'(2,3) by (fastforce simp: refs_inv_def)
  then show ?thesis using k'(1) counts by (simp add: refs_inv_def)
qed

section \<open>The private copy\<close>

definition mapper_edits_tables :: "x86_ops \<Rightarrow> (phys_frame \<Rightarrow> mem \<Rightarrow> phys_frame set) \<Rightarrow> bool" where
  "mapper_edits_tables X T \<longleftrightarrow> (\<forall>root page m.
     (\<forall>x. align_down 4096 x \<notin> T root m \<longrightarrow> snd (mp_unmap X root page m) x = m x) \<and>
     T root (snd (mp_unmap X root page m)) \<subseteq> T root m) \<and>
    (\<forall>root page flags m x. align_down 4096 x \<notin> T root m \<longrightarrow>
       snd (mp_update_flags X root page flags m) x = m x)"

lemma copy_frame_bytes:
  assumes "4096 dvd dst"
  shows "write_bytes m dst (read_bytes m src 4096) x =
    (if align_down 4096 x = dst then m (src + x mod 4096) else m x)"
proof (cases "align_down 4096 x = dst")
  case True
  then have x: "x = dst + x mod 4096" using align_down_add_mod[of x] by simp
  have "write_bytes m dst (read_bytes m src 4096) (dst + x mod 4096) = m (src + x mod 4096)"
    by simp
  then show ?thesis using True x by simp
next
  case False
  have "\<not> (dst \<le> x \<and> x < dst + 4096)"
  proof
    assume "dst \<le> x \<and> x < dst + 4096"
    then have "x = dst + (x - dst)" "x - dst < 4096" by auto
    then show False using False align_down_frame[OF assms] by metis
  qed
  then show ?thesis using False by (auto simp: write_bytes_def)
qed

lemma cow_copy_steps:
  assumes X: "mapper_frames_ok X R" "mapper_writes_tables X T" "mapper_edits_tables X T"
    and inv: "frames_inv R (a # as) k"
    and tab: "T (cr3 k) (pm k) \<inter> kfree k = {}" and old4: "old \<notin> kfree k" "4096 dvd old"
    and res: "cow_copy X page old flags (Some a, k) = (Ok (), (c, k'))"
  shows "\<exists>new. new \<in> kfree k \<and> c = Some (replace_mapping page new a) \<and> kmem_inv R k' \<and>
    kfree k' \<subseteq> kfree k - {new} \<and> kmanaged R k' = kmanaged R k \<and>
    refc k' = rc_set new 1 (snd (rc_dec old (refc k))) \<and>
    (\<forall>x. align_down 4096 x \<notin> T (cr3 k) (pm k) \<union> (kfree k - {new}) \<longrightarrow>
       pm k' x = (if align_down 4096 x = new then pm k (old + x mod 4096) else pm k x))"
proof -
  have kinv: "kmem_inv R k" by (rule frames_inv_kmem[OF inv])
  have ne: "kfree k \<noteq> {}"
    using res alloc_zeroed_frame_empty[OF kinv] by (auto simp: cow_copy_def sbind_def on_kmem_def)
  define new where "new = Min (kfree k)"
  obtain k1 where k1: "alloc_zeroed_frame k = (Ok new, k1)" "kmem_inv R k1" "kfree k1 = kfree k - {new}"
      "kmanaged R k1 = kmanaged R k" "pm k1 = fill_bytes (pm k) new 0 4096" "refc k1 = refc k" "cr3 k1 = cr3 k"
    using alloc_zeroed_frame_some[OF kinv ne] unfolding new_def by blast
  have newk: "new \<in> kfree k" using ne by (simp add: new_def)
  then have n4: "4096 dvd new" by (rule kfree_aligned)
  let ?k3 = "cow_counts old new (copy_frame old new k1)"
  have pm3: "pm ?k3 x = (if align_down 4096 x = new then pm k (old + x mod 4096) else pm k x)" for x
  proof -
    have "old \<noteq> new" using old4 newk by auto
    moreover have "align_down 4096 (old + x mod 4096) = old" by (rule align_down_frame[OF old4(2)]) simp
    ultimately show ?thesis
      by (simp add: cow_counts_def copy_frame_def copy_frame_bytes[OF n4] k1(5) fill_bytes_frame[OF n4])
  qed
  have c3: "cr3 ?k3 = cr3 k" using k1(7) by (simp add: cow_counts_def copy_frame_def)
  have T3: "T (cr3 k) (pm ?k3) = T (cr3 k) (pm k)"
    by (rule tables_cong[OF X(2)]) (use tab newk in \<open>auto simp: pm3\<close>)
  obtain u m4 where m4: "mp_unmap X (cr3 k) page (pm ?k3) = (Some u, m4)"
    using res k1(1) c3 by (cases "mp_unmap X (cr3 k) page (pm ?k3)")
      (auto simp: cow_copy_def sbind_def on_kmem_def supd_def unmap_or_fail_def split: if_splits)
  let ?k4 = "?k3 \<lparr> pm := m4 \<rparr>"
  have k4: "kmem_inv R ?k4" "kfree ?k4 = kfree k - {new}" "kmanaged R ?k4 = kmanaged R k"
      "refc ?k4 = rc_set new 1 (snd (rc_dec old (refc k)))" "cr3 ?k4 = cr3 k"
    using k1 by (simp_all add: cow_counts_def copy_frame_def kmem_inv_def kfree_def kmanaged_def)
  obtain fa where fa: "falloc ?k4 = Some fa" using k4(1) by (rule kmem_invE)
  obtain q fa' m5 where q: "mp_map_to X (cr3 k) page new (cow_flags flags) (fa, pm ?k4) = (q, fa', m5)"
    by (cases "mp_map_to X (cr3 k) page new (cow_flags flags) (fa, pm ?k4)") auto
  let ?k5 = "?k4 \<lparr> falloc := Some fa', pm := m5 \<rparr>"
  have out: "c = Some (replace_mapping page new a)" "k' = ?k5"
    using res k1(1) c3 m4 fa q k4(5)
    by (auto simp: cow_copy_def sbind_def on_kmem_def supd_def unmap_or_fail_def map_or_fail_def
        split: if_splits)
  note k5 = mapper_kmem[OF X(1) k4(1) fa q]
  have ed: "(\<forall>x. align_down 4096 x \<notin> T (cr3 k) (pm k) \<longrightarrow> m4 x = pm ?k3 x) \<and> T (cr3 k) m4 \<subseteq> T (cr3 k) (pm k)"
    using X(3)[unfolded mapper_edits_tables_def, THEN conjunct1, THEN spec[of _ "cr3 k"], THEN spec[of _ page],
        THEN spec[of _ "pm ?k3"]]
    by (simp add: m4 T3)
  have free: "free_frames fa = kfree k - {new}" using fa k4(2) by (simp add: kfree_def)
  have "m5 x = m4 x" if "align_down 4096 x \<notin> T (cr3 k) (pm k) \<union> (kfree k - {new})" for x
    using mapper_memD(1)[OF X(2) q, of x] that ed free by auto
  then have "pm k' x = (if align_down 4096 x = new then pm k (old + x mod 4096) else pm k x)"
    if "align_down 4096 x \<notin> T (cr3 k) (pm k) \<union> (kfree k - {new})" for x
    using that ed pm3[of x] out(2) by simp
  moreover have "kfree k' \<subseteq> kfree k - {new}" using k5(2) k4(2) out(2) by simp
  ultimately show ?thesis using newk out k5 k4(3,4) by (intro exI[of _ new]) simp
qed

lemma cow_copy_props:
  assumes X: "mapper_frames_ok X R" "mapper_writes_tables X T" "mapper_edits_tables X T"
    and inv: "frames_inv R (a # as) k"
    and tab: "T (cr3 k) (pm k) \<inter> (kfree k \<union> set (as_frames (a # as))) = {}"
    and page: "bt_get (mapped_pages a) page = Some old" "4096 dvd page"
    and shared: "2 \<le> rc_get old (refc k)"
    and res: "cow_copy X page old flags (Some a, k) = (Ok (), (c, k'))"
  obtains new where "c = Some (replace_mapping page new a)" "frames_inv R (replace_mapping page new a # as) k'"
    "new \<notin> set (as_frames (a # as))" "new \<notin> kfree k'"
    "\<And>v. user_byte (replace_mapping page new a) (pm k') v = user_byte a (pm k) v"
    "\<And>b v. b \<in> set as \<Longrightarrow> user_byte b (pm k') v = user_byte b (pm k) v"
proof -
  note o = mapped_frame_aligned[OF inv page(1)]
  have tk: "T (cr3 k) (pm k) \<inter> kfree k = {}" using tab by auto
  obtain new where n: "new \<in> kfree k" "c = Some (replace_mapping page new a)" "kmem_inv R k'"
      "kfree k' \<subseteq> kfree k - {new}" "kmanaged R k' = kmanaged R k"
      "refc k' = rc_set new 1 (snd (rc_dec old (refc k)))"
    and mem: "\<And>x. align_down 4096 x \<notin> T (cr3 k) (pm k) \<union> (kfree k - {new}) \<Longrightarrow>
       pm k' x = (if align_down 4096 x = new then pm k (old + x mod 4096) else pm k x)"
    using cow_copy_steps[OF X inv tk o(2,1) res] by blast
  let ?b = "replace_mapping page new a"
  have al: "align_down 4096 page = page" using align_down_frame[OF page(2), of 0] by simp
  have mp: "mapped_pages ?b = bt_insert page new (mapped_pages a)" by (simp add: replace_mapping_def al)
  have refs: "refs_inv R (as_frames (a # as)) k" using inv by (simp only: frames_inv_def)
  have ok: "bt_ok (mapped_pages a)" using inv by (simp add: frames_inv_def)
  have oin: "old \<in> set (as_frames (a # as))" using o(3) by simp
  have two: "2 \<le> count_list (as_frames (a # as)) old"
    using refs oin shared by (auto simp: refs_inv_def word_le_nat_alt)
  have newf: "new \<notin> set (as_frames (a # as))" using refs n(1) by (auto simp: refs_inv_def)
  have cnt: "count_list (as_frames (?b # as)) x + (if x = old then 1 else 0) =
      count_list (as_frames (a # as)) x + (if x = new then 1 else 0)" for x
    using count_bt_insert_replace[OF ok page(1), of new x] mp by simp
  have rb: "refs_inv R (as_frames (?b # as)) k'"
    by (rule refs_inv_replace[OF refs n(1) two n(3-6) cnt])
  have sub: "set (as_frames (?b # as)) \<subseteq> insert new (set (as_frames (a # as)))"
    using set_bt_insert[of page new "mapped_pages a"] by (auto simp: mp)
  have P: "p4 ` set (a # as) \<inter> set (as_frames (a # as)) = {}"
      "p4 ` set (a # as) \<subseteq> kmanaged R k - kfree k" "distinct (map p4 (a # as))"
      "\<forall>c \<in> set (a # as). bt_ok (mapped_pages c)"
    using inv unfolding frames_inv_def by blast+
  have "p4 ` set (a # as) \<inter> set (as_frames (?b # as)) = {}" using P(1,2) sub n(1) by blast
  moreover have "p4 ` set (?b # as) = p4 ` set (a # as)" "map p4 (?b # as) = map p4 (a # as)"
    by (simp_all add: replace_mapping_def)
  moreover have "\<forall>c \<in> set (?b # as). bt_ok (mapped_pages c)" using P(4) mp by simp
  moreover have "p4 ` set (a # as) \<subseteq> kmanaged R k' - kfree k'" using P(2) n(4,5) by blast
  ultimately have fb: "frames_inv R (?b # as) k'" using rb P(3) unfolding frames_inv_def by metis
  have bytes: "pm k' (f + i) = pm k (f + i)" if "f \<in> set (as_frames (a # as))" "i < 4096" for f i
  proof -
    have "f \<in> kmanaged R k - kfree k" using refs that(1) by (auto simp: refs_inv_def)
    then have "align_down 4096 (f + i) = f" "f \<notin> kfree k" using kmanaged_aligned align_down_frame that(2) by blast+
    moreover have "f \<noteq> new" "f \<notin> T (cr3 k) (pm k)" using that(1) newf tab by auto
    ultimately show ?thesis using mem[of "f + i"] by simp
  qed
  have newb: "pm k' (new + i) = pm k (old + i)" if "i < 4096" for i
  proof -
    have n4: "4096 dvd new" by (rule kfree_aligned[OF n(1)])
    have "new \<notin> T (cr3 k) (pm k)" using n(1) tk by auto
    moreover have "(new + i) mod 4096 = i" using n4 that by (auto elim!: dvdE)
    ultimately show ?thesis using mem[of "new + i"] align_down_frame[OF n4 that] by simp
  qed
  have "user_byte ?b (pm k') v = user_byte a (pm k) v" for v
  proof (cases "align_down 4096 v = page")
    case True
    then show ?thesis using page(1) newb[of "v mod 4096"] by (simp add: user_byte_def mp)
  next
    case False
    show ?thesis
    proof (cases "bt_get (mapped_pages a) (align_down 4096 v)")
      case (Some f)
      then have "f \<in> set (as_frames (a # as))" using mapped_frame_aligned(3)[OF inv Some] by simp
      then show ?thesis using Some False bytes[of f "v mod 4096"] by (simp add: user_byte_def mp)
    qed (use False in \<open>simp add: user_byte_def mp\<close>)
  qed
  moreover have "user_byte b (pm k') v = user_byte b (pm k) v" if "b \<in> set as" for b v
  proof (cases "bt_get (mapped_pages b) (align_down 4096 v)")
    case (Some f)
    then have "f \<in> set (bt_values (mapped_pages b))" by (force dest: map_of_SomeD)
    then have "f \<in> set (as_frames (a # as))" using that by (auto simp: as_frames_def)
    then show ?thesis using Some bytes[of f "v mod 4096"] by (simp add: user_byte_def)
  qed (simp add: user_byte_def)
  moreover have "new \<notin> kfree k'" using n(4) by auto
  ultimately show ?thesis using that[OF n(2) fb newf] by blast
qed

section \<open>The whole resolution\<close>

lemma user_byte_outside:
  assumes "frames_inv R as k" "b \<in> set as" "\<And>x. align_down 4096 x \<in> set (as_frames as) \<Longrightarrow> m x = pm k x"
  shows "user_byte b m v = user_byte b (pm k) v"
proof (cases "bt_get (mapped_pages b) (align_down 4096 v)")
  case (Some f)
  then have f: "f \<in> set (as_frames as)"
    using assms(2) map_of_SomeD[OF Some] by (force simp: as_frames_def)
  then have "4096 dvd f" using assms(1) kmanaged_aligned[of f R k]
    by (auto simp: frames_inv_def refs_inv_def)
  then have "align_down 4096 (f + v mod 4096) = f" by (rule align_down_frame) simp
  then show ?thesis using Some f assms(3)[of "f + v mod 4096"] by (simp add: user_byte_def)
qed (simp add: user_byte_def)

lemma cow_unshared_props:
  assumes X: "mapper_edits_tables X T" and inv: "frames_inv R (a # as) k"
    and tab: "T (cr3 k) (pm k) \<inter> set (as_frames (a # as)) = {}"
    and page: "bt_get (mapped_pages a) page = Some old" and one: "rc_get old (refc k) \<le> 1"
    and res: "on_kmem (set_flags_or_fail X page flags) (Some a, k) = (Ok (), (c, k'))"
  shows "c = Some a" "frames_inv R (a # as) k'" "old \<notin> set (as_frames as)"
    "b \<in> set (a # as) \<Longrightarrow> user_byte b (pm k') v = user_byte b (pm k) v"
proof -
  define m where "m = snd (mp_update_flags X (cr3 k) page flags (pm k))"
  have k': "c = Some a" "k' = k \<lparr> pm := m \<rparr>" using res
    by (auto simp: on_kmem_def set_flags_or_fail_def m_def split: prod.splits if_splits)
  then show "c = Some a" by simp
  show inv': "frames_inv R (a # as) k'"
    by (rule frames_inv_mono[OF inv])
      (use frames_inv_kmem[OF inv] in \<open>simp_all add: k' kmem_inv_def kfree_def kmanaged_def\<close>)
  have "old \<in> set (as_frames (a # as))" using mapped_frame_aligned(3)[OF inv page] by simp
  then have "unat (rc_get old (refc k)) = count_list (as_frames (a # as)) old"
    using inv unfolding frames_inv_def refs_inv_def by blast
  moreover have "0 < count_list (bt_values (mapped_pages a)) old"
    using mapped_frame_aligned(3)[OF inv page] count_list_0_iff[of "bt_values (mapped_pages a)" old] by simp
  ultimately have "count_list (as_frames as) old = 0" using one by (simp add: word_le_nat_alt)
  then show "old \<notin> set (as_frames as)" by (simp add: count_list_0_iff)
  show "user_byte b (pm k') v = user_byte b (pm k) v" if "b \<in> set (a # as)"
  proof (rule user_byte_outside[OF inv that])
    fix x assume "align_down 4096 x \<in> set (as_frames (a # as))"
    then have "align_down 4096 x \<notin> T (cr3 k) (pm k)" using tab by blast
    then show "pm k' x = pm k x"
      using X[unfolded mapper_edits_tables_def, THEN conjunct2, rule_format, of x "cr3 k" "pm k" page flags]
      by (simp add: k' m_def)
  qed
qed

end
