(* ===== verification/Sample_Machine.thy ===== *)
theory Sample_Machine
  imports Cow
begin

text \<open>
  A small machine on which the witnesses run: an eight-frame allocator with two frames taken, a memory
  whose bytes name their addresses, one address space with one page, and a page-table crate that accepts
  every mapping.
\<close>

definition sample_fa :: frame_allocator where
  "sample_fa = \<lparr> bitmap = [0x03], num_frames = 8, next_free = 0, used = 2 \<rparr>"

definition sample_kmem :: kmem where
  "sample_kmem = \<lparr> pm = (\<lambda>x. of_nat x), falloc = Some sample_fa, refc = [0, 1], cr3 = 0, kmapper = Some 0 \<rparr>"

definition sample_as :: address_space where
  "sample_as = \<lparr> p4 = 0, mapped_pages = [(0x400000, 0x1000)] \<rparr>"

definition sample_x86 :: x86_ops where
  "sample_x86 = \<lparr> virt_ok = (\<lambda>_. True), phys_ok = (\<lambda>_. True),
     mp_map_to = (\<lambda>root page frame flags s. (MapOk, s)),
     mp_unmap = (\<lambda>root page m. (Some 0, m)), mp_update_flags = (\<lambda>root page flags m. (True, m)),
     mp_translate = (\<lambda>root page m. Some (0x1000, PRESENT OR USER_ACCESSIBLE OR COW_MARKER)),
     mp_translate_addr = (\<lambda>root page m. Some 0x1000),
     pte_flags = (\<lambda>e. e), pte_addr = (\<lambda>e. 0), pte_new = (\<lambda>a f. f) \<rparr>"

lemma upto8: "[0..<8] = [0, 1, 2, 3, 4, 5, 6, 7 :: nat]"
  by code_simp

lemma sample_bits: "occupied [0x03] 0" "occupied [0x03] (Suc 0)"
  "\<not> occupied [0x03] 2" "\<not> occupied [0x03] 3" "\<not> occupied [0x03] 4" "\<not> occupied [0x03] 5"
  "\<not> occupied [0x03] 6" "\<not> occupied [0x03] 7"
  by (code_simp)+

lemma sample_fa_free: "free_frames sample_fa = {0x2000, 0x3000, 0x4000, 0x5000, 0x6000, 0x7000}"
  by (simp add: free_frames_def sample_fa_def upto8 sample_bits)

lemma sample_fa_managed:
  "managed_frames {} sample_fa = {0, 0x1000, 0x2000, 0x3000, 0x4000, 0x5000, 0x6000, 0x7000}"
  by (simp add: managed_frames_def sample_fa_def upto8)

lemma sample_fa_inv: "fa_inv {} sample_fa"
  by (simp add: fa_inv_def sample_fa_def counted_def upto8 sample_bits)

lemma sample_kfree: "kfree sample_kmem = {0x2000, 0x3000, 0x4000, 0x5000, 0x6000, 0x7000}"
  by (simp add: kfree_def sample_kmem_def sample_fa_free)

lemma sample_frames_inv: "frames_inv {} [sample_as] sample_kmem"
proof -
  have "kmem_inv {} sample_kmem" by (simp add: kmem_inv_def sample_kmem_def sample_fa_inv)
  moreover have "kmanaged {} sample_kmem = {0, 0x1000, 0x2000, 0x3000, 0x4000, 0x5000, 0x6000, 0x7000}"
    by (simp add: kmanaged_def sample_kmem_def sample_fa_managed)
  moreover have "unat (rc_get 0x1000 (refc sample_kmem)) = 1" by code_simp
  ultimately show ?thesis
    by (auto simp: frames_inv_def refs_inv_def as_frames_def sample_as_def sample_kfree bt_ok_Cons)
qed

lemma sample_mapper: "mapper_frames_ok sample_x86 {}"
  "mapper_writes_tables sample_x86 (\<lambda>root m. {root})" "mapper_edits_tables sample_x86 (\<lambda>root m. {root})"
  by (auto simp: mapper_frames_ok_def mapper_writes_tables_def mapper_edits_tables_def sample_x86_def)

text \<open>Two address spaces on the same frame, with their root tables in frames 0 and 2.\<close>

definition shared_kmem :: kmem where
  "shared_kmem = sample_kmem \<lparr> falloc := Some \<lparr> bitmap = [0x07], num_frames = 8, next_free = 0, used = 3 \<rparr>,
     refc := [0, 2] \<rparr>"

definition sharing_as :: address_space where
  "sharing_as = \<lparr> p4 = 0x2000, mapped_pages = [(0x700000, 0x1000)] \<rparr>"

lemma shared_bits: "occupied [0x07] 0" "occupied [0x07] (Suc 0)" "occupied [0x07] 2"
  "\<not> occupied [0x07] 3" "\<not> occupied [0x07] 4" "\<not> occupied [0x07] 5"
  "\<not> occupied [0x07] 6" "\<not> occupied [0x07] 7"
  by (code_simp)+

lemma shared_kfree: "kfree shared_kmem = {0x3000, 0x4000, 0x5000, 0x6000, 0x7000}"
  by (simp add: kfree_def shared_kmem_def free_frames_def upto8 shared_bits)

lemma shared_frames_inv: "frames_inv {} [sample_as, sharing_as] shared_kmem"
proof -
  have "kmem_inv {} shared_kmem"
    by (simp add: kmem_inv_def shared_kmem_def fa_inv_def counted_def upto8 shared_bits)
  moreover have "kmanaged {} shared_kmem = {0, 0x1000, 0x2000, 0x3000, 0x4000, 0x5000, 0x6000, 0x7000}"
    by (simp add: kmanaged_def shared_kmem_def managed_frames_def upto8)
  moreover have "unat (rc_get 0x1000 (refc shared_kmem)) = 2" by code_simp
  ultimately show ?thesis
    by (auto simp: frames_inv_def refs_inv_def as_frames_def sample_as_def sharing_as_def shared_kfree bt_ok_Cons)
qed

end
