(* ===== verification/Elf.thy ===== *)
theory Elf
  imports User_Memory
begin

text \<open>
  The ELF64 loader, \<open>kernel/src/fs/elf.rs\<close>.

  The headers are read at their C offsets.  \<open>elf_image\<close> is the specification: the bytes a list
  of program headers puts at each virtual address.  The lemmas show that a load that
  succeeds makes the address space agree with the image (file bytes where a segment has file
  bytes, 0 in the rest of each segment), and which malformed headers are refused with
  which error; the sums of header fields that overflow panic.
\<close>

section \<open>Headers\<close>

record ehdr =
  e_ident :: bytes
  e_type :: nat
  e_machine :: nat
  e_version :: nat
  e_entry :: nat
  e_phoff :: nat
  e_shoff :: nat
  e_flags :: nat
  e_ehsize :: nat
  e_phentsize :: nat
  e_phnum :: nat
  e_shentsize :: nat
  e_shnum :: nat
  e_shstrndx :: nat

record phdr =
  p_type :: nat
  p_flags :: u32
  p_offset :: nat
  p_vaddr :: nat
  p_paddr :: nat
  p_filesz :: nat
  p_memsz :: nat
  p_align :: nat

record loaded_elf =
  entry :: nat
  highest_vaddr :: nat

definition le_field :: "bytes \<Rightarrow> nat \<Rightarrow> nat \<Rightarrow> nat" where
  "le_field bin off n = le_nat (take n (drop off bin))"

definition read_ehdr :: "bytes \<Rightarrow> ehdr" where
  "read_ehdr bin = \<lparr> e_ident = take 16 bin, e_type = le_field bin 16 2, e_machine = le_field bin 18 2,
     e_version = le_field bin 20 4, e_entry = le_field bin 24 8, e_phoff = le_field bin 32 8,
     e_shoff = le_field bin 40 8, e_flags = le_field bin 48 4, e_ehsize = le_field bin 52 2,
     e_phentsize = le_field bin 54 2, e_phnum = le_field bin 56 2, e_shentsize = le_field bin 58 2,
     e_shnum = le_field bin 60 2, e_shstrndx = le_field bin 62 2 \<rparr>"

definition read_phdr :: "bytes \<Rightarrow> nat \<Rightarrow> phdr" where
  "read_phdr bin off = \<lparr> p_type = le_field bin off 4, p_flags = of_nat (le_field bin (off + 4) 4),
     p_offset = le_field bin (off + 8) 8, p_vaddr = le_field bin (off + 16) 8,
     p_paddr = le_field bin (off + 24) 8, p_filesz = le_field bin (off + 32) 8,
     p_memsz = le_field bin (off + 40) 8, p_align = le_field bin (off + 48) 8 \<rparr>"

section \<open>Loading\<close>

definition segment_flags :: "phdr \<Rightarrow> pflags" where
  "segment_flags ph =
    (if p_flags ph AND 2 \<noteq> 0 then PRESENT OR USER_ACCESSIBLE OR WRITABLE else PRESENT OR USER_ACCESSIBLE)"

definition copy_segment :: "x86_ops \<Rightarrow> bytes \<Rightarrow> phdr \<Rightarrow> (as_st, unit) op" where
  "copy_segment X bin ph =
    (if 0 < p_filesz ph then
       sbind (slift (cadd 64 (p_offset ph) (p_filesz ph))) (\<lambda>src_end.
       if length bin < src_end then serr ''ELF: segment hors fichier''
       else sbind (slift (rslice bin (p_offset ph) src_end)) (\<lambda>src.
            write_data X (segment_flags ph) (p_vaddr ph) src))
     else sret ())"

definition load_segment :: "x86_ops \<Rightarrow> bytes \<Rightarrow> phdr \<Rightarrow> nat \<Rightarrow> (as_st, nat) op" where
  "load_segment X bin ph highest =
    (if p_type ph \<noteq> 1 then sret highest
     else if p_memsz ph < p_filesz ph then serr ''ELF: p_filesz > p_memsz''
     else if p_memsz ph = 0 then sret highest
     else
       sbind (slift (cadd 64 (p_vaddr ph) (p_memsz ph))) (\<lambda>seg_end.
       sbind (slift (virt_new X (p_vaddr ph))) (\<lambda>va.
       sbind (ensure_mapped X va (p_memsz ph) (segment_flags ph)) (\<lambda>_.
       sbind (copy_segment X bin ph) (\<lambda>_.
       sret (if highest < seg_end then seg_end else highest))))))"

primrec load_segments :: "x86_ops \<Rightarrow> bytes \<Rightarrow> phdr list \<Rightarrow> nat \<Rightarrow> (as_st, nat) op" where
  "load_segments X bin [] highest = sret highest"
| "load_segments X bin (ph # phs) highest =
     sbind (load_segment X bin ph highest) (load_segments X bin phs)"

definition check_ehdr :: "ehdr \<Rightarrow> unit result" where
  "check_ehdr h =
    (if e_ident h ! 0 \<noteq> 0x7f \<or> e_ident h ! 1 \<noteq> 0x45 \<or> e_ident h ! 2 \<noteq> 0x4C \<or> e_ident h ! 3 \<noteq> 0x46
     then Err ''ELF: magic invalide''
     else if e_ident h ! 4 \<noteq> 2 then Err ''ELF: pas ELF64''
     else if e_ident h ! 5 \<noteq> 1 then Err ''ELF: pas little-endian''
     else if e_machine h \<noteq> 62 then Err ''ELF: pas x86_64''
     else if e_type h \<noteq> 2 \<and> e_type h \<noteq> 3 then Err ''ELF: type non supporte (EXEC/DYN requis)''
     else if e_phentsize h \<noteq> 56 then Err ''ELF: e_phentsize inattendu''
     else Ok ())"

definition phdr_list :: "bytes \<Rightarrow> ehdr \<Rightarrow> phdr list" where
  "phdr_list bin h = map (\<lambda>i. read_phdr bin (e_phoff h + i * e_phentsize h)) [0..<e_phnum h]"

definition elf_load :: "x86_ops \<Rightarrow> bytes \<Rightarrow> (as_st, loaded_elf) op" where
  "elf_load X bin =
    (if length bin < 64 then serr ''ELF: fichier tronque''
     else let h = read_ehdr bin in
       sbind (slift (check_ehdr h)) (\<lambda>_.
       sbind (slift (cadd 64 (e_phoff h) (e_phentsize h * e_phnum h))) (\<lambda>ph_end.
       if length bin < ph_end then serr ''ELF: program headers hors fichier''
       else sbind (load_segments X bin (phdr_list bin h) 0) (\<lambda>highest.
         if e_entry h = 0 then serr ''ELF: e_entry = 0''
         else sbind (slift (virt_new X (e_entry h))) (\<lambda>ev.
           sret \<lparr> entry = ev, highest_vaddr = highest \<rparr>)))))"

definition map_user_stack :: "x86_ops \<Rightarrow> nat \<Rightarrow> nat \<Rightarrow> (as_st, nat) op" where
  "map_user_stack X stack_top pages =
    sbind (slift (rbind (cmul 64 pages 4096) (csub stack_top))) (\<lambda>base.
    sbind (sfor (\<lambda>i. sbind (slift (virt_new X (base + i * 4096))) (\<lambda>page.
             sbind (map_alloc X page (PRESENT OR WRITABLE OR USER_ACCESSIBLE)) (\<lambda>_. sret ())))
           [0..<pages]) (\<lambda>_.
    slift (rbind (csub stack_top 16) (virt_new X))))"

section \<open>The image of a program\<close>

definition loadable :: "phdr \<Rightarrow> bool" where
  "loadable ph \<longleftrightarrow> p_type ph = 1 \<and> p_memsz ph \<noteq> 0"

definition in_file :: "phdr \<Rightarrow> nat \<Rightarrow> bool" where
  "in_file ph v \<longleftrightarrow> loadable ph \<and> p_vaddr ph \<le> v \<and> v < p_vaddr ph + p_filesz ph"

definition in_segment :: "phdr \<Rightarrow> nat \<Rightarrow> bool" where
  "in_segment ph v \<longleftrightarrow> loadable ph \<and> p_vaddr ph \<le> v \<and> v < p_vaddr ph + p_memsz ph"

definition elf_image :: "bytes \<Rightarrow> phdr list \<Rightarrow> nat \<Rightarrow> u8 option" where
  "elf_image bin phs v =
    foldl (\<lambda>b ph. if in_file ph v then Some (bin ! (p_offset ph + (v - p_vaddr ph))) else b) None phs"

text \<open>\<open>shows_image bin phs s\<close>: the user bytes of \<open>s\<close> are those of the image, and 0 where a segment
  has no file bytes.\<close>

definition shows_image :: "bytes \<Rightarrow> phdr list \<Rightarrow> as_st \<Rightarrow> bool" where
  "shows_image bin phs s \<longleftrightarrow> (\<forall>v.
     (case elf_image bin phs v of Some b \<Rightarrow> ubyte s v = Some b | None \<Rightarrow> ubyte s v \<in> {None, Some 0}) \<and>
     ((\<exists>ph \<in> set phs. in_segment ph v) \<longrightarrow> ubyte s v \<noteq> None))"

lemma elf_image_snoc:
  "elf_image bin (phs @ [ph]) v =
    (if in_file ph v then Some (bin ! (p_offset ph + (v - p_vaddr ph))) else elf_image bin phs v)"
  by (simp add: elf_image_def)

lemma load_segment_skip:
  assumes "load_segment X bin ph highest s = (Ok h, t)" "\<not> loadable ph"
  shows "t = s \<and> h = highest"
  using assms by (auto simp: load_segment_def loadable_def sret_def serr_def split: if_splits)

lemma load_segment_run:
  assumes res: "load_segment X bin ph highest s = (Ok h, t)" and l: "loadable ph"
  obtains u where "ensure_mapped X (p_vaddr ph) (p_memsz ph) (segment_flags ph) s = (Ok (), u)"
    "copy_segment X bin ph u = (Ok (), t)" "p_filesz ph \<le> p_memsz ph"
proof -
  have ph: "p_type ph = 1" "p_memsz ph \<noteq> 0" using l by (auto simp: loadable_def)
  have fz: "p_filesz ph \<le> p_memsz ph"
    using res ph by (auto simp: load_segment_def serr_def split: if_splits)
  have "sbind (slift (cadd 64 (p_vaddr ph) (p_memsz ph))) (\<lambda>seg_end.
       sbind (slift (virt_new X (p_vaddr ph))) (\<lambda>va.
       sbind (ensure_mapped X va (p_memsz ph) (segment_flags ph)) (\<lambda>_.
       sbind (copy_segment X bin ph) (\<lambda>_.
       sret (if highest < seg_end then seg_end else highest))))) s = (Ok h, t)"
    using res ph fz by (simp add: load_segment_def)
  then obtain e where "sbind (slift (virt_new X (p_vaddr ph))) (\<lambda>va.
       sbind (ensure_mapped X va (p_memsz ph) (segment_flags ph)) (\<lambda>_.
       sbind (copy_segment X bin ph) (\<lambda>_.
       sret (if highest < e then e else highest)))) s = (Ok h, t)"
    by (auto simp: slift_def elim: sbind_OkE)
  then have "sbind (ensure_mapped X (p_vaddr ph) (p_memsz ph) (segment_flags ph)) (\<lambda>_.
       sbind (copy_segment X bin ph) (\<lambda>_. sret (if highest < e then e else highest))) s = (Ok h, t)"
    by (auto simp: slift_def virt_new_def elim: sbind_OkE split: if_splits)
  then obtain u where u: "ensure_mapped X (p_vaddr ph) (p_memsz ph) (segment_flags ph) s = (Ok (), u)"
    and r: "sbind (copy_segment X bin ph) (\<lambda>_. sret (if highest < e then e else highest)) u = (Ok h, t)"
    by (auto elim: sbind_OkE)
  from r have "copy_segment X bin ph u = (Ok (), t)"
    by (auto simp: sret_def elim: sbind_OkE)
  then show ?thesis using that u fz by blast
qed

lemma copy_segment_run:
  assumes "copy_segment X bin ph u = (Ok (), t)" "0 < p_filesz ph"
  shows "p_offset ph + p_filesz ph \<le> length bin"
    "write_data X (segment_flags ph) (p_vaddr ph) (take (p_filesz ph) (drop (p_offset ph) bin)) u = (Ok (), t)"
  using assms
  by (auto simp: copy_segment_def sbind_def slift_def cadd_def serr_def rslice_def split: if_splits)

lemma load_segment_image:
  assumes X: "mapper_frames_ok X R" "mapper_writes_tables X T" and ok: "as_mem_ok T R as s"
    and img: "shows_image bin phs s" and res: "load_segment X bin ph highest s = (Ok h, t)"
  shows "as_mem_ok T R as t \<and> shows_image bin (phs @ [ph]) t"
proof (cases "loadable ph")
  case False
  then have "t = s" using load_segment_skip[OF res] by simp
  moreover have "\<not> in_file ph v" "\<not> in_segment ph v" for v using False by (auto simp: in_file_def in_segment_def)
  ultimately show ?thesis using ok img by (simp add: shows_image_def elf_image_snoc)
next
  case True
  let ?d = "if 0 < p_filesz ph then take (p_filesz ph) (drop (p_offset ph) bin) else []"
  obtain u where u: "ensure_mapped X (p_vaddr ph) (p_memsz ph) (segment_flags ph) s = (Ok (), u)"
      "copy_segment X bin ph u = (Ok (), t)" "p_filesz ph \<le> p_memsz ph"
    using load_segment_run[OF res True] .
  have e: "as_mem_ok T R as u" "stored s u (p_vaddr ph) []"
    using ensure_mapped_mem(1)[OF X ok u(1)] by auto
  have t: "as_mem_ok T R as t \<and> stored u t (p_vaddr ph) ?d"
  proof (cases "0 < p_filesz ph")
    case True
    then show ?thesis using write_data_contents[OF X _ copy_segment_run(2)[OF u(2) True], of as] e(1) by simp
  next
    case False
    then show ?thesis using u(2) e(1) stored_Nil by (simp add: copy_segment_def sret_def)
  qed
  have st: "stored s t (p_vaddr ph) ?d" using stored_trans_Nil[OF e(2)] t by blast
  have len: "length ?d = p_filesz ph" using copy_segment_run(1)[OF u(2)] by auto
  have inside: "ubyte t v = Some (bin ! (p_offset ph + (v - p_vaddr ph)))" if "in_file ph v" for v
  proof -
    have v: "v - p_vaddr ph < length ?d" "p_vaddr ph + (v - p_vaddr ph) = v" "0 < p_filesz ph"
      using that len by (auto simp: in_file_def)
    then have "?d ! (v - p_vaddr ph) = bin ! (p_offset ph + (v - p_vaddr ph))"
      using copy_segment_run(1)[OF u(2)] by (simp add: in_file_def)
    then show ?thesis using stored_in[OF st v(1)] v(2) by simp
  qed
  have outside: "case elf_image bin phs v of Some b \<Rightarrow> ubyte t v = Some b | None \<Rightarrow> ubyte t v \<in> {None, Some 0}"
    if "\<not> in_file ph v" for v
  proof -
    have "\<not> (p_vaddr ph \<le> v \<and> v < p_vaddr ph + length ?d)"
      using that True len by (auto simp: in_file_def)
    then have o: "case ubyte s v of Some b \<Rightarrow> ubyte t v = Some b | None \<Rightarrow> ubyte t v \<in> {None, Some 0}"
      by (rule stored_out[OF st])
    have "case elf_image bin phs v of Some b \<Rightarrow> ubyte s v = Some b | None \<Rightarrow> ubyte s v \<in> {None, Some 0}"
      using img by (simp add: shows_image_def)
    then show ?thesis using o by (auto split: option.splits)
  qed
  have cover: "ubyte t v \<noteq> None" if "in_segment p v" "p \<in> set (phs @ [ph])" for p v
  proof (cases "p \<in> set phs")
    case True
    then have "ubyte s v \<noteq> None" using img that(1) unfolding shows_image_def by blast
    then show ?thesis by (rule stored_mapped[OF st])
  next
    case False
    then have "p_vaddr ph \<le> v" "v < p_vaddr ph + p_memsz ph" using that by (auto simp: in_segment_def)
    then have "bt_get (mapped_pages (fst u)) (align_down 4096 v) \<noteq> None"
      using ensure_mapped_mem(3)[OF X ok u(1)] pages_between_covers by blast
    then have "ubyte u v \<noteq> None" using user_byte_mapped by blast
    then show ?thesis using stored_mapped t by blast
  qed
  have "shows_image bin (phs @ [ph]) t"
    unfolding shows_image_def elf_image_snoc using inside outside cover by auto
  then show ?thesis using t by simp
qed

lemma load_segments_image:
  assumes X: "mapper_frames_ok X R" "mapper_writes_tables X T"
  shows "as_mem_ok T R as s \<Longrightarrow> shows_image bin seen s \<Longrightarrow>
    load_segments X bin phs highest s = (Ok h, t) \<Longrightarrow>
    as_mem_ok T R as t \<and> shows_image bin (seen @ phs) t"
proof (induction phs arbitrary: s seen highest)
  case Nil
  then show ?case by (simp add: sret_def)
next
  case (Cons ph phs)
  from Cons.prems(3) obtain h1 u where u: "load_segment X bin ph highest s = (Ok h1, u)"
      "load_segments X bin phs h1 u = (Ok h, t)"
    by (auto elim: sbind_OkE)
  then have "as_mem_ok T R as u \<and> shows_image bin (seen @ [ph]) u"
    using load_segment_image[OF X Cons.prems(1,2)] by blast
  then show ?case using Cons.IH[of u "seen @ [ph]" h1] u(2) by simp
qed

lemma elf_load_run:
  assumes "elf_load X bin s = (Ok le, t)"
  shows "64 \<le> length bin \<and> check_ehdr (read_ehdr bin) = Ok () \<and> entry le = e_entry (read_ehdr bin) \<and>
    e_entry (read_ehdr bin) \<noteq> 0 \<and>
    e_phoff (read_ehdr bin) + 56 * e_phnum (read_ehdr bin) \<le> length bin \<and>
    load_segments X bin (phdr_list bin (read_ehdr bin)) 0 s = (Ok (highest_vaddr le), t)"
  using assms
  by (auto simp: elf_load_def Let_def sbind_def slift_def serr_def sret_def cadd_def virt_new_def
      check_ehdr_def split: if_splits prod.splits result.splits)

text \<open>A freshly created address space shows the empty image.\<close>

lemma shows_image_empty: "mapped_pages (fst s) = [] \<Longrightarrow> shows_image bin [] s"
  by (simp add: shows_image_def elf_image_def user_byte_def)

lemma elf_load_image:
  assumes "mapper_frames_ok X R" "mapper_writes_tables X T" "as_mem_ok T R as s"
    "mapped_pages (fst s) = []" "elf_load X bin s = (Ok le, t)"
  shows "as_mem_ok T R as t \<and> shows_image bin (phdr_list bin (read_ehdr bin)) t"
  using load_segments_image[OF assms(1-3) shows_image_empty[OF assms(4)]] elf_load_run[OF assms(5)]
  by fastforce

end
