(* ===== verification/Userprog.thy ===== *)
theory Userprog
  imports Elf
begin

text \<open>
  The two user programs the kernel assembles at boot, \<open>kernel/src/fs/userprog.rs\<close>.  The code
  bytes, the patched displacements and the ELF wrapper are those of the source; the
  lemmas check them against the loader of \<open>Elf\<close>.
\<close>

section \<open>Assembly\<close>

abbreviation EHDR_SIZE :: nat where "EHDR_SIZE \<equiv> 64"
abbreviation PHDR_SIZE :: nat where "PHDR_SIZE \<equiv> 56"
abbreviation LOAD_ADDR :: nat where "LOAD_ADDR \<equiv> 0x40000000"

definition i32_le_bytes :: "int \<Rightarrow> bytes" where
  "i32_le_bytes d = le_bytes 4 (unat (of_int d :: u32))"

definition patch_at :: "nat \<Rightarrow> bytes \<Rightarrow> bytes \<Rightarrow> bytes" where
  "patch_at off bs xs = take off xs @ bs @ drop (off + length bs) xs"

definition elf_wrapper :: "bytes \<Rightarrow> bytes" where
  "elf_wrapper code =
    (let ph_off = EHDR_SIZE; code_off = EHDR_SIZE + PHDR_SIZE;
         entry_vaddr = LOAD_ADDR + code_off; seg_vaddr = LOAD_ADDR;
         seg_filesz = code_off + length code in
     [0x7f, 0x45, 0x4C, 0x46] @ [2] @ [1] @ [1] @ [0] @ [0] @ replicate 7 0 @
     le_bytes 2 2 @ le_bytes 2 62 @ le_bytes 4 1 @ le_bytes 8 entry_vaddr @ le_bytes 8 ph_off @
     le_bytes 8 0 @ le_bytes 4 0 @ le_bytes 2 EHDR_SIZE @ le_bytes 2 PHDR_SIZE @ le_bytes 2 1 @
     le_bytes 2 0 @ le_bytes 2 0 @ le_bytes 2 0 @
     le_bytes 4 1 @ le_bytes 4 7 @ le_bytes 8 0 @ le_bytes 8 seg_vaddr @ le_bytes 8 seg_vaddr @
     le_bytes 8 seg_filesz @ le_bytes 8 seg_filesz @ le_bytes 8 0x1000 @
     code)"

definition hello_msg :: bytes where
  "hello_msg = str ''Hello from ring 3!'' @ [10]"

definition hello_code :: bytes where
  "hello_code =
    (let c0 = [0xB8, 0x01, 0, 0, 0] @ [0xBF, 0x01, 0, 0, 0];
         lea_start = length c0;
         c1 = c0 @ [0x48, 0x8D, 0x35, 0, 0, 0, 0];
         lea_end = length c1;
         c2 = c1 @ [0xBA] @ le_bytes 4 (length hello_msg) @ [0x0F, 0x05] @
              [0xB8, 0x03, 0, 0, 0] @ [0x31, 0xFF] @ [0x0F, 0x05] @ [0xEB, 0xFE];
         msg_offset = length c2;
         c3 = c2 @ hello_msg
     in patch_at (lea_start + 3) (i32_le_bytes (int msg_offset - int lea_end)) c3)"

definition hello_world_elf :: bytes where
  "hello_world_elf = elf_wrapper hello_code"

definition counter_code :: bytes where
  "counter_code =
    (let c0 = [0x48, 0xC7, 0xC3, 0x14, 0, 0, 0];
         loop_start = length c0;
         c1 = c0 @ [0x48, 0xC7, 0xC1, 0x40, 0x4B, 0x4C, 0];
         busy_start = length c1;
         c2 = c1 @ [0x48, 0xFF, 0xC9];
         jmp_offset = int busy_start - (int (length c2) + 2);
         c3 = c2 @ [0x75] @ [of_int jmp_offset];
         c4 = c3 @ [0xB8, 0x01, 0, 0, 0] @ [0xBF, 0x01, 0, 0, 0];
         lea_start = length c4;
         c5 = c4 @ [0x48, 0x8D, 0x35, 0, 0, 0, 0];
         lea_end = length c5;
         c6 = c5 @ [0xBA, 0x01, 0, 0, 0] @ [0x0F, 0x05] @ [0x48, 0xFF, 0xCB];
         jnz_end = length c6 + 6;
         rel32 = int loop_start - int jnz_end;
         c7 = c6 @ [0x0F, 0x85] @ i32_le_bytes rel32 @
              [0xB8, 0x01, 0, 0, 0] @ [0xBF, 0x01, 0, 0, 0];
         nl_lea_start = length c7;
         c8 = c7 @ [0x48, 0x8D, 0x35, 0, 0, 0, 0];
         nl_lea_end = length c8;
         c9 = c8 @ [0xBA, 0x01, 0, 0, 0] @ [0x0F, 0x05] @
              [0xB8, 0x03, 0, 0, 0] @ [0x48, 0x31, 0xFF] @ [0x0F, 0x05] @ [0xEB, 0xFE];
         msg_off = length c9;
         c10 = c9 @ str ''.'';
         nl_off = length c10;
         c11 = c10 @ [10]
     in patch_at (nl_lea_start + 3) (i32_le_bytes (int nl_off - int nl_lea_end))
          (patch_at (lea_start + 3) (i32_le_bytes (int msg_off - int lea_end)) c11))"

definition counter_elf :: bytes where
  "counter_elf = elf_wrapper counter_code"

section \<open>The wrapper\<close>

text \<open>The header fields of a wrapped program, for every code.\<close>

lemma wrapper_ehdr:
  "e_ident (read_ehdr (elf_wrapper code)) = [0x7f, 0x45, 0x4C, 0x46, 2, 1, 1, 0, 0] @ replicate 7 0"
  "e_type (read_ehdr (elf_wrapper code)) = 2"
  "e_machine (read_ehdr (elf_wrapper code)) = 62"
  "e_entry (read_ehdr (elf_wrapper code)) = LOAD_ADDR + 120"
  "e_phoff (read_ehdr (elf_wrapper code)) = 64"
  "e_phentsize (read_ehdr (elf_wrapper code)) = 56"
  "e_phnum (read_ehdr (elf_wrapper code)) = 1"
  by (simp_all add: read_ehdr_def le_field_def elf_wrapper_def Let_def le_nat_le_bytes)

lemma wrapper_phdr:
  assumes "length code < 2 ^ 32"
  shows "read_phdr (elf_wrapper code) 64 =
    \<lparr> p_type = 1, p_flags = 7, p_offset = 0, p_vaddr = LOAD_ADDR, p_paddr = LOAD_ADDR,
      p_filesz = 120 + length code, p_memsz = 120 + length code, p_align = 0x1000 \<rparr>"
  using assms
  by (simp add: read_phdr_def le_field_def elf_wrapper_def Let_def le_nat_le_bytes)

lemma length_wrapper: "length (elf_wrapper code) = 120 + length code"
  by (simp add: elf_wrapper_def Let_def)

lemma wrapper_phdr_list:
  assumes "length code < 2 ^ 32"
  shows "phdr_list (elf_wrapper code) (read_ehdr (elf_wrapper code)) =
    [\<lparr> p_type = 1, p_flags = 7, p_offset = 0, p_vaddr = LOAD_ADDR, p_paddr = LOAD_ADDR,
       p_filesz = 120 + length code, p_memsz = 120 + length code, p_align = 0x1000 \<rparr>]"
  by (simp add: phdr_list_def wrapper_ehdr wrapper_phdr[OF assms])

lemma wrapper_image:
  assumes "length code < 2 ^ 32" "i < length code"
  shows "elf_image (elf_wrapper code) (phdr_list (elf_wrapper code) (read_ehdr (elf_wrapper code)))
    (LOAD_ADDR + 120 + i) = Some (code ! i)"
proof -
  have "drop 120 (elf_wrapper code) = code" by (simp add: elf_wrapper_def Let_def)
  then have "elf_wrapper code ! (120 + i) = code ! i"
    using nth_drop[of 120 "elf_wrapper code" i] length_wrapper[of code] by simp
  then show ?thesis using assms
    by (simp add: elf_image_def wrapper_phdr_list in_file_def loadable_def)
qed

section \<open>Displacements\<close>

lemma hello_lea: "take 19 (drop (17 + le_nat (take 4 (drop 13 hello_code))) hello_code) = hello_msg"
  by code_simp

lemma counter_lea:
  "counter_code ! (36 + le_nat (take 4 (drop 32 counter_code))) = 0x2E"
  "counter_code ! (69 + le_nat (take 4 (drop 65 counter_code))) = 10"
  by code_simp+

lemma counter_loops:
  "int 19 + sint (counter_code ! 18) = 14"
  "int 52 + sint (of_nat (le_nat (take 4 (drop 48 counter_code))) :: u32) = 7"
  by code_simp+

end
