(* ===== verification/Memory_Theorems.thy ===== *)
theory Memory_Theorems
  imports Sample_Machine Cow Elf Userprog
begin

text \<open>
  The theorems of the memory components, with the concrete memory their instances are
  evaluated on: eight frames of which frame 0 is a root table, frame 1 is mapped at
  \<open>0x400000\<close>, frames 2 to 7 are free, and a mapper that accepts every request without
  needing a table.
\<close>

section \<open>Frames through time\<close>

text \<open>The allocator with the frames it has handed out.  The holder of a frame may write it.\<close>

type_synonym fa_world = "frame_allocator \<times> mem \<times> phys_frame set"

inductive fa_step :: "fa_world \<Rightarrow> fa_world \<Rightarrow> bool" where
  alloc: "allocate_frame (fa, m) = Ok (Some f, fa', m') \<Longrightarrow> fa_step (fa, m, H) (fa', m', insert f H)"
| refused: "allocate_frame (fa, m) = Ok (None, fa', m') \<Longrightarrow> fa_step (fa, m, H) (fa', m', H)"
| release: "f \<in> H \<Longrightarrow> deallocate_frame f fa = Ok fa' \<Longrightarrow> fa_step (fa, m, H) (fa', m, H - {f})"
| store: "align_down FRAME_SIZE x \<in> H \<Longrightarrow> fa_step (fa, m, H) (fa, m(x := b), H)"

inductive_cases fa_stepE: "fa_step s t"

definition fa_world_inv :: "nat set \<Rightarrow> phys_frame set \<Rightarrow> fa_world \<Rightarrow> bool" where
  "fa_world_inv R F s \<longleftrightarrow> (case s of (fa, m, H) \<Rightarrow> fa_inv R fa \<and> H \<inter> free_frames fa = {} \<and>
     H \<union> free_frames fa = F \<and> F \<subseteq> managed_frames R fa)"

lemma fa_step_inv:
  assumes step: "fa_step s t" and inv: "fa_world_inv R F s"
  shows "fa_world_inv R F t"
  using step
proof (cases rule: fa_step.cases)
  case (alloc fa m f fa' m' H)
  have i: "fa_inv R fa" "H \<inter> free_frames fa = {}" "H \<union> free_frames fa = F" "F \<subseteq> managed_frames R fa"
    using inv alloc(1) by (simp_all add: fa_world_inv_def)
  have ne: "free_frames fa \<noteq> {}" using allocate_frame_none[OF i(1)] alloc(3) by auto
  then have mem: "Min (free_frames fa) \<in> free_frames fa" by (intro Min_in) auto
  obtain fb where fb: "allocate_frame (fa, m) =
      Ok (Some (Min (free_frames fa)), fb, fill_bytes m (Min (free_frames fa)) 0 FRAME_SIZE)"
    "fa_inv R fb" "free_frames fb = free_frames fa - {Min (free_frames fa)}" "num_frames fb = num_frames fa"
    using allocate_frame_some[OF i(1) ne] by blast
  have "f = Min (free_frames fa)" "fa' = fb" using fb(1) alloc(3) by auto
  then show ?thesis
    using alloc(2) fb i mem managed_frames_cong[OF fb(4), of R] by (auto simp: fa_world_inv_def)
next
  case (refused fa m fa' m' H)
  have i: "fa_inv R fa" using inv refused(1) by (simp add: fa_world_inv_def)
  show ?thesis
  proof (cases "free_frames fa = {}")
    case True
    then show ?thesis using allocate_frame_none[OF i True] refused inv by (auto simp: fa_world_inv_def)
  next
    case False
    then show ?thesis using allocate_frame_some[OF i False, of m] refused by auto
  qed
next
  case (release f H fa fa' m)
  have i: "fa_inv R fa" "H \<inter> free_frames fa = {}" "H \<union> free_frames fa = F" "F \<subseteq> managed_frames R fa"
    using inv release(1) by (simp_all add: fa_world_inv_def)
  have f: "f \<in> managed_frames R fa" "f \<notin> free_frames fa" using i release(3) by auto
  obtain fb where "deallocate_frame f fa = Ok fb" "fa_inv R fb" "free_frames fb = insert f (free_frames fa)"
    "num_frames fb = num_frames fa" using deallocate_frame_managed[OF i(1) f] by blast
  then show ?thesis using release i managed_frames_cong[of fb fa R] by (auto simp: fa_world_inv_def)
next
  case (store x H fa m b)
  then show ?thesis using inv by (simp add: fa_world_inv_def)
qed

lemma fa_run_inv: "fa_step\<^sup>*\<^sup>* s t \<Longrightarrow> fa_world_inv R F s \<Longrightarrow> fa_world_inv R F t"
  by (induction rule: rtranclp_induct) (auto intro: fa_step_inv)


section \<open>A concrete memory\<close>

lemma sample_as_mem_ok: "as_mem_ok (\<lambda>root m. {root}) {} [] (sample_as, sample_kmem)"
  using sample_frames_inv by (simp add: as_mem_ok_def sample_kfree) (simp add: sample_as_def)


section \<open>Boot-time reservations\<close>

lemma reserved_not_free:
  assumes "fa_inv R fa" "reserved_range lo hi fa" "a \<in> free_frames fa"
  shows "a + FRAME_SIZE \<le> lo \<or> hi \<le> a"
proof -
  obtain f where f: "f < num_frames fa" "a = f * FRAME_SIZE" "\<not> occupied (bitmap fa) f"
    using assms(3) by (auto simp: mem_free_frames)
  moreover have "f < 8 * length (bitmap fa)" using f(1) assms(1) by (simp add: fa_inv_def)
  ultimately show ?thesis using assms(2) unfolding reserved_range_def by (meson not_less)
qed

text \<open>C2: Building the allocator from the memory map and the boot modules succeeds whenever the
  regions fit the address arithmetic, and then no frame that holds the low memory and the
  bitmap, the kernel heap or a boot module is ever free, every free frame lies in an area the
  memory map declares usable, and the bookkeeping invariant of the allocator holds.\<close>

theorem new_with_reserves:
  assumes "\<forall>a \<in> set areas. area_fits a" and "\<forall>md \<in> set mods. module_fits md"
  shows "\<exists>fa R. new_with areas mods = Ok fa \<and> fa_inv R fa \<and>
    (\<forall>a \<in> free_frames fa. BITMAP_ADDR + BITMAP_SIZE \<le> a \<and>
       (a + FRAME_SIZE \<le> HEAP_START \<or> HEAP_START + HEAP_SIZE \<le> a) \<and>
       (\<forall>md \<in> set mods. a + FRAME_SIZE \<le> mod_start md \<or> mod_start md + mod_len md \<le> a) \<and>
       (\<exists>ar \<in> set areas. frame_in_area ar (a div FRAME_SIZE)))"
proof -
  obtain fa R where fa: "new_with areas mods = Ok fa" "fa_inv R fa"
    "reserved_range 0 (BITMAP_ADDR + BITMAP_SIZE) fa" "reserved_range HEAP_START (HEAP_START + HEAP_SIZE) fa"
    "\<forall>md \<in> set mods. reserved_range (mod_start md) (mod_start md + mod_len md) fa"
    "\<forall>a \<in> free_frames fa. \<exists>ar \<in> set areas. frame_in_area ar (a div FRAME_SIZE)"
    using new_with_props[OF assms] by blast
  have "BITMAP_ADDR + BITMAP_SIZE \<le> a" if "a \<in> free_frames fa" for a
    using reserved_not_free[OF fa(2,3) that] by simp
  moreover have "a + FRAME_SIZE \<le> HEAP_START \<or> HEAP_START + HEAP_SIZE \<le> a" if "a \<in> free_frames fa" for a
    by (rule reserved_not_free[OF fa(2,4) that])
  moreover have "a + FRAME_SIZE \<le> mod_start md \<or> mod_start md + mod_len md \<le> a"
    if "a \<in> free_frames fa" "md \<in> set mods" for a md
    by (rule reserved_not_free[OF fa(2) _ that(1)]) (use fa(5) that(2) in blast)
  ultimately show ?thesis using fa(1,2,6) by blast
qed

definition sample_areas :: "memory_area list" where
  "sample_areas = [\<lparr> base_addr = 0, area_len = 0x9FC00, area_typ = 1 \<rparr>,
     \<lparr> base_addr = 0x100000, area_len = 0x3FEE0000, area_typ = 1 \<rparr>]"

definition sample_mods :: "boot_module list" where
  "sample_mods = [\<lparr> mod_start = 0x3000000, mod_len = 0x2345, mod_name = str ''initrd'' \<rparr>]"

theorem new_with_reserves_witness:
  "\<exists>fa. new_with sample_areas sample_mods = Ok fa \<and>
    (\<forall>a \<in> free_frames fa. a + FRAME_SIZE \<le> 0x3000000 \<or> 0x3002345 \<le> a)"
  using new_with_reserves[of sample_areas sample_mods]
  by (force simp: sample_areas_def sample_mods_def area_fits_def module_fits_def)

section \<open>Address spaces\<close>

text \<open>C3: Forking an address space copies no page: the clone has exactly the parent's pages on the
  same frames under a root table of its own, and afterwards the reference count of every frame
  is again the number of address spaces that map it, so no mapped frame can be freed early.\<close>

theorem clone_cow_keeps_accounting:
  assumes "mapper_frames_ok X R" "frames_inv R (a # as) k" "2 \<le> card (kfree k)"
    and "\<forall>vf \<in> set (mapped_pages a). virt_ok X (fst vf)"
    and "\<forall>f. count_list (bt_values (mapped_pages a) @ as_frames (a # as)) f \<le> 255"
  shows "\<exists>c k'. clone_cow X a k = (Ok c, k') \<and> mapped_pages c = mapped_pages a \<and> p4 c \<noteq> p4 a \<and>
    frames_inv R (c # a # as) k' \<and>
    (\<forall>f \<in> set (bt_values (mapped_pages a)).
       unat (rc_get f (refc k')) = count_list (as_frames (c # a # as)) f \<and> f \<notin> kfree k')"
proof -
  obtain c k' where c: "clone_cow X a k = (Ok c, k')" "mapped_pages c = mapped_pages a"
    "frames_inv R (c # a # as) k'" using clone_cow_props[OF assms] by blast
  then have "p4 c \<noteq> p4 a" "\<forall>f \<in> set (bt_values (mapped_pages a)).
      unat (rc_get f (refc k')) = count_list (as_frames (c # a # as)) f \<and> f \<notin> kfree k'"
    by (auto simp: frames_inv_def refs_inv_def)
  then show ?thesis using c by blast
qed

theorem clone_cow_keeps_accounting_witness:
  "\<exists>c k'. clone_cow sample_x86 sample_as sample_kmem = (Ok c, k') \<and>
     frames_inv {} [c, sample_as] k' \<and> unat (rc_get 0x1000 (refc k')) = 2"
proof -
  have "2 \<le> card (kfree sample_kmem)" by (simp add: sample_kfree)
  moreover have "\<forall>vf \<in> set (mapped_pages sample_as). virt_ok sample_x86 (fst vf)" by (simp add: sample_x86_def)
  moreover have "\<forall>f. count_list (bt_values (mapped_pages sample_as) @ as_frames [sample_as]) f \<le> 255"
    by (simp add: sample_as_def as_frames_def)
  ultimately obtain c k' where c: "clone_cow sample_x86 sample_as sample_kmem = (Ok c, k')"
    "mapped_pages c = mapped_pages sample_as" "frames_inv {} [c, sample_as] k'"
    "\<forall>f \<in> set (bt_values (mapped_pages sample_as)).
       unat (rc_get f (refc k')) = count_list (as_frames [c, sample_as]) f"
    using clone_cow_keeps_accounting[OF sample_mapper(1) sample_frames_inv] by blast
  moreover have "count_list (as_frames [c, sample_as]) 0x1000 = 2"
    using c(2) by (simp add: as_frames_def sample_as_def)
  ultimately show ?thesis by (simp add: sample_as_def)
qed

text \<open>C4: Destroying an address space frees exactly its root table and those of its frames that no
  other address space maps; the frames still shared stay allocated and the counts of all the
  remaining address spaces stay exact.\<close>

theorem destroy_frees_unshared:
  assumes "frames_inv R (a # as) k"
  shows "\<exists>k'. destroy (a, k) = (Ok (), (a \<lparr> mapped_pages := [] \<rparr>, k')) \<and> frames_inv R as k' \<and>
    kfree k' = kfree k \<union> {p4 a} \<union> {f \<in> set (bt_values (mapped_pages a)). \<forall>b \<in> set as. f \<notin> set (bt_values (mapped_pages b))}"
proof -
  have "set (bt_values (mapped_pages a)) - set (as_frames as) =
    {f \<in> set (bt_values (mapped_pages a)). \<forall>b \<in> set as. f \<notin> set (bt_values (mapped_pages b))}"
    by (auto simp: as_frames_def)
  then show ?thesis using destroy_props[OF assms] by auto
qed

theorem destroy_frees_unshared_witness:
  "\<exists>k'. destroy (sample_as, sample_kmem) = (Ok (), (sample_as \<lparr> mapped_pages := [] \<rparr>, k')) \<and>
     {0, 0x1000} \<subseteq> kfree k'"
  using destroy_frees_unshared[OF sample_frames_inv] by (auto simp: sample_as_def)


lemma shared_resolves:
  "\<exists>c k'. try_resolve_cow sample_x86 0x400010 (Some sample_as, shared_kmem) = (Ok (), (c, k'))"
proof -
  obtain k1 where k1: "alloc_zeroed_frame shared_kmem = (Ok (Min (kfree shared_kmem)), k1)" "kmem_inv {} k1"
    using alloc_zeroed_frame_some[OF frames_inv_kmem[OF shared_frames_inv]] by (auto simp: shared_kfree)
  obtain fa where fa: "falloc k1 = Some fa" using kmem_invE[OF k1(2)] by blast
  have old: "align_down 4096 0x1000 = (0x1000 :: nat)" by (simp add: align_down_def)
  have fl: "flags_contain (PRESENT OR USER_ACCESSIBLE OR COW_MARKER) COW_MARKER"
    "flags_contain (PRESENT OR USER_ACCESSIBLE OR COW_MARKER) USER_ACCESSIBLE" by (code_simp)+
  have rc: "\<not> rc_get 0x1000 (refc shared_kmem) \<le> 1" by code_simp
  have "\<exists>s. cow_copy sample_x86 (align_down 4096 0x400010) 0x1000 (PRESENT OR USER_ACCESSIBLE OR COW_MARKER)
      (Some sample_as, shared_kmem) = (Ok (), s)"
    using k1(1) fa by (simp add: cow_copy_def sbind_def on_kmem_def supd_def unmap_or_fail_def map_or_fail_def
        copy_frame_def cow_counts_def sample_x86_def)
  then show ?thesis using old fl rc by (simp add: try_resolve_cow_def sample_x86_def Let_def)
qed


section \<open>User memory\<close>



lemma load_segments_bounds:
  "load_segments X bin phs highest s = (Ok h, t) \<Longrightarrow> ph \<in> set phs \<Longrightarrow> loadable ph \<Longrightarrow>
    p_filesz ph \<le> p_memsz ph \<and> (p_filesz ph = 0 \<or> p_offset ph + p_filesz ph \<le> length bin)"
proof (induction phs arbitrary: highest s)
  case (Cons q phs)
  from Cons.prems(1) obtain h1 u where u: "load_segment X bin q highest s = (Ok h1, u)"
      "load_segments X bin phs h1 u = (Ok h, t)" by (auto elim: sbind_OkE)
  show ?case
  proof (cases "ph = q")
    case True
    from load_segment_run[OF u(1)] Cons.prems(3) True obtain w where
      w: "copy_segment X bin q w = (Ok (), u)" "p_filesz q \<le> p_memsz q" by blast
    then show ?thesis using copy_segment_run(1)[OF w(1)] True by auto
  next
    case False
    then show ?thesis using Cons.IH[OF u(2)] Cons.prems(2,3) by simp
  qed
qed simp


definition fresh_as :: address_space where
  "fresh_as = \<lparr> p4 = 0, mapped_pages = [] \<rparr>"



end
