(* ===== verification/Font.thy ===== *)
theory Font
  imports Prelude
begin

text \<open>
  The 8x16 bitmap font (\<open>drivers/font8x16.rs\<close>, \<open>drivers/font8x16_data.rs\<close>): sixteen rows of eight
  pixels for each of the 128 ASCII codes, the leftmost pixel in the most significant bit.
\<close>

abbreviation CHAR_WIDTH :: nat where "CHAR_WIDTH \<equiv> 8"
abbreviation CHAR_HEIGHT :: nat where "CHAR_HEIGHT \<equiv> 16"

definition font_data :: "u8 list list" where
  "font_data =
    [replicate 16 0,
     replicate 16 0,
     replicate 16 0,
     replicate 16 0,
     replicate 16 0,
     replicate 16 0,
     replicate 16 0,
     replicate 16 0,
     replicate 16 0,
     replicate 16 0,
     replicate 16 0,
     replicate 16 0,
     replicate 16 0,
     replicate 16 0,
     replicate 16 0,
     replicate 16 0,
     replicate 16 0,
     replicate 16 0,
     replicate 16 0,
     replicate 16 0,
     replicate 16 0,
     replicate 16 0,
     replicate 16 0,
     replicate 16 0,
     replicate 16 0,
     replicate 16 0,
     replicate 16 0,
     replicate 16 0,
     replicate 16 0,
     replicate 16 0,
     replicate 16 0,
     replicate 16 0,
     [0, 0, 0, 0, 0, 0, 0, 0, 0, 0, 0, 0, 0, 0, 0, 0],
     [0, 0, 0x18, 0x3c, 0x3c, 0x3c, 0x18, 0x18, 0x18, 0, 0x18, 0x18, 0, 0, 0, 0],
     [0, 0x66, 0x66, 0x66, 0x24, 0, 0, 0, 0, 0, 0, 0, 0, 0, 0, 0],
     [0, 0, 0, 0x6c, 0x6c, 0xfe, 0x6c, 0x6c, 0x6c, 0xfe, 0x6c, 0x6c, 0, 0, 0, 0],
     [0, 0x18, 0x18, 0x7c, 0xc6, 0xc2, 0xc0, 0x7c, 0x06, 0x06, 0x86, 0xc6, 0x7c, 0x18, 0x18, 0],
     [0, 0, 0, 0, 0, 0xc2, 0xc6, 0x0c, 0x18, 0x30, 0x60, 0xc6, 0x86, 0, 0, 0],
     [0, 0, 0, 0x38, 0x6c, 0x6c, 0x38, 0x76, 0xdc, 0xcc, 0xcc, 0xcc, 0x76, 0, 0, 0],
     [0, 0x30, 0x30, 0x30, 0x60, 0, 0, 0, 0, 0, 0, 0, 0, 0, 0, 0],
     [0, 0, 0x0c, 0x18, 0x30, 0x30, 0x30, 0x30, 0x30, 0x30, 0x30, 0x18, 0x0c, 0, 0, 0],
     [0, 0, 0x30, 0x18, 0x0c, 0x0c, 0x0c, 0x0c, 0x0c, 0x0c, 0x0c, 0x18, 0x30, 0, 0, 0],
     [0, 0, 0, 0, 0, 0x66, 0x3c, 0xff, 0x3c, 0x66, 0, 0, 0, 0, 0, 0],
     [0, 0, 0, 0, 0, 0x18, 0x18, 0x7e, 0x18, 0x18, 0, 0, 0, 0, 0, 0],
     [0, 0, 0, 0, 0, 0, 0, 0, 0, 0, 0, 0x18, 0x18, 0x18, 0x30, 0],
     [0, 0, 0, 0, 0, 0, 0, 0x7e, 0, 0, 0, 0, 0, 0, 0, 0],
     [0, 0, 0, 0, 0, 0, 0, 0, 0, 0, 0, 0, 0x18, 0x18, 0, 0],
     [0, 0, 0, 0, 0x02, 0x06, 0x0c, 0x18, 0x30, 0x60, 0xc0, 0x80, 0, 0, 0, 0],
     [0, 0, 0, 0x38, 0x6c, 0xc6, 0xc6, 0xd6, 0xd6, 0xc6, 0xc6, 0x6c, 0x38, 0, 0, 0],
     [0, 0, 0, 0x18, 0x38, 0x78, 0x18, 0x18, 0x18, 0x18, 0x18, 0x18, 0x7e, 0, 0, 0],
     [0, 0, 0, 0x7c, 0xc6, 0x06, 0x0c, 0x18, 0x30, 0x60, 0xc0, 0xc6, 0xfe, 0, 0, 0],
     [0, 0, 0, 0x7c, 0xc6, 0x06, 0x06, 0x3c, 0x06, 0x06, 0x06, 0xc6, 0x7c, 0, 0, 0],
     [0, 0, 0, 0x0c, 0x1c, 0x3c, 0x6c, 0xcc, 0xfe, 0x0c, 0x0c, 0x0c, 0x1e, 0, 0, 0],
     [0, 0, 0, 0xfe, 0xc0, 0xc0, 0xc0, 0xfc, 0x06, 0x06, 0x06, 0xc6, 0x7c, 0, 0, 0],
     [0, 0, 0, 0x38, 0x60, 0xc0, 0xc0, 0xfc, 0xc6, 0xc6, 0xc6, 0xc6, 0x7c, 0, 0, 0],
     [0, 0, 0, 0xfe, 0xc6, 0x06, 0x06, 0x0c, 0x18, 0x30, 0x30, 0x30, 0x30, 0, 0, 0],
     [0, 0, 0, 0x7c, 0xc6, 0xc6, 0xc6, 0x7c, 0xc6, 0xc6, 0xc6, 0xc6, 0x7c, 0, 0, 0],
     [0, 0, 0, 0x7c, 0xc6, 0xc6, 0xc6, 0x7e, 0x06, 0x06, 0x06, 0x0c, 0x78, 0, 0, 0],
     [0, 0, 0, 0, 0, 0x18, 0x18, 0, 0, 0, 0x18, 0x18, 0, 0, 0, 0],
     [0, 0, 0, 0, 0, 0x18, 0x18, 0, 0, 0, 0x18, 0x18, 0x30, 0, 0, 0],
     [0, 0, 0, 0, 0x06, 0x0c, 0x18, 0x30, 0x60, 0x30, 0x18, 0x0c, 0x06, 0, 0, 0],
     [0, 0, 0, 0, 0, 0, 0x7e, 0, 0, 0x7e, 0, 0, 0, 0, 0, 0],
     [0, 0, 0, 0, 0x60, 0x30, 0x18, 0x0c, 0x06, 0x0c, 0x18, 0x30, 0x60, 0, 0, 0],
     [0, 0, 0, 0x7c, 0xc6, 0xc6, 0x0c, 0x18, 0x18, 0x18, 0, 0x18, 0x18, 0, 0, 0],
     [0, 0, 0, 0, 0x7c, 0xc6, 0xc6, 0xde, 0xde, 0xde, 0xdc, 0xc0, 0x7c, 0, 0, 0],
     [0, 0, 0, 0x10, 0x38, 0x6c, 0xc6, 0xc6, 0xfe, 0xc6, 0xc6, 0xc6, 0xc6, 0, 0, 0],
     [0, 0, 0, 0xfc, 0x66, 0x66, 0x66, 0x7c, 0x66, 0x66, 0x66, 0x66, 0xfc, 0, 0, 0],
     [0, 0, 0, 0x3c, 0x66, 0xc2, 0xc0, 0xc0, 0xc0, 0xc0, 0xc2, 0x66, 0x3c, 0, 0, 0],
     [0, 0, 0, 0xf8, 0x6c, 0x66, 0x66, 0x66, 0x66, 0x66, 0x66, 0x6c, 0xf8, 0, 0, 0],
     [0, 0, 0, 0xfe, 0x66, 0x62, 0x68, 0x78, 0x68, 0x60, 0x62, 0x66, 0xfe, 0, 0, 0],
     [0, 0, 0, 0xfe, 0x66, 0x62, 0x68, 0x78, 0x68, 0x60, 0x60, 0x60, 0xf0, 0, 0, 0],
     [0, 0, 0, 0x3c, 0x66, 0xc2, 0xc0, 0xc0, 0xde, 0xc6, 0xc6, 0x66, 0x3a, 0, 0, 0],
     [0, 0, 0, 0xc6, 0xc6, 0xc6, 0xc6, 0xfe, 0xc6, 0xc6, 0xc6, 0xc6, 0xc6, 0, 0, 0],
     [0, 0, 0, 0x3c, 0x18, 0x18, 0x18, 0x18, 0x18, 0x18, 0x18, 0x18, 0x3c, 0, 0, 0],
     [0, 0, 0, 0x1e, 0x0c, 0x0c, 0x0c, 0x0c, 0x0c, 0xcc, 0xcc, 0xcc, 0x78, 0, 0, 0],
     [0, 0, 0, 0xe6, 0x66, 0x66, 0x6c, 0x78, 0x78, 0x6c, 0x66, 0x66, 0xe6, 0, 0, 0],
     [0, 0, 0, 0xf0, 0x60, 0x60, 0x60, 0x60, 0x60, 0x60, 0x62, 0x66, 0xfe, 0, 0, 0],
     [0, 0, 0, 0xc6, 0xee, 0xfe, 0xfe, 0xd6, 0xc6, 0xc6, 0xc6, 0xc6, 0xc6, 0, 0, 0],
     [0, 0, 0, 0xc6, 0xe6, 0xf6, 0xfe, 0xde, 0xce, 0xc6, 0xc6, 0xc6, 0xc6, 0, 0, 0],
     [0, 0, 0, 0x7c, 0xc6, 0xc6, 0xc6, 0xc6, 0xc6, 0xc6, 0xc6, 0xc6, 0x7c, 0, 0, 0],
     [0, 0, 0, 0xfc, 0x66, 0x66, 0x66, 0x7c, 0x60, 0x60, 0x60, 0x60, 0xf0, 0, 0, 0],
     [0, 0, 0, 0x7c, 0xc6, 0xc6, 0xc6, 0xc6, 0xc6, 0xc6, 0xd6, 0xde, 0x7c, 0x0c, 0x0e, 0],
     [0, 0, 0, 0xfc, 0x66, 0x66, 0x66, 0x7c, 0x6c, 0x66, 0x66, 0x66, 0xe6, 0, 0, 0],
     [0, 0, 0, 0x7c, 0xc6, 0xc6, 0x60, 0x38, 0x0c, 0x06, 0xc6, 0xc6, 0x7c, 0, 0, 0],
     [0, 0, 0, 0x7e, 0x7e, 0x5a, 0x18, 0x18, 0x18, 0x18, 0x18, 0x18, 0x3c, 0, 0, 0],
     [0, 0, 0, 0xc6, 0xc6, 0xc6, 0xc6, 0xc6, 0xc6, 0xc6, 0xc6, 0xc6, 0x7c, 0, 0, 0],
     [0, 0, 0, 0xc6, 0xc6, 0xc6, 0xc6, 0xc6, 0xc6, 0xc6, 0x6c, 0x38, 0x10, 0, 0, 0],
     [0, 0, 0, 0xc6, 0xc6, 0xc6, 0xc6, 0xd6, 0xd6, 0xd6, 0xfe, 0xee, 0x6c, 0, 0, 0],
     [0, 0, 0, 0xc6, 0xc6, 0x6c, 0x7c, 0x38, 0x38, 0x7c, 0x6c, 0xc6, 0xc6, 0, 0, 0],
     [0, 0, 0, 0x66, 0x66, 0x66, 0x66, 0x3c, 0x18, 0x18, 0x18, 0x18, 0x3c, 0, 0, 0],
     [0, 0, 0, 0xfe, 0xc6, 0x86, 0x0c, 0x18, 0x30, 0x60, 0xc2, 0xc6, 0xfe, 0, 0, 0],
     [0, 0, 0x3c, 0x30, 0x30, 0x30, 0x30, 0x30, 0x30, 0x30, 0x30, 0x30, 0x30, 0x3c, 0, 0],
     [0, 0, 0, 0x80, 0xc0, 0x60, 0x30, 0x18, 0x0c, 0x06, 0x02, 0, 0, 0, 0, 0],
     [0, 0, 0x3c, 0x0c, 0x0c, 0x0c, 0x0c, 0x0c, 0x0c, 0x0c, 0x0c, 0x0c, 0x0c, 0x3c, 0, 0],
     [0, 0x10, 0x38, 0x6c, 0xc6, 0, 0, 0, 0, 0, 0, 0, 0, 0, 0, 0],
     [0, 0, 0, 0, 0, 0, 0, 0, 0, 0, 0, 0, 0, 0, 0xff, 0],
     [0, 0x30, 0x30, 0x18, 0, 0, 0, 0, 0, 0, 0, 0, 0, 0, 0, 0],
     [0, 0, 0, 0, 0, 0, 0x78, 0x0c, 0x7c, 0xcc, 0xcc, 0xcc, 0x76, 0, 0, 0],
     [0, 0, 0, 0xe0, 0x60, 0x60, 0x78, 0x6c, 0x66, 0x66, 0x66, 0x66, 0x7c, 0, 0, 0],
     [0, 0, 0, 0, 0, 0, 0x7c, 0xc6, 0xc0, 0xc0, 0xc0, 0xc6, 0x7c, 0, 0, 0],
     [0, 0, 0, 0x1c, 0x0c, 0x0c, 0x3c, 0x6c, 0xcc, 0xcc, 0xcc, 0xcc, 0x76, 0, 0, 0],
     [0, 0, 0, 0, 0, 0, 0x7c, 0xc6, 0xfe, 0xc0, 0xc0, 0xc6, 0x7c, 0, 0, 0],
     [0, 0, 0, 0x1c, 0x36, 0x32, 0x30, 0x78, 0x30, 0x30, 0x30, 0x30, 0x78, 0, 0, 0],
     [0, 0, 0, 0, 0, 0, 0x76, 0xcc, 0xcc, 0xcc, 0xcc, 0xcc, 0x7c, 0x0c, 0xcc, 0x78],
     [0, 0, 0, 0xe0, 0x60, 0x60, 0x6c, 0x76, 0x66, 0x66, 0x66, 0x66, 0xe6, 0, 0, 0],
     [0, 0, 0, 0x18, 0x18, 0, 0x38, 0x18, 0x18, 0x18, 0x18, 0x18, 0x3c, 0, 0, 0],
     [0, 0, 0, 0x06, 0x06, 0, 0x0e, 0x06, 0x06, 0x06, 0x06, 0x06, 0x06, 0x66, 0x66, 0x3c],
     [0, 0, 0, 0xe0, 0x60, 0x60, 0x66, 0x6c, 0x78, 0x78, 0x6c, 0x66, 0xe6, 0, 0, 0],
     [0, 0, 0, 0x38, 0x18, 0x18, 0x18, 0x18, 0x18, 0x18, 0x18, 0x18, 0x3c, 0, 0, 0],
     [0, 0, 0, 0, 0, 0, 0xec, 0xfe, 0xd6, 0xd6, 0xd6, 0xd6, 0xc6, 0, 0, 0],
     [0, 0, 0, 0, 0, 0, 0xdc, 0x66, 0x66, 0x66, 0x66, 0x66, 0x66, 0, 0, 0],
     [0, 0, 0, 0, 0, 0, 0x7c, 0xc6, 0xc6, 0xc6, 0xc6, 0xc6, 0x7c, 0, 0, 0],
     [0, 0, 0, 0, 0, 0, 0xdc, 0x66, 0x66, 0x66, 0x66, 0x66, 0x7c, 0x60, 0x60, 0xf0],
     [0, 0, 0, 0, 0, 0, 0x76, 0xcc, 0xcc, 0xcc, 0xcc, 0xcc, 0x7c, 0x0c, 0x0c, 0x1e],
     [0, 0, 0, 0, 0, 0, 0xdc, 0x76, 0x66, 0x60, 0x60, 0x60, 0xf0, 0, 0, 0],
     [0, 0, 0, 0, 0, 0, 0x7c, 0xc6, 0x60, 0x38, 0x0c, 0xc6, 0x7c, 0, 0, 0],
     [0, 0, 0, 0x10, 0x30, 0x30, 0xfc, 0x30, 0x30, 0x30, 0x30, 0x36, 0x1c, 0, 0, 0],
     [0, 0, 0, 0, 0, 0, 0xcc, 0xcc, 0xcc, 0xcc, 0xcc, 0xcc, 0x76, 0, 0, 0],
     [0, 0, 0, 0, 0, 0, 0xc6, 0xc6, 0xc6, 0xc6, 0x6c, 0x38, 0x10, 0, 0, 0],
     [0, 0, 0, 0, 0, 0, 0xc6, 0xc6, 0xd6, 0xd6, 0xd6, 0xfe, 0x6c, 0, 0, 0],
     [0, 0, 0, 0, 0, 0, 0xc6, 0x6c, 0x38, 0x38, 0x38, 0x6c, 0xc6, 0, 0, 0],
     [0, 0, 0, 0, 0, 0, 0xc6, 0xc6, 0xc6, 0xc6, 0xc6, 0xc6, 0x7e, 0x06, 0x0c, 0xf8],
     [0, 0, 0, 0, 0, 0, 0xfe, 0xcc, 0x18, 0x30, 0x60, 0xc6, 0xfe, 0, 0, 0],
     [0, 0, 0x0e, 0x18, 0x18, 0x18, 0x70, 0x18, 0x18, 0x18, 0x18, 0x18, 0x0e, 0, 0, 0],
     [0, 0, 0x18, 0x18, 0x18, 0x18, 0, 0x18, 0x18, 0x18, 0x18, 0x18, 0x18, 0, 0, 0],
     [0, 0, 0x70, 0x18, 0x18, 0x18, 0x0e, 0x18, 0x18, 0x18, 0x18, 0x18, 0x70, 0, 0, 0],
     [0, 0x76, 0xdc, 0, 0, 0, 0, 0, 0, 0, 0, 0, 0, 0, 0, 0],
     replicate 16 0]"

definition glyph :: "nat \<Rightarrow> u8 list" where
  "glyph code = (if 0x7F < code then font_data ! 0x3F else font_data ! code)"

lemma font_shape: "length font_data = 128 \<and> list_all (\<lambda>g. length g = 16) font_data"
  by (simp add: font_data_def)

lemma length_glyph [simp]: "length (glyph code) = CHAR_HEIGHT"
proof -
  have "length (font_data ! i) = 16" if "i < 128" for i
    using font_shape that by (auto simp: list_all_iff)
  then show ?thesis by (simp add: glyph_def)
qed

lemma glyph_space: "glyph 32 = replicate 16 0"
  by (simp add: glyph_def font_data_def) (simp add: eval_nat_numeral)

end
