(* ===== verification/Framebuffer.thy ===== *)
theory Framebuffer
  imports Font Boot_Info Paging
begin

text \<open>
  The framebuffer driver, \<open>kernel/src/drivers/fb.rs\<close>: drawing into a back buffer, a dirty
  rectangle, \<open>commit\<close> (exchange of the back buffer and the buffer to present) and \<open>present\<close>
  (copy of the dirty rectangle to the screen or to the virtio-gpu resource).

  The screen \<open>front\<close> is the memory-mapped scan-out area, a list of pixels as long as the two
  buffers; an access through a raw pointer outside a buffer, which Rust leaves undefined, is
  \<open>Panic\<close> here, so that a theorem which excludes \<open>Panic\<close> excludes it.  The virtio-gpu device answers
  a command through the parameter \<open>gpu_answer\<close> of its record and \<open>gpu_log\<close> keeps the commands it was
  given.

  The lemmas give each drawing primitive as an update of a picture (a function from coordinates
  to colours) and show that \<open>commit\<close> followed by \<open>present\<close> brings the picture to the screen.
\<close>

named_theorems fb_simps \<open>unfolding rules for framebuffer operations\<close>

abbreviation BG :: u32 where "BG \<equiv> 0x0a0a14"
abbreviation WHITE :: u32 where "WHITE \<equiv> 0xe8e8f0"
abbreviation CYAN :: u32 where "CYAN \<equiv> 0x8be9fd"

section \<open>State\<close>

record dirty_rect =
  any_dirty :: bool
  rx0 :: nat
  ry0 :: nat
  rx1 :: nat
  ry1 :: nat

definition clean_rect :: dirty_rect where
  "clean_rect = \<lparr> any_dirty = False, rx0 = 0, ry0 = 0, rx1 = 0, ry1 = 0 \<rparr>"

datatype present_backend = Mmio | VirtioGpu

record fb =
  front :: "u32 list"
  back_buf :: "u32 list"
  present_buf :: "u32 list"
  fwidth :: nat
  fheight :: nat
  pitch_u32 :: nat
  text_scale :: nat
  dirty :: dirty_rect
  frame_ready :: bool
  ready_dirty :: dirty_rect
  backend :: present_backend

datatype gpu_cmd =
    TransferToHost2d (cmd_x: nat) (cmd_y: nat) (cmd_w: nat) (cmd_h: nat) (cmd_offset: nat)
  | ResourceFlush nat nat nat nat

record virtio_gpu =
  gpu_width :: nat
  gpu_height :: nat
  gpu_fb :: "u32 list"
  gpu_answer :: "gpu_cmd \<Rightarrow> unit result"
  gpu_log :: "gpu_cmd list"

section \<open>Copies\<close>

definition copy_nonoverlapping :: "u32 list \<Rightarrow> nat \<Rightarrow> u32 list \<Rightarrow> nat \<Rightarrow> nat \<Rightarrow> u32 list result" where
  "copy_nonoverlapping src s dst d n =
    (if s + n \<le> length src \<and> d + n \<le> length dst
     then Ok (take d dst @ take n (drop s src) @ drop (d + n) dst) else Panic)"

definition fast_blit_row :: "u32 list \<Rightarrow> nat \<Rightarrow> u32 list \<Rightarrow> nat \<Rightarrow> nat \<Rightarrow> u32 list result" where
  "fast_blit_row src s dst d count =
    (if count = 0 then Ok dst
     else let qwords = count div 2; tail = count mod 2 in
       rbind (if 0 < qwords then copy_nonoverlapping src s dst d (2 * qwords) else Ok dst) (\<lambda>dst.
       if 0 < tail then rbind (ridx src (s + (count - 1))) (rset dst (d + (count - 1))) else Ok dst))"

text \<open>The loop over the rows of a rectangle that \<open>commit\<close>, \<open>present\<close> and \<open>present_rect\<close> share.\<close>

definition copy_rows ::
  "(u32 list \<Rightarrow> nat \<Rightarrow> u32 list \<Rightarrow> nat \<Rightarrow> nat \<Rightarrow> u32 list result) \<Rightarrow> nat \<Rightarrow> u32 list \<Rightarrow> dirty_rect
   \<Rightarrow> u32 list \<Rightarrow> u32 list result" where
  "copy_rows cp pitch src r dst =
    rfold (\<lambda>y dst. rbind (cmul 32 y pitch) (\<lambda>row. rbind (csub (rx1 r) (rx0 r)) (\<lambda>len.
      cp src (row + rx0 r) dst (row + rx0 r) len))) [ry0 r..<ry1 r] dst"

section \<open>Geometry\<close>

definition pitch_bytes :: "fb \<Rightarrow> nat result" where
  "pitch_bytes f = cmul 32 (pitch_u32 f) 4"

definition glyph_width :: "fb \<Rightarrow> nat result" where
  "glyph_width f = cmul 32 CHAR_WIDTH (text_scale f)"

definition glyph_height :: "fb \<Rightarrow> nat result" where
  "glyph_height f = cmul 32 CHAR_HEIGHT (text_scale f)"

definition fb_idx :: "fb \<Rightarrow> nat \<Rightarrow> nat \<Rightarrow> nat result" where
  "fb_idx f x y = rbind (cmul 32 y (pitch_u32 f)) (\<lambda>r. cadd 32 r x)"

definition sat_add :: "nat \<Rightarrow> nat \<Rightarrow> nat" where
  "sat_add a b = min (a + b) (2 ^ 32 - 1)"

definition sat_mul :: "nat \<Rightarrow> nat \<Rightarrow> nat" where
  "sat_mul a b = min (a * b) (2 ^ 32 - 1)"

definition mark_dirty_rect :: "nat \<Rightarrow> nat \<Rightarrow> nat \<Rightarrow> nat \<Rightarrow> fb \<Rightarrow> fb" where
  "mark_dirty_rect x y w h f =
    (if w = 0 \<or> h = 0 then f
     else let x0 = min x (fwidth f); y0 = min y (fheight f);
              x1 = min (sat_add x w) (fwidth f); y1 = min (sat_add y h) (fheight f) in
       if x1 \<le> x0 \<or> y1 \<le> y0 then f
       else if \<not> any_dirty (dirty f) then
         f \<lparr> dirty := \<lparr> any_dirty = True, rx0 = x0, ry0 = y0, rx1 = x1, ry1 = y1 \<rparr> \<rparr>
       else f \<lparr> dirty := (dirty f) \<lparr> rx0 := min (rx0 (dirty f)) x0, ry0 := min (ry0 (dirty f)) y0,
                                   rx1 := max (rx1 (dirty f)) x1, ry1 := max (ry1 (dirty f)) y1 \<rparr> \<rparr>)"

section \<open>Drawing\<close>

definition set_back :: "fb \<Rightarrow> u32 list \<Rightarrow> fb" where
  "set_back f b = f \<lparr> back_buf := b \<rparr>"

definition put_pixel :: "nat \<Rightarrow> nat \<Rightarrow> u32 \<Rightarrow> fb \<Rightarrow> fb result" where
  "put_pixel x y rgb f =
    (if fwidth f \<le> x \<or> fheight f \<le> y then Ok f
     else rbind (fb_idx f x y) (\<lambda>off. rbind (rset (back_buf f) off rgb) (\<lambda>b.
       Ok (mark_dirty_rect x y 1 1 (set_back f b)))))"

definition fill_rect :: "nat \<Rightarrow> nat \<Rightarrow> nat \<Rightarrow> nat \<Rightarrow> u32 \<Rightarrow> fb \<Rightarrow> fb result" where
  "fill_rect x y w h rgb f =
    (let x1 = min x (fwidth f); y1 = min y (fheight f);
         x2 = min (sat_add x w) (fwidth f); y2 = min (sat_add y h) (fheight f) in
     rbind (rfold (\<lambda>py b. rbind (cmul 32 py (pitch_u32 f)) (\<lambda>row.
              rfold (\<lambda>px b. rset b (row + px) rgb) [x1..<x2] b)) [y1..<y2] (back_buf f)) (\<lambda>b.
     Ok (mark_dirty_rect x1 y1 (x2 - x1) (y2 - y1) (set_back f b))))"

definition fb_clear :: "u32 \<Rightarrow> fb \<Rightarrow> fb result" where
  "fb_clear rgb f = fill_rect 0 0 (fwidth f) (fheight f) rgb f"

text \<open>Bit \<open>7 - gx\<close> of a glyph row is its pixel in column \<open>gx\<close>.\<close>

definition glyph_on :: "u8 \<Rightarrow> nat \<Rightarrow> bool" where
  "glyph_on bits gx \<longleftrightarrow> drop_bit (7 - gx) bits AND 1 \<noteq> 0"

text \<open>The fast path, for a scale of one.  The row \<open>y + gy\<close> reaches the height, where the loop of the
  source ends, before it can overflow.\<close>

definition blit_fast :: "nat \<Rightarrow> nat \<Rightarrow> u8 list \<Rightarrow> u32 \<Rightarrow> u32 \<Rightarrow> fb \<Rightarrow> u32 list result" where
  "blit_fast x y gl fg bg f =
    rbind (cadd 32 x 8) (\<lambda>xe.
    rbind (csub (min xe (fwidth f)) x) (\<lambda>cols.
    rfold (\<lambda>gy b. let py = y + gy in
        if fheight f \<le> py then Ok b
        else rbind (cmul 32 py (pitch_u32 f)) (\<lambda>row.
          rfold (\<lambda>gx b. rset b (row + x + gx) (if glyph_on (gl ! gy) gx then fg else bg))
            [0..<cols] b)) [0..<CHAR_HEIGHT] (back_buf f)))"

text \<open>The slow path: every pixel of the glyph is a square of \<open>scale\<close> by \<open>scale\<close> pixels.  Once a
  loop of the source leaves through its \<open>break\<close>, the condition of the \<open>break\<close> holds for the
  iterations it drops.\<close>

definition blit_slow :: "nat \<Rightarrow> nat \<Rightarrow> u8 list \<Rightarrow> u32 \<Rightarrow> u32 \<Rightarrow> fb \<Rightarrow> u32 list result" where
  "blit_slow x y gl fg bg f =
    (let scale = text_scale f in
     rfold (\<lambda>gy b. rfold (\<lambda>sy b.
        let py = sat_add (sat_add y (sat_mul gy scale)) sy in
        if fheight f \<le> py then Ok b
        else rbind (cmul 32 py (pitch_u32 f)) (\<lambda>row.
          rfold (\<lambda>gx b. rfold (\<lambda>sx b.
              let px = sat_add (sat_add x (sat_mul gx scale)) sx in
              if fwidth f \<le> px then Ok b
              else rset b (row + px) (if glyph_on (gl ! gy) gx then fg else bg)) [0..<scale] b)
            [0..<CHAR_WIDTH] b)) [0..<scale] b) [0..<CHAR_HEIGHT] (back_buf f))"

definition blit_char :: "nat \<Rightarrow> nat \<Rightarrow> nat \<Rightarrow> u32 \<Rightarrow> u32 \<Rightarrow> fb \<Rightarrow> fb result" where
  "blit_char x y ch fg bg f =
    (if fwidth f \<le> x \<or> fheight f \<le> y then Ok f
     else rbind (glyph_width f) (\<lambda>gw. rbind (glyph_height f) (\<lambda>gh.
       rbind (if text_scale f = 1 then blit_fast x y (glyph ch) fg bg f
              else blit_slow x y (glyph ch) fg bg f) (\<lambda>b.
       Ok (mark_dirty_rect x y gw gh (set_back f b))))))"

definition scroll_up_bounded :: "nat \<Rightarrow> nat \<Rightarrow> u32 \<Rightarrow> fb \<Rightarrow> fb result" where
  "scroll_up_bounded max_y pixels clear_color f =
    (if pixels = 0 \<or> max_y \<le> pixels then Ok f
     else let y_lim = min max_y (fheight f); line = pitch_u32 f in
       rbind (csub y_lim pixels) (\<lambda>n.
       rbind (rslice (back_buf f) (pixels * line) (pixels * line + n * line)) (\<lambda>moved.
       rbind (fill_rect 0 n (fwidth f) pixels clear_color
                (set_back f (moved @ drop (n * line) (back_buf f)))) (\<lambda>f.
       Ok (mark_dirty_rect 0 0 (fwidth f) y_lim f)))))"

definition scroll_up :: "nat \<Rightarrow> u32 \<Rightarrow> fb \<Rightarrow> fb result" where
  "scroll_up pixels clear_color f = scroll_up_bounded (fheight f) pixels clear_color f"

definition read_back :: "nat \<Rightarrow> nat \<Rightarrow> fb \<Rightarrow> u32 result" where
  "read_back x y f =
    (if fwidth f \<le> x \<or> fheight f \<le> y then Ok 0
     else rbind (fb_idx f x y) (ridx (back_buf f)))"

definition write_back_raw :: "nat \<Rightarrow> nat \<Rightarrow> u32 \<Rightarrow> fb \<Rightarrow> fb result" where
  "write_back_raw x y color f =
    (if fwidth f \<le> x \<or> fheight f \<le> y then Ok f
     else rbind (fb_idx f x y) (\<lambda>off. rbind (rset (back_buf f) off color) (\<lambda>b. Ok (set_back f b))))"

section \<open>Commit and present\<close>

definition commit :: "fb \<Rightarrow> fb result" where
  "commit f =
    (if \<not> any_dirty (dirty f) \<and> \<not> frame_ready f then Ok f
     else if any_dirty (dirty f) then
       let r = dirty f; shown = back_buf f in
       rbind (copy_rows copy_nonoverlapping (pitch_u32 f) shown r (present_buf f)) (\<lambda>b.
       Ok (f \<lparr> ready_dirty := r, dirty := clean_rect, present_buf := shown, back_buf := b,
              frame_ready := True \<rparr>))
     else Ok f)"

definition present_mmio :: "fb \<Rightarrow> fb result" where
  "present_mmio f =
    rbind (csub (rx1 (ready_dirty f)) (rx0 (ready_dirty f))) (\<lambda>_.
    rbind (copy_rows fast_blit_row (pitch_u32 f) (present_buf f) (ready_dirty f) (front f)) (\<lambda>fr.
    Ok (f \<lparr> front := fr \<rparr>)))"

definition gpu_submit :: "gpu_cmd \<Rightarrow> (virtio_gpu, unit) op" where
  "gpu_submit c g = (gpu_answer g c, g \<lparr> gpu_log := gpu_log g @ [c] \<rparr>)"

definition present_region :: "nat \<Rightarrow> nat \<Rightarrow> nat \<Rightarrow> nat \<Rightarrow> (virtio_gpu, unit) op" where
  "present_region x y w h g =
    (if w = 0 \<or> h = 0 then (Ok (), g)
     else let x = min x (gpu_width g - 1); y = min y (gpu_height g - 1) in
       sbind (slift (csub (gpu_width g) x)) (\<lambda>ww. sbind (slift (csub (gpu_height g) y)) (\<lambda>hh.
       let w = min w ww; h = min h hh in
       sbind (slift (rbind (cmul 32 y (gpu_width g)) (\<lambda>r. cadd 32 r x))) (\<lambda>p.
       sbind (gpu_submit (TransferToHost2d x y w h (p * 4))) (\<lambda>_.
       gpu_submit (ResourceFlush x y w h))))) g)"

definition present_virtio_gpu :: "fb \<Rightarrow> virtio_gpu option \<Rightarrow> virtio_gpu option result" where
  "present_virtio_gpu f g = (case g of
      None \<Rightarrow> Ok None
    | Some g \<Rightarrow> let r = ready_dirty f in
        rbind (csub (rx1 r) (rx0 r)) (\<lambda>w. rbind (csub (ry1 r) (ry0 r)) (\<lambda>h.
        if w = 0 \<or> h = 0 then Ok (Some g)
        else rbind (rfold (\<lambda>y dst. rbind (cmul 32 y (pitch_u32 f)) (\<lambda>row.
                 copy_nonoverlapping (present_buf f) (row + rx0 r) dst (y * gpu_width g + rx0 r) w))
               [ry0 r..<ry1 r] (gpu_fb g)) (\<lambda>dst.
          case present_region (rx0 r) (ry0 r) w h (g \<lparr> gpu_fb := dst \<rparr>) of
            (Panic, _) \<Rightarrow> Panic | (_, g) \<Rightarrow> Ok (Some g)))))"

definition present :: "fb \<times> virtio_gpu option \<Rightarrow> (fb \<times> virtio_gpu option) result" where
  "present = (\<lambda>(f, g).
    if \<not> frame_ready f then Ok (f, g)
    else rbind (case backend f of
          Mmio \<Rightarrow> rbind (present_mmio f) (\<lambda>f. Ok (f, g))
        | VirtioGpu \<Rightarrow> rbind (present_virtio_gpu f g) (\<lambda>g. Ok (f, g))) (\<lambda>(f, g).
      Ok (f \<lparr> frame_ready := False, ready_dirty := clean_rect \<rparr>, g)))"

definition set_backend :: "present_backend \<Rightarrow> fb \<Rightarrow> fb" where
  "set_backend b f = f \<lparr> backend := b \<rparr>"

definition present_rect :: "nat \<Rightarrow> nat \<Rightarrow> nat \<Rightarrow> nat \<Rightarrow> fb \<Rightarrow> fb result" where
  "present_rect x y w h f =
    rbind (cadd 32 x w) (\<lambda>xe. rbind (cadd 32 y h) (\<lambda>ye.
    let x1 = min xe (fwidth f); y1 = min ye (fheight f);
        x0 = min x (fwidth f); y0 = min y (fheight f) in
    if x1 \<le> x0 \<or> y1 \<le> y0 then Ok f
    else rbind (copy_rows fast_blit_row (pitch_u32 f) (present_buf f)
                 \<lparr> any_dirty = True, rx0 = x0, ry0 = y0, rx1 = x1, ry1 = y1 \<rparr> (front f)) (\<lambda>fr.
      Ok (f \<lparr> front := fr \<rparr>))))"

definition write_front_pixel :: "nat \<Rightarrow> nat \<Rightarrow> u32 \<Rightarrow> fb \<Rightarrow> fb result" where
  "write_front_pixel x y rgb f =
    (if fwidth f \<le> x \<or> fheight f \<le> y then Ok f
     else rbind (fb_idx f x y) (\<lambda>off. rbind (rset (front f) off rgb) (\<lambda>fr.
       Ok (f \<lparr> front := fr \<rparr>))))"

definition read_back_pixel :: "nat \<Rightarrow> nat \<Rightarrow> fb \<Rightarrow> u32 result" where
  "read_back_pixel x y f =
    (if fwidth f \<le> x \<or> fheight f \<le> y then Ok 0
     else rbind (fb_idx f x y) (ridx (present_buf f)))"

definition restore_front_region :: "nat \<Rightarrow> nat \<Rightarrow> nat \<Rightarrow> nat \<Rightarrow> fb \<Rightarrow> fb result" where
  "restore_front_region = present_rect"

section \<open>Initialisation\<close>

definition choose_scale :: "nat \<Rightarrow> nat" where
  "choose_scale w = (if 2560 \<le> w then 3 else if 1920 \<le> w then 2 else 1)"

definition blank_fb :: "u32 list \<Rightarrow> nat \<Rightarrow> nat \<Rightarrow> nat \<Rightarrow> nat \<Rightarrow> present_backend \<Rightarrow> fb" where
  "blank_fb fr w h pitch len be = \<lparr> front = fr, back_buf = replicate len BG, present_buf = replicate len BG,
     fwidth = w, fheight = h, pitch_u32 = pitch, text_scale = choose_scale w, dirty = clean_rect,
     frame_ready = False, ready_dirty = clean_rect, backend = be \<rparr>"

definition first_frame :: "fb \<times> virtio_gpu option \<Rightarrow> (fb \<times> virtio_gpu option) result" where
  "first_frame = (\<lambda>(f, g). rbind (fb_clear BG f) (\<lambda>f. rbind (commit f) (\<lambda>f. present (f, g))))"

text \<open>\<open>fr\<close> is what the memory-mapped screen shows before the driver starts.\<close>

definition fb_init :: "x86_ops \<Rightarrow> framebuffer_info \<Rightarrow> u32 list \<Rightarrow> virtio_gpu option
    \<Rightarrow> (kmem, fb \<times> virtio_gpu option) op" where
  "fb_init X info fr g =
    (if fb_type info \<noteq> 1 then serr ''FB: type non RGB (type 1 attendu)''
     else if fb_bpp info \<noteq> 32 then serr ''FB: seul 32 bpp supporte pour l'instant''
     else if fb_pitch info mod 4 \<noteq> 0 then serr ''FB: pitch non multiple de 4''
     else sbind (slift (cmul 32 (fb_pitch info) (fb_height info))) (\<lambda>sz.
       sbind (map_mmio X (fb_addr info) sz) (\<lambda>_.
       sbind (slift (cmul 32 (fb_pitch info div 4) (fb_height info))) (\<lambda>len.
       slift (first_frame (blank_fb fr (fb_width info) (fb_height info) (fb_pitch info div 4) len Mmio, g))))))"

definition init_virtio_gpu :: "nat \<Rightarrow> nat \<Rightarrow> fb option \<times> virtio_gpu option
    \<Rightarrow> (fb \<times> virtio_gpu option) result" where
  "init_virtio_gpu w h = (\<lambda>(old, g).
    if old \<noteq> None then Err ''FB deja initialise''
    else rbind (cmul 32 w h) (\<lambda>len. first_frame (blank_fb [] w h w len VirtioGpu, g)))"

section \<open>Buffer updates as pointwise writes\<close>

text \<open>\<open>writes L W F g\<close>: on a buffer of \<open>L\<close> pixels, \<open>g\<close> succeeds and stores \<open>F i\<close> at exactly the
  indices \<open>i\<close> of \<open>W\<close>.\<close>

definition writes :: "nat \<Rightarrow> (nat \<Rightarrow> bool) \<Rightarrow> (nat \<Rightarrow> u32) \<Rightarrow> (u32 list \<Rightarrow> u32 list result) \<Rightarrow> bool" where
  "writes L W F g \<longleftrightarrow> (\<forall>d. length d = L \<longrightarrow>
     (\<exists>d'. g d = Ok d' \<and> length d' = L \<and> (\<forall>i < L. d' ! i = (if W i then F i else d ! i))))"

lemma writesD:
  assumes "writes L W F g" "length d = L"
  obtains d' where "g d = Ok d'" "length d' = L" "\<And>i. i < L \<Longrightarrow> d' ! i = (if W i then F i else d ! i)"
  using assms unfolding writes_def by blast

lemma writes_none: "writes L (\<lambda>_. False) F Ok"
  by (simp add: writes_def)

lemma writes_rset:
  assumes "i < L" "F i = v"
  shows "writes L (\<lambda>j. j = i) F (\<lambda>b. rset b i v)"
  using assms by (auto simp: writes_def rset_def nth_list_update)

lemma writes_rfold:
  assumes "\<And>x. x \<in> set xs \<Longrightarrow> writes L (W x) F (g x)"
  shows "writes L (\<lambda>i. \<exists>x \<in> set xs. W x i) F (rfold g xs)"
  using assms
proof (induction xs)
  case Nil
  then show ?case by (simp add: writes_def)
next
  case (Cons x xs)
  have IH: "writes L (\<lambda>i. \<exists>x \<in> set xs. W x i) F (rfold g xs)" using Cons by simp
  show ?case unfolding writes_def
  proof (intro allI impI)
    fix d :: "u32 list" assume d: "length d = L"
    obtain e where e: "g x d = Ok e" "length e = L" "\<And>i. i < L \<Longrightarrow> e ! i = (if W x i then F i else d ! i)"
      by (rule writesD[OF Cons.prems d]) auto
    obtain d' where "rfold g xs e = Ok d'" "length d' = L"
      "\<And>i. i < L \<Longrightarrow> d' ! i = (if \<exists>x \<in> set xs. W x i then F i else e ! i)"
      by (rule writesD[OF IH e(2)]) auto
    then show "\<exists>d'. rfold g (x # xs) d = Ok d' \<and> length d' = L \<and>
        (\<forall>i<L. d' ! i = (if \<exists>x\<in>set (x # xs). W x i then F i else d ! i))"
      using e by auto
  qed
qed

lemma writes_cong: "writes L W F g \<Longrightarrow> (\<And>i. i < L \<Longrightarrow> W i = W' i) \<Longrightarrow> writes L W' F g"
  unfolding writes_def by simp

lemma writes_if: "(\<not> c \<Longrightarrow> writes L W F g) \<Longrightarrow> writes L (\<lambda>i. \<not> c \<and> W i) F (\<lambda>b. if c then Ok b else g b)"
  by (cases c) (simp_all add: writes_def)

lemma writes_copy:
  assumes "s + n \<le> length src" "t + n \<le> L" and "\<And>i. i < n \<Longrightarrow> F (t + i) = src ! (s + i)"
  shows "writes L (\<lambda>i. t \<le> i \<and> i < t + n) F (\<lambda>d. copy_nonoverlapping src s d t n)"
proof -
  have F: "src ! (s + i - t) = F i" if "t \<le> i" "i < t + n" for i
    using assms(3)[of "i - t"] that by simp
  show ?thesis
    using assms(1,2) by (auto simp: writes_def copy_nonoverlapping_def nth_append F)
qed

lemma fast_blit_row_copy:
  assumes "s + n \<le> length src" "t + n \<le> length d"
  shows "fast_blit_row src s d t n = copy_nonoverlapping src s d t n"
proof -
  define q where "q = n div 2"
  consider "n = 2 * q" | "n = Suc (2 * q)" unfolding q_def by linarith
  then show ?thesis
  proof cases
    case 1
    then show ?thesis using assms by (auto simp: fast_blit_row_def copy_nonoverlapping_def Let_def)
  next
    case 2
    have "take (Suc (2 * q)) (drop s src) = take (2 * q) (drop s src) @ [src ! (s + 2 * q)]"
      using assms 2 by (simp add: take_Suc_conv_app_nth)
    moreover have "drop (t + 2 * q) d = d ! (t + 2 * q) # drop (t + Suc (2 * q)) d"
      using assms 2 by (simp add: Cons_nth_drop_Suc)
    ultimately show ?thesis
      using assms 2 by (auto simp: fast_blit_row_def copy_nonoverlapping_def Let_def ridx_def rset_def
          list_update_append upd_conv_take_nth_drop)
  qed
qed

section \<open>The invariant\<close>

definition in_rect :: "dirty_rect \<Rightarrow> nat \<Rightarrow> nat \<Rightarrow> bool" where
  "in_rect r x y \<longleftrightarrow> rx0 r \<le> x \<and> x < rx1 r \<and> ry0 r \<le> y \<and> y < ry1 r"

definition rect_ok :: "fb \<Rightarrow> dirty_rect \<Rightarrow> bool" where
  "rect_ok f r \<longleftrightarrow> rx0 r \<le> rx1 r \<and> rx1 r \<le> fwidth f \<and> ry0 r \<le> ry1 r \<and> ry1 r \<le> fheight f \<and>
     (\<not> any_dirty r \<longrightarrow> r = clean_rect)"

definition buf_len :: "fb \<Rightarrow> nat" where
  "buf_len f = pitch_u32 f * fheight f"

text \<open>The shape of the driver's state: three buffers of one size, a pitch at least as large as the
  width, and an area whose size in bytes fits 32 bits (\<open>init\<close> computes it with a checked product).\<close>

definition fb_ok :: "fb \<Rightarrow> bool" where
  "fb_ok f \<longleftrightarrow> length (back_buf f) = buf_len f \<and> length (present_buf f) = buf_len f \<and>
     length (front f) = buf_len f \<and> fwidth f \<le> pitch_u32 f \<and> 4 * buf_len f < 2 ^ 32 \<and>
     fwidth f < 2 ^ 32 \<and> fheight f < 2 ^ 32 \<and> text_scale f \<in> {1, 2, 3} \<and> backend f = Mmio \<and>
     rect_ok f (dirty f) \<and> rect_ok f (ready_dirty f)"

definition pixel :: "fb \<Rightarrow> u32 list \<Rightarrow> nat \<Rightarrow> nat \<Rightarrow> u32" where
  "pixel f b x y = b ! (y * pitch_u32 f + x)"

definition on_screen :: "fb \<Rightarrow> nat \<Rightarrow> nat \<Rightarrow> bool" where
  "on_screen f x y \<longleftrightarrow> x < fwidth f \<and> y < fheight f"

text \<open>The buffers agree where nothing is dirty: back and present buffer outside the dirty
  rectangle, present buffer and screen outside the rectangle that waits for \<open>present\<close>.\<close>

definition synced :: "fb \<Rightarrow> bool" where
  "synced f \<longleftrightarrow> (\<forall>x y. on_screen f x y \<longrightarrow>
     (\<not> in_rect (dirty f) x y \<longrightarrow> pixel f (back_buf f) x y = pixel f (present_buf f) x y) \<and>
     (\<not> in_rect (ready_dirty f) x y \<longrightarrow> pixel f (present_buf f) x y = pixel f (front f) x y))"

lemma fb_index_less:
  assumes "x < fwidth f" "y < fheight f" "fwidth f \<le> pitch_u32 f"
  shows "y * pitch_u32 f + x < buf_len f"
proof -
  have "y * pitch_u32 f + x < Suc y * pitch_u32 f" using assms by simp
  also have "\<dots> \<le> fheight f * pitch_u32 f" using assms by (intro mult_le_mono1) simp
  finally show ?thesis by (simp add: buf_len_def mult.commute)
qed

lemma row_index_eq:
  fixes x x' y y' p :: nat
  assumes "x < p" "x' < p"
  shows "y * p + x = y' * p + x' \<longleftrightarrow> x = x' \<and> y = y'"
proof -
  have "(y * p + x) div p = y" "(y * p + x) mod p = x" "(y' * p + x') div p = y'"
    "(y' * p + x') mod p = x'" using assms by simp_all
  then show ?thesis by metis
qed

lemma same_row:
  fixes y p v u :: nat
  assumes "y * p \<le> v * p + u" "v * p + u < y * p + p" "u < p"
  shows "v = y"
proof -
  have "v * p < Suc y * p" "y * p < Suc v * p" using assms by simp_all
  then show ?thesis by (simp only: mult_less_cancel2) simp
qed

lemma fb_row:
  assumes "fb_ok f" "y < fheight f"
  shows "cmul 32 y (pitch_u32 f) = Ok (y * pitch_u32 f)"
proof -
  have "y * pitch_u32 f \<le> fheight f * pitch_u32 f" using assms(2) by (intro mult_le_mono1) simp
  also have "\<dots> = buf_len f" by (simp add: buf_len_def)
  also have "\<dots> < 2 ^ 32" using assms(1) by (simp add: fb_ok_def)
  finally show ?thesis by (simp add: cmul_def)
qed

lemma fb_idx_ok:
  assumes "fb_ok f" "x < fwidth f" "y < fheight f"
  shows "fb_idx f x y = Ok (y * pitch_u32 f + x)"
proof -
  have "y * pitch_u32 f + x < buf_len f" using assms by (intro fb_index_less) (auto simp: fb_ok_def)
  then show ?thesis using assms by (simp add: fb_idx_def fb_row cadd_def fb_ok_def)
qed

lemma sat_add_min [simp]: "k < 2 ^ 32 \<Longrightarrow> min (sat_add a b) k = min (a + b) k"
  by (simp add: sat_add_def min_def)

lemma mark_dirty_rect_simps [simp]:
  "front (mark_dirty_rect x y w h f) = front f" "back_buf (mark_dirty_rect x y w h f) = back_buf f"
  "present_buf (mark_dirty_rect x y w h f) = present_buf f"
  "fwidth (mark_dirty_rect x y w h f) = fwidth f" "fheight (mark_dirty_rect x y w h f) = fheight f"
  "pitch_u32 (mark_dirty_rect x y w h f) = pitch_u32 f"
  "text_scale (mark_dirty_rect x y w h f) = text_scale f"
  "frame_ready (mark_dirty_rect x y w h f) = frame_ready f"
  "ready_dirty (mark_dirty_rect x y w h f) = ready_dirty f"
  "backend (mark_dirty_rect x y w h f) = backend f"
  by (simp_all add: mark_dirty_rect_def Let_def)

lemma set_back_simps [simp]:
  "front (set_back f b) = front f" "back_buf (set_back f b) = b" "present_buf (set_back f b) = present_buf f"
  "fwidth (set_back f b) = fwidth f" "fheight (set_back f b) = fheight f"
  "pitch_u32 (set_back f b) = pitch_u32 f" "text_scale (set_back f b) = text_scale f"
  "dirty (set_back f b) = dirty f" "frame_ready (set_back f b) = frame_ready f"
  "ready_dirty (set_back f b) = ready_dirty f" "backend (set_back f b) = backend f"
  by (simp_all add: set_back_def)

lemma mark_dirty_rect_ok:
  assumes "rect_ok f (dirty f)" "fwidth f < 2 ^ 32" "fheight f < 2 ^ 32"
  shows "rect_ok f (dirty (mark_dirty_rect x y w h f))"
  using assms by (auto simp: mark_dirty_rect_def Let_def rect_ok_def clean_rect_def)

lemma mark_dirty_rect_covers:
  assumes "rect_ok f (dirty f)" "fwidth f < 2 ^ 32" "fheight f < 2 ^ 32" "on_screen f a b"
    and "in_rect (dirty f) a b \<or> x \<le> a \<and> a < x + w \<and> y \<le> b \<and> b < y + h"
  shows "in_rect (dirty (mark_dirty_rect x y w h f)) a b"
  using assms by (auto simp: mark_dirty_rect_def Let_def rect_ok_def clean_rect_def in_rect_def on_screen_def)

section \<open>Drawing primitives as updates of a picture\<close>

text \<open>What a drawing operation promises: it succeeds, keeps the shape, the geometry, the buffers that
  are not drawn into and the agreement of the buffers, and changes the picture in the back buffer by \<open>g\<close>.\<close>

definition draws :: "fb \<Rightarrow> ((nat \<Rightarrow> nat \<Rightarrow> u32) \<Rightarrow> nat \<Rightarrow> nat \<Rightarrow> u32) \<Rightarrow> fb result \<Rightarrow> bool" where
  "draws f g r \<longleftrightarrow> (\<exists>f'. r = Ok f' \<and> fb_ok f' \<and> synced f' \<and> fwidth f' = fwidth f \<and>
     fheight f' = fheight f \<and> pitch_u32 f' = pitch_u32 f \<and> text_scale f' = text_scale f \<and>
     frame_ready f' = frame_ready f \<and> ready_dirty f' = ready_dirty f \<and>
     (\<forall>x y. on_screen f x y \<longrightarrow>
        pixel f (back_buf f') x y = g (pixel f (back_buf f)) x y))"

lemma fb_ok_set_back:
  assumes "fb_ok f" "length b = buf_len f"
  shows "fb_ok (mark_dirty_rect x y w h (set_back f b))"
proof -
  have "rect_ok (set_back f b) (dirty (mark_dirty_rect x y w h (set_back f b)))"
    by (rule mark_dirty_rect_ok) (use assms in \<open>auto simp: fb_ok_def rect_ok_def\<close>)
  then show ?thesis using assms by (auto simp: fb_ok_def buf_len_def rect_ok_def)
qed

text \<open>A primitive that stores into the rectangle it marks last.\<close>

lemma draws_marked_from:
  assumes ok: "fb_ok f" "synced f" and b: "length b = buf_len f"
    and f0: "f0 = f \<lparr> back_buf := b, dirty := r \<rparr>" and r: "rect_ok f r"
    and grow: "\<And>u v. on_screen f u v \<Longrightarrow> in_rect (dirty f) u v \<Longrightarrow> in_rect r u v"
    and change: "\<And>u v. on_screen f u v \<Longrightarrow> pixel f b u v = g (pixel f (back_buf f)) u v"
    and local: "\<And>u v. on_screen f u v \<Longrightarrow> \<not> (x \<le> u \<and> u < x + w \<and> y \<le> v \<and> v < y + h) \<Longrightarrow>
        g (pixel f (back_buf f)) u v = pixel f (back_buf f) u v"
  shows "draws f g (Ok (mark_dirty_rect x y w h f0))"
proof -
  let ?f = "mark_dirty_rect x y w h f0"
  have r0: "rect_ok f0 (dirty f0)" "fwidth f0 < 2 ^ 32" "fheight f0 < 2 ^ 32"
    using r ok f0 by (auto simp: rect_ok_def fb_ok_def)
  have ok': "fb_ok ?f"
    using mark_dirty_rect_ok[OF r0, of x y w h] ok b f0 by (auto simp: fb_ok_def buf_len_def rect_ok_def)
  have cov: "in_rect (dirty ?f) u v"
    if "on_screen f u v" "in_rect (dirty f) u v \<or> x \<le> u \<and> u < x + w \<and> y \<le> v \<and> v < y + h" for u v
    by (rule mark_dirty_rect_covers[OF r0]) (use grow that f0 in \<open>auto simp: on_screen_def\<close>)
  have px: "pixel ?f = pixel f" by (simp add: pixel_def fun_eq_iff f0)
  have on: "on_screen ?f = on_screen f" by (simp add: on_screen_def fun_eq_iff f0)
  have "synced ?f"
    unfolding synced_def px on
  proof (intro allI impI conjI)
    fix u v assume u: "on_screen f u v"
    show "pixel f (back_buf ?f) u v = pixel f (present_buf ?f) u v" if "\<not> in_rect (dirty ?f) u v"
    proof -
      have "\<not> in_rect (dirty f) u v" "\<not> (x \<le> u \<and> u < x + w \<and> y \<le> v \<and> v < y + h)"
        using cov[OF u] that by blast+
      then show ?thesis using ok(2) u change[OF u] local[OF u] by (auto simp: synced_def f0)
    qed
    show "pixel f (present_buf ?f) u v = pixel f (front ?f) u v" if "\<not> in_rect (ready_dirty ?f) u v"
      using ok(2) u that by (simp add: synced_def f0)
  qed
  then show ?thesis using ok' change by (simp add: draws_def f0)
qed

lemma draws_marked:
  assumes "fb_ok f" "synced f" "length b = buf_len f"
    and "\<And>u v. on_screen f u v \<Longrightarrow> pixel f b u v = g (pixel f (back_buf f)) u v"
    and "\<And>u v. on_screen f u v \<Longrightarrow> \<not> (x \<le> u \<and> u < x + w \<and> y \<le> v \<and> v < y + h) \<Longrightarrow>
        g (pixel f (back_buf f)) u v = pixel f (back_buf f) u v"
  shows "draws f g (Ok (mark_dirty_rect x y w h (set_back f b)))"
  by (rule draws_marked_from[OF assms(1,2,3), of _ "dirty f"])
     (use assms in \<open>auto simp: fb_ok_def set_back_def\<close>)

lemma mark_set_back:
  "mark_dirty_rect x y w h (set_back f b) =
     f \<lparr> back_buf := b, dirty := dirty (mark_dirty_rect x y w h (set_back f b)) \<rparr>"
  by (simp add: mark_dirty_rect_def set_back_def Let_def)

lemma fill_rows:
  assumes ok: "fb_ok f" and x: "x2 \<le> fwidth f" and y: "y2 \<le> fheight f"
  shows "writes (buf_len f) (\<lambda>i. \<exists>py \<in> {y1..<y2}. \<exists>px \<in> {x1..<x2}. i = py * pitch_u32 f + px) (\<lambda>_. rgb)
     (rfold (\<lambda>py b. rbind (cmul 32 py (pitch_u32 f)) (\<lambda>row.
        rfold (\<lambda>px b. rset b (row + px) rgb) [x1..<x2] b)) [y1..<y2])"
proof -
  have idx: "py * pitch_u32 f + px < buf_len f" if "py < y2" "px < x2" for px py
    using fb_index_less[of px f py] that ok x y by (simp add: fb_ok_def)
  have "writes (buf_len f) (\<lambda>i. \<exists>py \<in> set [y1..<y2]. \<exists>px \<in> set [x1..<x2]. i = py * pitch_u32 f + px) (\<lambda>_. rgb)
     (rfold (\<lambda>py b. rbind (cmul 32 py (pitch_u32 f)) (\<lambda>row.
        rfold (\<lambda>px b. rset b (row + px) rgb) [x1..<x2] b)) [y1..<y2])"
  proof (rule writes_rfold)
    fix py assume py: "py \<in> set [y1..<y2]"
    have "writes (buf_len f) (\<lambda>i. \<exists>px \<in> set [x1..<x2]. i = py * pitch_u32 f + px) (\<lambda>_. rgb)
        (rfold (\<lambda>px b. rset b (py * pitch_u32 f + px) rgb) [x1..<x2])"
      by (intro writes_rfold writes_rset) (use py idx in auto)
    then show "writes (buf_len f) (\<lambda>i. \<exists>px \<in> set [x1..<x2]. i = py * pitch_u32 f + px) (\<lambda>_. rgb)
        (\<lambda>b. rbind (cmul 32 py (pitch_u32 f)) (\<lambda>row. rfold (\<lambda>px b. rset b (row + px) rgb) [x1..<x2] b))"
      using py y by (simp add: fb_row[OF ok])
  qed
  then show ?thesis by simp
qed

lemma fill_rect_back:
  assumes ok: "fb_ok f"
  obtains b where
    "fill_rect x y w h rgb f = Ok (mark_dirty_rect (min x (fwidth f)) (min y (fheight f))
       (min (x + w) (fwidth f) - min x (fwidth f)) (min (y + h) (fheight f) - min y (fheight f)) (set_back f b))"
    "length b = buf_len f"
    "\<And>u v. on_screen f u v \<Longrightarrow> pixel f b u v =
       (if x \<le> u \<and> u < x + w \<and> y \<le> v \<and> v < y + h then rgb else pixel f (back_buf f) u v)"
proof -
  let ?x1 = "min x (fwidth f)" and ?x2 = "min (x + w) (fwidth f)"
    and ?y1 = "min y (fheight f)" and ?y2 = "min (y + h) (fheight f)"
  have len: "length (back_buf f) = buf_len f" and w: "fwidth f \<le> pitch_u32 f"
    and b32: "fwidth f < 2 ^ 32" "fheight f < 2 ^ 32" using ok by (auto simp: fb_ok_def)
  have fr: "writes (buf_len f) (\<lambda>i. \<exists>py \<in> {?y1..<?y2}. \<exists>px \<in> {?x1..<?x2}. i = py * pitch_u32 f + px) (\<lambda>_. rgb)
     (rfold (\<lambda>py b. rbind (cmul 32 py (pitch_u32 f)) (\<lambda>row.
        rfold (\<lambda>px b. rset b (row + px) rgb) [?x1..<?x2] b)) [?y1..<?y2])"
    by (rule fill_rows[OF ok]) simp_all
  obtain b where b: "rfold (\<lambda>py b. rbind (cmul 32 py (pitch_u32 f)) (\<lambda>row.
        rfold (\<lambda>px b. rset b (row + px) rgb) [?x1..<?x2] b)) [?y1..<?y2] (back_buf f) = Ok b"
    "length b = buf_len f"
    "\<And>i. i < buf_len f \<Longrightarrow> b ! i = (if \<exists>py \<in> {?y1..<?y2}. \<exists>px \<in> {?x1..<?x2}. i = py * pitch_u32 f + px
       then rgb else back_buf f ! i)"
    by (rule writesD[OF fr len]) blast
  have "pixel f b u v = (if x \<le> u \<and> u < x + w \<and> y \<le> v \<and> v < y + h then rgb else pixel f (back_buf f) u v)"
    if s: "on_screen f u v" for u v
  proof -
    have "(\<exists>py \<in> {?y1..<?y2}. \<exists>px \<in> {?x1..<?x2}. v * pitch_u32 f + u = py * pitch_u32 f + px) \<longleftrightarrow>
        x \<le> u \<and> u < x + w \<and> y \<le> v \<and> v < y + h"
    proof
      assume "\<exists>py \<in> {?y1..<?y2}. \<exists>px \<in> {?x1..<?x2}. v * pitch_u32 f + u = py * pitch_u32 f + px"
      then obtain py px where "py \<in> {?y1..<?y2}" "px \<in> {?x1..<?x2}" "v * pitch_u32 f + u = py * pitch_u32 f + px"
        by blast
      moreover from this have "u = px \<and> v = py"
        using row_index_eq[of u "pitch_u32 f" px v py] s w by (auto simp: on_screen_def)
      ultimately show "x \<le> u \<and> u < x + w \<and> y \<le> v \<and> v < y + h" by auto
    next
      assume "x \<le> u \<and> u < x + w \<and> y \<le> v \<and> v < y + h"
      then show "\<exists>py \<in> {?y1..<?y2}. \<exists>px \<in> {?x1..<?x2}. v * pitch_u32 f + u = py * pitch_u32 f + px"
        using s by (intro bexI[of _ v] bexI[of _ u]) (auto simp: on_screen_def)
    qed
    then show ?thesis
      using b(3)[of "v * pitch_u32 f + u"] fb_index_less[of u f v] s w by (simp add: pixel_def on_screen_def)
  qed
  moreover have "fill_rect x y w h rgb f = Ok (mark_dirty_rect ?x1 ?y1 (?x2 - ?x1) (?y2 - ?y1) (set_back f b))"
    using b(1) b32 by (simp add: fill_rect_def Let_def)
  ultimately show ?thesis using that b(2) by blast
qed

lemma fill_rect_draws:
  assumes "fb_ok f" "synced f"
  shows "draws f (\<lambda>p u v. if x \<le> u \<and> u < x + w \<and> y \<le> v \<and> v < y + h then rgb else p u v)
     (fill_rect x y w h rgb f)"
proof -
  obtain b where b:
    "fill_rect x y w h rgb f = Ok (mark_dirty_rect (min x (fwidth f)) (min y (fheight f))
       (min (x + w) (fwidth f) - min x (fwidth f)) (min (y + h) (fheight f) - min y (fheight f)) (set_back f b))"
    "length b = buf_len f"
    "\<And>u v. on_screen f u v \<Longrightarrow> pixel f b u v =
       (if x \<le> u \<and> u < x + w \<and> y \<le> v \<and> v < y + h then rgb else pixel f (back_buf f) u v)"
    by (rule fill_rect_back[OF assms(1)]) blast
  show ?thesis unfolding b(1)
    by (rule draws_marked[OF assms b(2)]) (use b(3) in \<open>auto simp: on_screen_def\<close>)
qed

lemma draws_cong:
  assumes "draws f g r" "\<And>p u v. on_screen f u v \<Longrightarrow> g p u v = g' p u v"
  shows "draws f g' r"
  using assms unfolding draws_def by auto

lemma draws_nothing:
  assumes "fb_ok f" "synced f"
  shows "draws f (\<lambda>p. p) (Ok f)"
  using assms by (simp add: draws_def)

lemma put_pixel_draws:
  assumes "fb_ok f" "synced f"
  shows "draws f (\<lambda>p u v. if u = x \<and> v = y then rgb else p u v) (put_pixel x y rgb f)"
proof (cases "fwidth f \<le> x \<or> fheight f \<le> y")
  case True
  then show ?thesis
    by (auto simp: put_pixel_def on_screen_def intro!: draws_cong[OF draws_nothing[OF assms]])
next
  case False
  let ?i = "y * pitch_u32 f + x" and ?b = "(back_buf f)[y * pitch_u32 f + x := rgb]"
  have w: "fwidth f \<le> pitch_u32 f" "length (back_buf f) = buf_len f" using assms by (auto simp: fb_ok_def)
  have i: "?i < buf_len f" using False w by (intro fb_index_less) auto
  have px: "pixel f ?b u v = (if u = x \<and> v = y then rgb else pixel f (back_buf f) u v)" if "on_screen f u v" for u v
    using row_index_eq[of u "pitch_u32 f" x v y] fb_index_less[of u f v] that False w i
    by (auto simp: pixel_def on_screen_def nth_list_update)
  have eq: "put_pixel x y rgb f = Ok (mark_dirty_rect x y 1 1 (set_back f ?b))"
    using False i w assms by (simp add: put_pixel_def fb_idx_ok rset_def)
  show ?thesis unfolding eq
    by (rule draws_marked[OF assms]) (use px w in auto)
qed

text \<open>The colour a glyph drawn at \<open>(x, y)\<close> gives the pixel \<open>(u, v)\<close>.\<close>

definition glyph_pixel :: "u8 list \<Rightarrow> nat \<Rightarrow> nat \<Rightarrow> nat \<Rightarrow> u32 \<Rightarrow> u32 \<Rightarrow> nat \<Rightarrow> nat \<Rightarrow> u32" where
  "glyph_pixel gl s x y fg bg u v = (if glyph_on (gl ! ((v - y) div s)) ((u - x) div s) then fg else bg)"

definition glyph_at :: "fb \<Rightarrow> u8 list \<Rightarrow> nat \<Rightarrow> nat \<Rightarrow> u32 \<Rightarrow> u32 \<Rightarrow> nat \<Rightarrow> u32" where
  "glyph_at f gl x y fg bg i =
    glyph_pixel gl (text_scale f) x y fg bg (i mod pitch_u32 f) (i div pitch_u32 f)"

lemma glyph_at_index:
  assumes "u < pitch_u32 f"
  shows "glyph_at f gl x y fg bg (v * pitch_u32 f + u) = glyph_pixel gl (text_scale f) x y fg bg u v"
  using assms by (simp add: glyph_at_def)

lemma writes_pixels:
  assumes "writes (buf_len f) W F g" and ok: "fb_ok f"
  obtains b where "g (back_buf f) = Ok b" "length b = buf_len f"
    "\<And>u v. on_screen f u v \<Longrightarrow> pixel f b u v =
       (if W (v * pitch_u32 f + u) then F (v * pitch_u32 f + u) else pixel f (back_buf f) u v)"
proof -
  have w: "fwidth f \<le> pitch_u32 f" "length (back_buf f) = buf_len f" using ok by (auto simp: fb_ok_def)
  obtain b where b: "g (back_buf f) = Ok b" "length b = buf_len f"
    "\<And>i. i < buf_len f \<Longrightarrow> b ! i = (if W i then F i else back_buf f ! i)"
    by (rule writesD[OF assms(1) w(2)]) blast
  show ?thesis
    by (rule that[OF b(1,2)]) (use b(3) fb_index_less[OF _ _ w(1)] in \<open>simp add: pixel_def on_screen_def\<close>)
qed

lemma blit_fast_pixels:
  assumes ok: "fb_ok f" and s: "text_scale f = 1" and x: "x < fwidth f" and y: "y < fheight f"
  obtains b where "blit_fast x y gl fg bg f = Ok b" "length b = buf_len f"
    "\<And>u v. on_screen f u v \<Longrightarrow> pixel f b u v =
       (if x \<le> u \<and> u < x + 8 \<and> y \<le> v \<and> v < y + 16 then glyph_pixel gl 1 x y fg bg u v
        else pixel f (back_buf f) u v)"
proof -
  let ?F = "glyph_at f gl x y fg bg" and ?cols = "min (x + 8) (fwidth f) - x" and ?p = "pitch_u32 f"
  have w: "fwidth f \<le> ?p" "4 * buf_len f < 2 ^ 32" using ok by (auto simp: fb_ok_def)
  have row: "writes (buf_len f) (\<lambda>i. \<exists>gx \<in> set [0..<?cols]. i = (y + gy) * ?p + x + gx) ?F
      (rfold (\<lambda>gx b. rset b ((y + gy) * ?p + x + gx) (if glyph_on (gl ! gy) gx then fg else bg)) [0..<?cols])"
    if "y + gy < fheight f" for gy
  proof (intro writes_rfold writes_rset)
    fix gx assume "gx \<in> set [0..<?cols]"
    then have gx: "x + gx < fwidth f" by auto
    then show "(y + gy) * ?p + x + gx < buf_len f"
      using fb_index_less[of "x + gx" f "y + gy"] that w by simp
    show "?F ((y + gy) * ?p + x + gx) = (if glyph_on (gl ! gy) gx then fg else bg)"
      using glyph_at_index[of "x + gx" f gl x y fg bg "y + gy"] gx w s by (simp add: glyph_pixel_def add.assoc)
  qed
  have all: "writes (buf_len f) (\<lambda>i. \<exists>gy \<in> set [0..<CHAR_HEIGHT]. \<not> fheight f \<le> y + gy \<and>
        (\<exists>gx \<in> set [0..<?cols]. i = (y + gy) * ?p + x + gx)) ?F
      (rfold (\<lambda>gy b. if fheight f \<le> y + gy then Ok b else rbind (cmul 32 (y + gy) ?p) (\<lambda>row.
        rfold (\<lambda>gx b. rset b (row + x + gx) (if glyph_on (gl ! gy) gx then fg else bg)) [0..<?cols] b)) [0..<CHAR_HEIGHT])"
    by (intro writes_rfold writes_if) (use row in \<open>simp add: fb_row[OF ok] not_le\<close>)
  have hit: "(\<exists>gy \<in> set [0..<CHAR_HEIGHT]. \<not> fheight f \<le> y + gy \<and>
        (\<exists>gx \<in> set [0..<?cols]. v * ?p + u = (y + gy) * ?p + x + gx)) \<longleftrightarrow>
      x \<le> u \<and> u < x + 8 \<and> y \<le> v \<and> v < y + 16" (is "?L \<longleftrightarrow> ?R") if uv: "on_screen f u v" for u v
  proof
    assume ?L
    then obtain gy gx where g: "gy < 16" "gx < ?cols" "v * ?p + u = (y + gy) * ?p + (x + gx)"
      by (auto simp: add.assoc)
    then have "u = x + gx \<and> v = y + gy"
      using row_index_eq[of u ?p "x + gx" v "y + gy"] uv w by (auto simp: on_screen_def)
    then show ?R using g by auto
  next
    assume ?R
    then show ?L using uv
      by (intro bexI[of _ "v - y"] conjI bexI[of _ "u - x"]) (auto simp: on_screen_def)
  qed
  obtain b where b: "rfold (\<lambda>gy b. if fheight f \<le> y + gy then Ok b else rbind (cmul 32 (y + gy) ?p) (\<lambda>row.
        rfold (\<lambda>gx b. rset b (row + x + gx) (if glyph_on (gl ! gy) gx then fg else bg)) [0..<?cols] b)) [0..<CHAR_HEIGHT]
        (back_buf f) = Ok b" "length b = buf_len f"
    "\<And>u v. on_screen f u v \<Longrightarrow> pixel f b u v =
       (if \<exists>gy \<in> set [0..<CHAR_HEIGHT]. \<not> fheight f \<le> y + gy \<and>
        (\<exists>gx \<in> set [0..<?cols]. v * ?p + u = (y + gy) * ?p + x + gx) then ?F (v * ?p + u) else pixel f (back_buf f) u v)"
    by (rule writes_pixels[OF all ok]) blast
  have "x < buf_len f" using fb_index_less[of x f 0] x y w by simp
  then have "blit_fast x y gl fg bg f = Ok b"
    using b(1) x w(2) by (simp add: blit_fast_def cadd_def csub_def Let_def)
  then show ?thesis
    by (rule that[OF _ b(2)]) (use b(3) hit glyph_at_index[of _ f] w s in \<open>simp add: on_screen_def\<close>)
qed

lemma sat_below:
  assumes "sat_add (sat_add a (sat_mul b c)) d < k" "k < 2 ^ 32"
  shows "sat_add (sat_add a (sat_mul b c)) d = a + b * c + d"
  using assms by (auto simp: sat_add_def sat_mul_def min_def split: if_splits)

lemma sat_exact: "a + b * c + d < k \<Longrightarrow> k < 2 ^ 32 \<Longrightarrow> sat_add (sat_add a (sat_mul b c)) d = a + b * c + d"
  by (simp add: sat_add_def sat_mul_def)

text \<open>The pixels that the loops of the slow path reach along one axis.\<close>

lemma scaled_reach:
  assumes "0 < s" "k < 2 ^ 32" "u < k"
  shows "(\<exists>g < n. \<exists>t < s. u = sat_add (sat_add x (sat_mul g s)) t) \<longleftrightarrow> x \<le> u \<and> u < x + n * s"
proof
  assume "\<exists>g < n. \<exists>t < s. u = sat_add (sat_add x (sat_mul g s)) t"
  then obtain g t where g: "g < n" "t < s" "u = sat_add (sat_add x (sat_mul g s)) t" by blast
  have "Suc g * s \<le> n * s" using g(1) by (intro mult_le_mono1) simp
  moreover have "u = x + g * s + t" using sat_below[of x g s t k] assms g by simp
  ultimately show "x \<le> u \<and> u < x + n * s" using g(2) by simp
next
  assume u: "x \<le> u \<and> u < x + n * s"
  let ?g = "(u - x) div s" and ?t = "(u - x) mod s"
  have "x + ?g * s + ?t = u" using u div_mult_mod_eq[of "u - x" s] by linarith
  moreover have "?g < n" by (rule less_mult_imp_div_less) (use u in arith)
  moreover have "?t < s" using assms(1) by simp
  ultimately show "\<exists>g < n. \<exists>t < s. u = sat_add (sat_add x (sat_mul g s)) t"
    using sat_exact[of x ?g s ?t k] assms(2,3) by metis
qed

lemma blit_slow_row:
  assumes ok: "fb_ok f" and v: "v < fheight f" and gy: "(v - y) div text_scale f = gy"
  shows "writes (buf_len f) (\<lambda>i. \<exists>gx \<in> set [0..<CHAR_WIDTH]. \<exists>sx \<in> set [0..<text_scale f].
          \<not> fwidth f \<le> sat_add (sat_add x (sat_mul gx (text_scale f))) sx \<and>
          i = v * pitch_u32 f + sat_add (sat_add x (sat_mul gx (text_scale f))) sx) (glyph_at f gl x y fg bg)
      (rfold (\<lambda>gx b. rfold (\<lambda>sx b.
          if fwidth f \<le> sat_add (sat_add x (sat_mul gx (text_scale f))) sx then Ok b
          else rset b (v * pitch_u32 f + sat_add (sat_add x (sat_mul gx (text_scale f))) sx)
            (if glyph_on (gl ! gy) gx then fg else bg)) [0..<text_scale f] b) [0..<CHAR_WIDTH])"
proof (intro writes_rfold writes_if writes_rset)
  let ?s = "text_scale f"
  fix gx sx assume g: "gx \<in> set [0..<CHAR_WIDTH]" "sx \<in> set [0..<?s]"
    and px: "\<not> fwidth f \<le> sat_add (sat_add x (sat_mul gx ?s)) sx"
  have w: "fwidth f \<le> pitch_u32 f" "fwidth f < 2 ^ 32" using ok by (auto simp: fb_ok_def)
  then have e: "sat_add (sat_add x (sat_mul gx ?s)) sx = x + gx * ?s + sx"
    using sat_below px by (metis not_le)
  then have lt: "x + gx * ?s + sx < fwidth f" using px by simp
  have "(gx * ?s + sx) div ?s = gx" using g(2) by simp
  then show "glyph_at f gl x y fg bg (v * pitch_u32 f + sat_add (sat_add x (sat_mul gx ?s)) sx) =
      (if glyph_on (gl ! gy) gx then fg else bg)"
    using lt w gy by (simp add: e glyph_at_index glyph_pixel_def)
  show "v * pitch_u32 f + sat_add (sat_add x (sat_mul gx ?s)) sx < buf_len f"
    unfolding e using fb_index_less[OF lt v w(1)] by simp
qed

lemma blit_slow_pixels:
  assumes ok: "fb_ok f"
  obtains b where "blit_slow x y gl fg bg f = Ok b" "length b = buf_len f"
    "\<And>u v. on_screen f u v \<Longrightarrow> pixel f b u v =
       (if x \<le> u \<and> u < x + 8 * text_scale f \<and> y \<le> v \<and> v < y + 16 * text_scale f
        then glyph_pixel gl (text_scale f) x y fg bg u v else pixel f (back_buf f) u v)"
proof -
  let ?s = "text_scale f" and ?p = "pitch_u32 f" and ?F = "glyph_at f gl x y fg bg"
  let ?py = "\<lambda>gy sy. sat_add (sat_add y (sat_mul gy ?s)) sy"
  let ?px = "\<lambda>gx sx. sat_add (sat_add x (sat_mul gx ?s)) sx"
  let ?W = "\<lambda>v i. \<exists>gx \<in> set [0..<CHAR_WIDTH]. \<exists>sx \<in> set [0..<?s]. \<not> fwidth f \<le> ?px gx sx \<and> i = v * ?p + ?px gx sx"
  have w: "fwidth f \<le> ?p" "fheight f < 2 ^ 32" "fwidth f < 2 ^ 32" "0 < ?s" using ok by (auto simp: fb_ok_def)
  have all: "writes (buf_len f) (\<lambda>i. \<exists>gy \<in> set [0..<CHAR_HEIGHT]. \<exists>sy \<in> set [0..<?s]. \<not> fheight f \<le> ?py gy sy \<and> ?W (?py gy sy) i) ?F
     (rfold (\<lambda>gy. rfold (\<lambda>sy b. if fheight f \<le> ?py gy sy then Ok b else rbind (cmul 32 (?py gy sy) ?p) (\<lambda>row.
       rfold (\<lambda>gx b. rfold (\<lambda>sx b. if fwidth f \<le> ?px gx sx then Ok b
          else rset b (row + ?px gx sx) (if glyph_on (gl ! gy) gx then fg else bg)) [0..<?s] b) [0..<CHAR_WIDTH] b)) [0..<?s]) [0..<CHAR_HEIGHT])"
  proof (intro writes_rfold writes_if)
    fix gy sy assume g: "gy \<in> set [0..<CHAR_HEIGHT]" "sy \<in> set [0..<?s]" and h: "\<not> fheight f \<le> ?py gy sy"
    then have "?py gy sy = y + gy * ?s + sy" using sat_below w(2) by (metis not_le)
    then have "(?py gy sy - y) div ?s = gy" using g(2) by simp
    then show "writes (buf_len f) (?W (?py gy sy)) ?F (\<lambda>b. rbind (cmul 32 (?py gy sy) ?p) (\<lambda>row.
       rfold (\<lambda>gx b. rfold (\<lambda>sx b. if fwidth f \<le> ?px gx sx then Ok b
          else rset b (row + ?px gx sx) (if glyph_on (gl ! gy) gx then fg else bg)) [0..<?s] b) [0..<CHAR_WIDTH] b))"
      using blit_slow_row[OF ok, of "?py gy sy" y gy x gl fg bg] h by (simp add: fb_row[OF ok])
  qed
  obtain b where b: "blit_slow x y gl fg bg f = Ok b" "length b = buf_len f"
    "\<And>u v. on_screen f u v \<Longrightarrow> pixel f b u v =
       (if \<exists>gy \<in> set [0..<CHAR_HEIGHT]. \<exists>sy \<in> set [0..<?s]. \<not> fheight f \<le> ?py gy sy \<and> ?W (?py gy sy) (v * ?p + u)
        then ?F (v * ?p + u) else pixel f (back_buf f) u v)"
    by (rule writes_pixels[OF all ok]) (unfold blit_slow_def Let_def, blast)
  have hit: "(\<exists>gy \<in> set [0..<CHAR_HEIGHT]. \<exists>sy \<in> set [0..<?s]. \<not> fheight f \<le> ?py gy sy \<and> ?W (?py gy sy) (v * ?p + u)) \<longleftrightarrow>
      (\<exists>g < 8. \<exists>t < ?s. u = ?px g t) \<and> (\<exists>g < 16. \<exists>t < ?s. v = ?py g t)" (is "?L \<longleftrightarrow> ?R") if uv: "on_screen f u v" for u v
  proof
    assume ?L
    then obtain gy sy gx sx where g: "gy < 16" "sy < ?s" "gx < 8" "sx < ?s" "?px gx sx < fwidth f"
      "v * ?p + u = ?py gy sy * ?p + ?px gx sx" by auto
    then have "u = ?px gx sx \<and> v = ?py gy sy"
      using row_index_eq[of u ?p "?px gx sx" v "?py gy sy"] uv w by (simp add: on_screen_def)
    then show ?R using g by blast
  next
    assume ?R
    then obtain gy sy gx sx where g: "gy < 16" "sy < ?s" "gx < 8" "sx < ?s" "u = ?px gx sx" "v = ?py gy sy" by blast
    then show ?L using uv
      by (intro bexI[of _ gy] bexI[of _ sy] conjI bexI[of _ gx] bexI[of _ sx]) (auto simp: on_screen_def)
  qed
  show ?thesis
    by (rule that[OF b(1,2)])
       (use b(3) hit scaled_reach[OF w(4) w(3)] scaled_reach[OF w(4) w(2)] glyph_at_index[of _ f] w
         in \<open>simp add: on_screen_def\<close>)
qed

lemma blit_char_draws:
  assumes "fb_ok f" "synced f"
  shows "draws f (\<lambda>p u v. if x \<le> u \<and> u < x + 8 * text_scale f \<and> y \<le> v \<and> v < y + 16 * text_scale f
      then glyph_pixel (glyph ch) (text_scale f) x y fg bg u v else p u v) (blit_char x y ch fg bg f)"
proof (cases "fwidth f \<le> x \<or> fheight f \<le> y")
  case True
  then show ?thesis
    by (auto simp: blit_char_def on_screen_def intro!: draws_cong[OF draws_nothing[OF assms]])
next
  case False
  let ?s = "text_scale f"
  have s: "?s \<in> {1, 2, 3}" using assms by (simp add: fb_ok_def)
  obtain b where b: "(if ?s = 1 then blit_fast x y (glyph ch) fg bg f else blit_slow x y (glyph ch) fg bg f) = Ok b"
    "length b = buf_len f"
    "\<And>u v. on_screen f u v \<Longrightarrow> pixel f b u v =
       (if x \<le> u \<and> u < x + 8 * ?s \<and> y \<le> v \<and> v < y + 16 * ?s
        then glyph_pixel (glyph ch) ?s x y fg bg u v else pixel f (back_buf f) u v)"
  proof (cases "?s = 1")
    case True
    show ?thesis
      by (rule blit_fast_pixels[OF assms(1) True, of x y "glyph ch" fg bg]) (use False True that in auto)
  next
    case False
    show ?thesis by (rule blit_slow_pixels[OF assms(1), of x y "glyph ch" fg bg]) (use False that in auto)
  qed
  have eq: "blit_char x y ch fg bg f = Ok (mark_dirty_rect x y (8 * ?s) (16 * ?s) (set_back f b))"
    using False b(1) s by (auto simp: blit_char_def glyph_width_def glyph_height_def cmul_def)
  show ?thesis unfolding eq
    by (rule draws_marked[OF assms b(2)]) (use b(3) in auto)
qed

definition shifted :: "fb \<Rightarrow> nat \<Rightarrow> nat \<Rightarrow> u32 list" where
  "shifted f n k = take (n * pitch_u32 f) (drop (k * pitch_u32 f) (back_buf f)) @ drop (n * pitch_u32 f) (back_buf f)"

lemma shifted_fits:
  assumes "fb_ok f" "n + k \<le> fheight f"
  shows "k * pitch_u32 f + n * pitch_u32 f \<le> length (back_buf f)" "length (shifted f n k) = buf_len f"
proof -
  have "(n + k) * pitch_u32 f \<le> fheight f * pitch_u32 f" using assms(2) by (rule mult_le_mono1)
  then show le: "k * pitch_u32 f + n * pitch_u32 f \<le> length (back_buf f)"
    using assms(1) by (simp add: fb_ok_def buf_len_def algebra_simps)
  show "length (shifted f n k) = buf_len f"
    using le assms(1) by (simp add: fb_ok_def shifted_def)
qed

lemma shifted_pixel:
  assumes ok: "fb_ok f" and n: "n + k \<le> fheight f" and uv: "on_screen f u v"
  shows "pixel f (shifted f n k) u v = (if v < n then pixel f (back_buf f) u (v + k) else pixel f (back_buf f) u v)"
proof -
  let ?p = "pitch_u32 f"
  have u: "u < ?p" using ok uv by (auto simp: fb_ok_def on_screen_def)
  note le = shifted_fits(1)[OF ok n]
  have "v * ?p + u < n * ?p \<longleftrightarrow> v < n"
  proof
    assume "v < n"
    then have "Suc v * ?p \<le> n * ?p" by (intro mult_le_mono1) simp
    then show "v * ?p + u < n * ?p" using u by simp
  next
    assume "v * ?p + u < n * ?p"
    then have "v * ?p < n * ?p" by linarith
    then show "v < n" by simp
  qed
  then show ?thesis using le by (auto simp: pixel_def shifted_def nth_append algebra_simps)
qed

lemma scroll_up_bounded_draws:
  assumes ok: "fb_ok f" "synced f" and k: "k \<le> fheight f"
  shows "draws f (\<lambda>p u v. if k = 0 \<or> max_y \<le> k then p u v
      else if v + k < min max_y (fheight f) then p u (v + k)
      else if v < min max_y (fheight f) then c else p u v) (scroll_up_bounded max_y k c f)"
proof (cases "k = 0 \<or> max_y \<le> k")
  case True
  then show ?thesis by (auto simp: scroll_up_bounded_def intro!: draws_cong[OF draws_nothing[OF ok]])
next
  case False
  define lim where "lim = min max_y (fheight f)"
  define n where "n = lim - k"
  let ?m = "set_back f (shifted f n k)"
  have nk: "n + k = lim" "lim \<le> fheight f" using False k by (auto simp: n_def lim_def)
  then have h: "n + k \<le> fheight f" by simp
  note fits = shifted_fits[OF ok(1) h]
  have m: "fb_ok ?m" "buf_len ?m = buf_len f" "on_screen ?m = on_screen f" "pixel ?m = pixel f"
    using ok fits by (auto simp: fb_ok_def buf_len_def rect_ok_def on_screen_def pixel_def fun_eq_iff)
  obtain b where b: "fill_rect 0 n (fwidth f) k c ?m = Ok (mark_dirty_rect 0 n (min (fwidth f) (fwidth f))
        (min (n + k) (fheight f) - n) (set_back ?m b))" "length b = buf_len f"
    "\<And>u v. on_screen f u v \<Longrightarrow> pixel f b u v = (if n \<le> v \<and> v < n + k then c else pixel f (shifted f n k) u v)"
    by (rule fill_rect_back[OF m(1), of 0 n "fwidth f" k c]) (use m h in \<open>simp add: on_screen_def\<close>)
  let ?f1 = "mark_dirty_rect 0 n (min (fwidth f) (fwidth f)) (min (n + k) (fheight f) - n) (set_back f b)"
  have eq: "scroll_up_bounded max_y k c f = Ok (mark_dirty_rect 0 0 (fwidth f) lim ?f1)"
    using False b(1) fits(1) k
    by (auto simp: scroll_up_bounded_def Let_def csub_def rslice_def n_def lim_def shifted_def set_back_def)
  have fw: "rect_ok (set_back f b) (dirty (set_back f b))" "fwidth (set_back f b) < 2 ^ 32"
    "fheight (set_back f b) < 2 ^ 32" using ok by (auto simp: fb_ok_def rect_ok_def)
  have old: "pixel f (shifted f n k) u v = (if v < n then pixel f (back_buf f) u (v + k) else pixel f (back_buf f) u v)"
    if "on_screen f u v" for u v using that by (rule shifted_pixel[OF ok(1) h])
  show ?thesis unfolding eq
  proof (rule draws_marked_from[OF ok b(2) mark_set_back])
    show "rect_ok f (dirty ?f1)" using mark_dirty_rect_ok[OF fw] by (simp add: rect_ok_def)
    show "in_rect (dirty ?f1) u v" if "on_screen f u v" "in_rect (dirty f) u v" for u v
      by (rule mark_dirty_rect_covers[OF fw]) (use that in \<open>simp_all add: on_screen_def\<close>)
  qed (use b(3) old False nk in \<open>auto simp: lim_def[symmetric] on_screen_def\<close>)
qed

section \<open>Commit and present show the picture\<close>

lemma in_clean_rect [simp]: "\<not> in_rect clean_rect u v"
  by (simp add: in_rect_def clean_rect_def)

lemma copy_rows_pixels:
  assumes ok: "fb_ok f" and r: "rect_ok f r" and len: "length src = buf_len f" "length dst = buf_len f"
    and cp: "\<And>i n d. length d = buf_len f \<Longrightarrow> i + n \<le> buf_len f \<Longrightarrow> cp src i d i n = copy_nonoverlapping src i d i n"
  obtains d where "copy_rows cp (pitch_u32 f) src r dst = Ok d" "length d = buf_len f"
    "\<And>u v. on_screen f u v \<Longrightarrow> pixel f d u v = (if in_rect r u v then pixel f src u v else pixel f dst u v)"
proof -
  let ?p = "pitch_u32 f"
  have w: "fwidth f \<le> ?p" using ok by (simp add: fb_ok_def)
  have fit: "y * ?p + rx0 r + (rx1 r - rx0 r) \<le> buf_len f" if "y < fheight f" for y
  proof -
    have "Suc y * ?p \<le> fheight f * ?p" using that by (intro mult_le_mono1) simp
    then show ?thesis using r w by (simp add: rect_ok_def buf_len_def mult.commute)
  qed
  have row: "writes (buf_len f) (\<lambda>i. y * ?p + rx0 r \<le> i \<and> i < y * ?p + rx0 r + (rx1 r - rx0 r)) (\<lambda>i. src ! i)
      (\<lambda>d. rbind (cmul 32 y ?p) (\<lambda>row. rbind (csub (rx1 r) (rx0 r)) (\<lambda>len. cp src (row + rx0 r) d (row + rx0 r) len)))"
    if "y \<in> set [ry0 r..<ry1 r]" for y
  proof -
    have y: "y < fheight f" using that r by (auto simp: rect_ok_def)
    have "writes (buf_len f) (\<lambda>i. y * ?p + rx0 r \<le> i \<and> i < y * ?p + rx0 r + (rx1 r - rx0 r)) (\<lambda>i. src ! i)
      (\<lambda>d. copy_nonoverlapping src (y * ?p + rx0 r) d (y * ?p + rx0 r) (rx1 r - rx0 r))"
      by (rule writes_copy) (use fit[OF y] len in auto)
    then show ?thesis
      using fb_row[OF ok y] r cp fit[OF y] by (simp add: writes_def csub_def rect_ok_def)
  qed
  have "writes (buf_len f) (\<lambda>i. \<exists>y \<in> set [ry0 r..<ry1 r]. y * ?p + rx0 r \<le> i \<and> i < y * ?p + rx0 r + (rx1 r - rx0 r))
      (\<lambda>i. src ! i) (copy_rows cp ?p src r)"
    unfolding copy_rows_def by (rule writes_rfold) (rule row)
  from writesD[OF this len(2)]
  obtain d where d: "copy_rows cp ?p src r dst = Ok d" "length d = buf_len f"
    "\<And>i. i < buf_len f \<Longrightarrow> d ! i = (if \<exists>y \<in> set [ry0 r..<ry1 r]. y * ?p + rx0 r \<le> i \<and>
        i < y * ?p + rx0 r + (rx1 r - rx0 r) then src ! i else dst ! i)"
    by blast
  have "pixel f d u v = (if in_rect r u v then pixel f src u v else pixel f dst u v)" if uv: "on_screen f u v" for u v
  proof -
    have "(\<exists>y \<in> set [ry0 r..<ry1 r]. y * ?p + rx0 r \<le> v * ?p + u \<and> v * ?p + u < y * ?p + rx0 r + (rx1 r - rx0 r)) \<longleftrightarrow>
        in_rect r u v" (is "?L \<longleftrightarrow> _")
    proof
      assume ?L
      then obtain y where y: "ry0 r \<le> y" "y < ry1 r" "y * ?p + rx0 r \<le> v * ?p + u" "v * ?p + u < y * ?p + rx1 r"
        using r by (auto simp: rect_ok_def)
      have "rx1 r \<le> ?p" "u < ?p" using r w uv by (auto simp: rect_ok_def on_screen_def)
      then have "v = y" using same_row[of y ?p v u] y(3,4) by linarith
      then show "in_rect r u v" using y by (simp add: in_rect_def)
    next
      assume "in_rect r u v"
      then show ?L by (intro bexI[of _ v]) (auto simp: in_rect_def)
    qed
    then show ?thesis
      using d(3)[of "v * ?p + u"] fb_index_less[of u f v] uv w by (simp add: pixel_def on_screen_def)
  qed
  then show ?thesis by (rule that[OF d(1,2)])
qed

text \<open>Nothing waits for \<open>present\<close>.\<close>

definition idle :: "fb \<Rightarrow> bool" where
  "idle f \<longleftrightarrow> \<not> frame_ready f \<and> ready_dirty f = clean_rect"

definition same_geometry :: "fb \<Rightarrow> fb \<Rightarrow> bool" where
  "same_geometry f f' \<longleftrightarrow> fwidth f' = fwidth f \<and> fheight f' = fheight f \<and> pitch_u32 f' = pitch_u32 f \<and>
     text_scale f' = text_scale f"

lemma geometry_views:
  assumes "same_geometry f f'"
  shows "on_screen f' = on_screen f" "pixel f' = pixel f" "buf_len f' = buf_len f" "rect_ok f' = rect_ok f"
  using assms by (auto simp: same_geometry_def on_screen_def pixel_def buf_len_def rect_ok_def fun_eq_iff)

text \<open>What \<open>commit\<close> needs: outside the dirty rectangle the three buffers agree.\<close>

definition agree :: "fb \<Rightarrow> bool" where
  "agree f \<longleftrightarrow> (\<forall>x y. on_screen f x y \<longrightarrow> \<not> in_rect (dirty f) x y \<longrightarrow>
     pixel f (back_buf f) x y = pixel f (present_buf f) x y \<and> pixel f (present_buf f) x y = pixel f (front f) x y)"

lemma synced_agree: "synced f \<Longrightarrow> idle f \<Longrightarrow> agree f"
  by (simp add: synced_def agree_def idle_def)

lemma commit_shows:
  assumes ok: "fb_ok f" "agree f" "idle f"
  obtains f' where "commit f = Ok f'" "fb_ok f'" "synced f'" "same_geometry f f'" "dirty f' = clean_rect"
    "frame_ready f' \<or> idle f'"
    "\<And>u v. on_screen f u v \<Longrightarrow> pixel f (back_buf f') u v = pixel f (back_buf f) u v"
proof (cases "any_dirty (dirty f)")
  case False
  then have d: "dirty f = clean_rect" using ok by (simp add: fb_ok_def rect_ok_def)
  then have "synced f" using ok by (simp add: agree_def synced_def)
  moreover have "commit f = Ok f" using False ok by (simp add: commit_def idle_def)
  moreover note d
  ultimately show ?thesis using that[of f] ok by (simp add: same_geometry_def)
next
  case True
  have r: "rect_ok f (dirty f)" "length (back_buf f) = buf_len f" "length (present_buf f) = buf_len f"
    using ok by (auto simp: fb_ok_def)
  obtain b where b: "copy_rows copy_nonoverlapping (pitch_u32 f) (back_buf f) (dirty f) (present_buf f) = Ok b"
    "length b = buf_len f"
    "\<And>u v. on_screen f u v \<Longrightarrow> pixel f b u v =
      (if in_rect (dirty f) u v then pixel f (back_buf f) u v else pixel f (present_buf f) u v)"
    by (rule copy_rows_pixels[OF ok(1) r, of copy_nonoverlapping]) auto
  define f' where "f' = f \<lparr> ready_dirty := dirty f, dirty := clean_rect, present_buf := back_buf f,
      back_buf := b, frame_ready := True \<rparr>"
  have g: "same_geometry f f'" by (simp add: f'_def same_geometry_def)
  have px: "pixel f b u v = pixel f (back_buf f) u v" if "on_screen f u v" for u v
    using b(3)[OF that] ok(2) that by (auto simp: agree_def)
  have "commit f = Ok f'" using True b(1) by (simp add: commit_def f'_def)
  moreover have "fb_ok f'"
    using ok(1) b(2) geometry_views[OF g] by (simp add: fb_ok_def f'_def rect_ok_def clean_rect_def)
  moreover have "synced f'"
    using ok(2,3) px geometry_views[OF g] by (auto simp: synced_def agree_def f'_def idle_def)
  ultimately show ?thesis by (rule that) (use g px in \<open>auto simp: f'_def\<close>)
qed

lemma present_shows:
  assumes ok: "fb_ok f" "synced f" "frame_ready f \<or> idle f"
  obtains f' where "present (f, g) = Ok (f', g)" "fb_ok f'" "synced f'" "same_geometry f f'" "idle f'"
    "dirty f' = dirty f" "back_buf f' = back_buf f"
    "\<And>u v. on_screen f u v \<Longrightarrow> pixel f (front f') u v = pixel f (present_buf f) u v"
proof (cases "frame_ready f")
  case False
  then have i: "idle f" using ok by simp
  then have "pixel f (front f) u v = pixel f (present_buf f) u v" if "on_screen f u v" for u v
    using ok(2) that by (simp add: synced_def idle_def)
  moreover have "present (f, g) = Ok (f, g)" using False by (simp add: present_def)
  ultimately show ?thesis using that[of f] ok i by (simp add: same_geometry_def)
next
  case True
  have r: "rect_ok f (ready_dirty f)" "length (present_buf f) = buf_len f" "length (front f) = buf_len f"
    "backend f = Mmio" using ok by (auto simp: fb_ok_def)
  obtain fr where fr: "copy_rows fast_blit_row (pitch_u32 f) (present_buf f) (ready_dirty f) (front f) = Ok fr"
    "length fr = buf_len f"
    "\<And>u v. on_screen f u v \<Longrightarrow> pixel f fr u v =
      (if in_rect (ready_dirty f) u v then pixel f (present_buf f) u v else pixel f (front f) u v)"
    by (rule copy_rows_pixels[OF ok(1) r(1-3), of fast_blit_row])
       (simp_all add: fast_blit_row_copy r(2))
  define f' where "f' = f \<lparr> front := fr, frame_ready := False, ready_dirty := clean_rect \<rparr>"
  have g: "same_geometry f f'" by (simp add: f'_def same_geometry_def)
  have px: "pixel f fr u v = pixel f (present_buf f) u v" if "on_screen f u v" for u v
    using fr(3)[OF that] ok(2) that by (auto simp: synced_def)
  have "present (f, g) = Ok (f', g)"
    using True r fr(1) by (simp add: present_def present_mmio_def csub_def rect_ok_def f'_def)
  moreover have "fb_ok f'"
    using ok(1) fr(2) geometry_views[OF g] by (simp add: fb_ok_def f'_def rect_ok_def clean_rect_def)
  moreover have "synced f'"
    using ok(2) px geometry_views[OF g] by (auto simp: synced_def f'_def)
  ultimately show ?thesis by (rule that) (use g px in \<open>auto simp: f'_def idle_def\<close>)
qed

definition show_frame :: "fb \<times> virtio_gpu option \<Rightarrow> (fb \<times> virtio_gpu option) result" where
  "show_frame = (\<lambda>(f, g). rbind (commit f) (\<lambda>f. present (f, g)))"

lemma show_frame_agree:
  assumes ok: "fb_ok f" "agree f" "idle f"
  obtains f' where "show_frame (f, g) = Ok (f', g)" "fb_ok f'" "synced f'" "same_geometry f f'" "idle f'"
    "\<And>u v. on_screen f u v \<Longrightarrow> pixel f (back_buf f') u v = pixel f (back_buf f) u v"
    "\<And>u v. on_screen f u v \<Longrightarrow> pixel f (front f') u v = pixel f (back_buf f) u v"
proof -
  obtain f1 where f1: "commit f = Ok f1" "fb_ok f1" "synced f1" "same_geometry f f1" "dirty f1 = clean_rect"
    "frame_ready f1 \<or> idle f1"
    "\<And>u v. on_screen f u v \<Longrightarrow> pixel f (back_buf f1) u v = pixel f (back_buf f) u v"
    by (rule commit_shows[OF ok]) blast
  obtain f2 where f2: "present (f1, g) = Ok (f2, g)" "fb_ok f2" "synced f2" "same_geometry f1 f2" "idle f2"
    "dirty f2 = dirty f1" "back_buf f2 = back_buf f1"
    "\<And>u v. on_screen f1 u v \<Longrightarrow> pixel f1 (front f2) u v = pixel f1 (present_buf f1) u v"
    by (rule present_shows[OF f1(2,3,6)]) blast
  note v = geometry_views[OF f1(4)]
  have "pixel f (front f2) u w = pixel f (back_buf f) u w" if s: "on_screen f u w" for u w
    using f2(8)[of u w] f1(3,5,7) s v by (auto simp: synced_def)
  moreover have "same_geometry f f2" using f1(4) f2(4) by (simp add: same_geometry_def)
  ultimately show ?thesis
    by (intro that[of f2]) (use f1 f2 in \<open>auto simp: show_frame_def\<close>)
qed

lemmas show_frame_shows = show_frame_agree[OF _ synced_agree]

text \<open>The first frame: the whole screen takes the background colour.\<close>

lemma first_frame_shows:
  assumes w: "w \<le> pitch" "w < 2 ^ 32" "h < 2 ^ 32" "4 * (pitch * h) < 2 ^ 32" and fr: "length fr = pitch * h"
  obtains f where "first_frame (blank_fb fr w h pitch (pitch * h) Mmio, g) = Ok (f, g)" "fb_ok f" "synced f" "idle f"
    "fwidth f = w" "fheight f = h" "text_scale f = choose_scale w"
    "\<And>u v. u < w \<Longrightarrow> v < h \<Longrightarrow> pixel f (front f) u v = BG"
proof -
  let ?f = "blank_fb fr w h pitch (pitch * h) Mmio"
  have ok: "fb_ok ?f" using assms
    by (auto simp: fb_ok_def blank_fb_def buf_len_def choose_scale_def rect_ok_def clean_rect_def)
  obtain b where b: "fb_clear BG ?f = Ok (mark_dirty_rect 0 0 w h (set_back ?f b))" "length b = buf_len ?f"
    "\<And>u v. on_screen ?f u v \<Longrightarrow> pixel ?f b u v = BG"
    by (rule fill_rect_back[OF ok, of 0 0 w h BG]) (auto simp: fb_clear_def on_screen_def blank_fb_def)
  let ?f1 = "mark_dirty_rect 0 0 w h (set_back ?f b)"
  have geo: "same_geometry ?f ?f1" by (simp add: same_geometry_def)
  have ok1: "fb_ok ?f1" by (rule fb_ok_set_back[OF ok b(2)])
  have "in_rect (dirty ?f1) u v" if "on_screen ?f u v" for u v
    by (rule mark_dirty_rect_covers)
       (use ok that in \<open>auto simp: fb_ok_def rect_ok_def on_screen_def blank_fb_def\<close>)
  then have ag: "agree ?f1" using geometry_views[OF geo] by (simp add: agree_def)
  have "idle ?f1" by (simp add: idle_def blank_fb_def)
  with ok1 ag obtain f where f: "show_frame (?f1, g) = Ok (f, g)" "fb_ok f" "synced f" "same_geometry ?f1 f" "idle f"
    "\<And>u v. on_screen ?f1 u v \<Longrightarrow> pixel ?f1 (front f) u v = pixel ?f1 (back_buf ?f1) u v"
    by (rule show_frame_agree) blast
  have g: "same_geometry ?f f" using f(4) geo by (simp add: same_geometry_def)
  have "pixel f (front f) u v = BG" if "u < w" "v < h" for u v
    using f(6)[of u v] b(3)[of u v] that geometry_views[OF geo] geometry_views[OF g]
    by (simp add: on_screen_def blank_fb_def)
  then show ?thesis
    by (intro that[of f]) (use b f g in \<open>auto simp: first_frame_def show_frame_def same_geometry_def blank_fb_def\<close>)
qed

end
