(* ===== verification/Console.thy ===== *)
theory Console
  imports Framebuffer
begin

text \<open>
  The text console over the framebuffer, \<open>kernel/src/drivers/console.rs\<close>: a grid of character
  cells with a cursor, a scroll when the cursor leaves the last row, and a status bar of two rows below
  the grid.  A string is the list of its code points, as \<open>chars()\<close> yields them.

  The abstract console is a grid of cells and a cursor (\<open>terminal\<close>); the lemmas show that every operation
  keeps the picture in the back buffer equal to the grid rendered with the font.
\<close>

section \<open>The console\<close>

record console =
  ccols :: nat
  crows :: nat
  cglyph_w :: nat
  cglyph_h :: nat
  cx :: nat
  cy :: nat
  cfg :: u32
  cbg :: u32

definition console_new :: "fb \<Rightarrow> console result" where
  "console_new f = rbind (glyph_width f) (\<lambda>gw. rbind (glyph_height f) (\<lambda>gh.
    if gw = 0 \<or> gh = 0 then Panic
    else Ok \<lparr> ccols = fwidth f div gw, crows = fheight f div gh - 2, cglyph_w = gw, cglyph_h = gh,
              cx = 0, cy = 0, cfg = WHITE, cbg = BG \<rparr>))"

definition newline :: "console \<times> fb \<Rightarrow> (console \<times> fb) result" where
  "newline = (\<lambda>(c, f).
    rbind (cadd 32 (cy c) 1) (\<lambda>cy'.
    if crows c \<le> cy' then
      rbind (cmul 32 (crows c) (cglyph_h c)) (\<lambda>max_y.
      rbind (scroll_up_bounded max_y (cglyph_h c) (cbg c) f) (\<lambda>f.
      rbind (csub (crows c) 1) (\<lambda>last. Ok (c \<lparr> cx := 0, cy := last \<rparr>, f))))
    else Ok (c \<lparr> cx := 0, cy := cy' \<rparr>, f)))"

text \<open>A character that is not a control character.\<close>

definition put_plain :: "nat \<Rightarrow> console \<times> fb \<Rightarrow> (console \<times> fb) result" where
  "put_plain ch = (\<lambda>(c, f).
    rbind (if ccols c \<le> cx c then newline (c, f) else Ok (c, f)) (\<lambda>(c, f).
    rbind (cmul 32 (cx c) (cglyph_w c)) (\<lambda>x. rbind (cmul 32 (cy c) (cglyph_h c)) (\<lambda>y.
    rbind (blit_char x y ch (cfg c) (cbg c) f) (\<lambda>f.
    rbind (cadd 32 (cx c) 1) (\<lambda>cx'. Ok (c \<lparr> cx := cx' \<rparr>, f)))))))"

definition backspace :: "console \<times> fb \<Rightarrow> (console \<times> fb) result" where
  "backspace = (\<lambda>(c, f).
    if 0 < cx c then
      let c = c \<lparr> cx := cx c - 1 \<rparr> in
      rbind (cmul 32 (cx c) (cglyph_w c)) (\<lambda>x. rbind (cmul 32 (cy c) (cglyph_h c)) (\<lambda>y.
      rbind (fill_rect x y (cglyph_w c) (cglyph_h c) (cbg c) f) (\<lambda>f. Ok (c, f))))
    else Ok (c, f))"

text \<open>The loop of a tabulation writes spaces up to the next multiple of four: at most four.  A space
  written there moves the cursor by one column, since the column is below the width.\<close>

primrec tab_loop :: "nat \<Rightarrow> nat \<Rightarrow> console \<times> fb \<Rightarrow> (console \<times> fb) result" where
  "tab_loop 0 nxt s = Ok s"
| "tab_loop (Suc n) nxt s =
    (if cx (fst s) < nxt \<and> cx (fst s) < ccols (fst s)
     then rbind (put_plain 32 s) (tab_loop n nxt) else Ok s)"

definition put_char :: "nat \<Rightarrow> console \<times> fb \<Rightarrow> (console \<times> fb) result" where
  "put_char ch s =
    (if ch = 10 then newline s
     else if ch = 13 then Ok ((fst s) \<lparr> cx := 0 \<rparr>, snd s)
     else if ch = 8 then backspace s
     else if ch = 9 then
       rbind (cadd 32 (cx (fst s) div 4) 1) (\<lambda>q. rbind (cmul 32 q 4) (\<lambda>nxt. tab_loop 4 nxt s))
     else put_plain ch s)"

definition write_string :: "nat list \<Rightarrow> console \<times> fb \<Rightarrow> (console \<times> fb) result" where
  "write_string s = rfold put_char s"

definition console_clear :: "console \<times> fb \<Rightarrow> (console \<times> fb) result" where
  "console_clear = (\<lambda>(c, f). rbind (fb_clear (cbg c) f) (\<lambda>f. Ok (c \<lparr> cx := 0, cy := 0 \<rparr>, f)))"

text \<open>The public entry points: the drawing, then one frame.\<close>

definition console_write_str :: "nat list \<Rightarrow> console \<times> fb \<times> virtio_gpu option
    \<Rightarrow> (console \<times> fb \<times> virtio_gpu option) result" where
  "console_write_str s = (\<lambda>(c, f, g).
    rbind (write_string s (c, f)) (\<lambda>(c, f). rbind (show_frame (f, g)) (\<lambda>(f, g). Ok (c, f, g))))"

definition clear_screen :: "console \<times> fb \<times> virtio_gpu option \<Rightarrow> (console \<times> fb \<times> virtio_gpu option) result" where
  "clear_screen = (\<lambda>(c, f, g).
    rbind (console_clear (c, f)) (\<lambda>(c, f). rbind (show_frame (f, g)) (\<lambda>(f, g). Ok (c, f, g))))"

definition set_colors :: "u32 \<Rightarrow> u32 \<Rightarrow> console \<Rightarrow> console" where
  "set_colors fg bg c = c \<lparr> cfg := fg, cbg := bg \<rparr>"

text \<open>\<open>status_text\<close> stops at the first character that does not fit the width.\<close>

fun status_text :: "nat \<Rightarrow> nat \<Rightarrow> nat \<Rightarrow> nat \<Rightarrow> nat list \<Rightarrow> fb \<Rightarrow> fb result" where
  "status_text gw w y x [] f = Ok f"
| "status_text gw w y x (ch # s) f =
    rbind (cadd 32 x gw) (\<lambda>x'.
    if w < x' then Ok f
    else rbind (blit_char x y ch WHITE 0x282a36 f) (status_text gw w y x' s))"

definition draw_status_bar :: "nat list \<Rightarrow> console \<times> fb \<times> virtio_gpu option
    \<Rightarrow> (fb \<times> virtio_gpu option) result" where
  "draw_status_bar txt = (\<lambda>(c, f, g).
    let w = fwidth f in
    rbind (cmul 32 (crows c) (cglyph_h c)) (\<lambda>bar_y. rbind (cmul 32 2 (cglyph_h c)) (\<lambda>bar_h.
    rbind (fill_rect 0 bar_y w bar_h 0x282a36 f) (\<lambda>f.
    rbind (fill_rect 0 bar_y w 1 CYAN f) (\<lambda>f.
    rbind (csub bar_h (cglyph_h c)) (\<lambda>d. rbind (cadd 32 bar_y (d div 2)) (\<lambda>text_y.
    rbind (status_text (cglyph_w c) w text_y 8 txt f) (\<lambda>f. show_frame (f, g)))))))))"

section \<open>The abstract console\<close>

text \<open>A cell is a character with its two colours; an empty cell is a space.\<close>

type_synonym cell = "nat \<times> u32 \<times> u32"

record terminal =
  grid :: "nat \<Rightarrow> nat \<Rightarrow> cell"
  tx :: nat
  ty :: nat

definition term_newline :: "nat \<Rightarrow> cell \<Rightarrow> terminal \<Rightarrow> terminal" where
  "term_newline rows blank t =
    (if Suc (ty t) < rows then t \<lparr> tx := 0, ty := Suc (ty t) \<rparr>
     else t \<lparr> grid := (\<lambda>i j. if Suc j < rows then grid t i (Suc j) else blank), tx := 0, ty := rows - 1 \<rparr>)"

definition term_set :: "cell \<Rightarrow> terminal \<Rightarrow> terminal" where
  "term_set c t = t \<lparr> grid := (\<lambda>i j. if i = tx t \<and> j = ty t then c else grid t i j) \<rparr>"

definition term_plain :: "nat \<Rightarrow> nat \<Rightarrow> u32 \<Rightarrow> u32 \<Rightarrow> nat \<Rightarrow> terminal \<Rightarrow> terminal" where
  "term_plain cols rows fg bg ch t =
    (let t = if cols \<le> tx t then term_newline rows (32, fg, bg) t else t;
         t = term_set (ch, fg, bg) t in t \<lparr> tx := Suc (tx t) \<rparr>)"

definition term_char :: "nat \<Rightarrow> nat \<Rightarrow> u32 \<Rightarrow> u32 \<Rightarrow> nat \<Rightarrow> terminal \<Rightarrow> terminal" where
  "term_char cols rows fg bg ch t =
    (if ch = 10 then term_newline rows (32, fg, bg) t
     else if ch = 13 then t \<lparr> tx := 0 \<rparr>
     else if ch = 8 then
       (if 0 < tx t then term_set (32, fg, bg) (t \<lparr> tx := tx t - 1 \<rparr>) else t)
     else if ch = 9 then
       (term_plain cols rows fg bg 32 ^^ (min ((tx t div 4 + 1) * 4) cols - tx t)) t
     else term_plain cols rows fg bg ch t)"

definition term_write :: "nat \<Rightarrow> nat \<Rightarrow> u32 \<Rightarrow> u32 \<Rightarrow> nat list \<Rightarrow> terminal \<Rightarrow> terminal" where
  "term_write cols rows fg bg s t = fold (term_char cols rows fg bg) s t"

section \<open>The console implements it\<close>

definition cell_pixel :: "nat \<Rightarrow> cell \<Rightarrow> nat \<Rightarrow> nat \<Rightarrow> u32" where
  "cell_pixel s = (\<lambda>(ch, fg, bg) dx dy. glyph_pixel (glyph ch) s 0 0 fg bg dx dy)"

definition rendered :: "fb \<Rightarrow> nat \<Rightarrow> nat \<Rightarrow> (nat \<Rightarrow> nat \<Rightarrow> cell) \<Rightarrow> u32 list \<Rightarrow> bool" where
  "rendered f cols rows G b \<longleftrightarrow> (\<forall>i < cols. \<forall>j < rows. \<forall>dx < 8 * text_scale f. \<forall>dy < 16 * text_scale f.
     pixel f b (i * (8 * text_scale f) + dx) (j * (16 * text_scale f) + dy) = cell_pixel (text_scale f) (G i j) dx dy)"

text \<open>The console fits the framebuffer and has at least two rows; with one row \<open>scroll_up_bounded\<close>
  does nothing, with none \<open>newline\<close> panics.\<close>

definition console_fits :: "console \<Rightarrow> fb \<Rightarrow> bool" where
  "console_fits c f \<longleftrightarrow> cglyph_w c = 8 * text_scale f \<and> cglyph_h c = 16 * text_scale f \<and>
     0 < ccols c \<and> ccols c * (8 * text_scale f) \<le> fwidth f \<and>
     2 \<le> crows c \<and> crows c * (16 * text_scale f) \<le> fheight f \<and> cx c \<le> ccols c \<and> cy c < crows c"

definition console_rel :: "console \<times> fb \<Rightarrow> terminal \<Rightarrow> bool" where
  "console_rel = (\<lambda>(c, f) t. fb_ok f \<and> synced f \<and> console_fits c f \<and> tx t = cx c \<and> ty t = cy c \<and>
     rendered f (ccols c) (crows c) (grid t) (back_buf f))"

definition same_console :: "console \<Rightarrow> console \<Rightarrow> bool" where
  "same_console c c' \<longleftrightarrow> ccols c' = ccols c \<and> crows c' = crows c \<and> cfg c' = cfg c \<and> cbg c' = cbg c"

text \<open>One step of the console simulates one step \<open>t'\<close> of the abstract console, and touches no pixel
  below the rows of the grid.\<close>

definition simulates :: "console \<times> fb \<Rightarrow> terminal \<Rightarrow> (console \<times> fb) result \<Rightarrow> bool" where
  "simulates = (\<lambda>(c, f) t' r. \<exists>c' f'. r = Ok (c', f') \<and> console_rel (c', f') t' \<and> same_console c c' \<and>
     same_geometry f f' \<and> frame_ready f' = frame_ready f \<and> ready_dirty f' = ready_dirty f \<and>
     (\<forall>u v. on_screen f u v \<and> crows c * (16 * text_scale f) \<le> v \<longrightarrow>
        pixel f (back_buf f') u v = pixel f (back_buf f) u v))"

lemma blank_cell:
  assumes "0 < s" "dy < 16 * s"
  shows "cell_pixel s (32, fg, bg) dx dy = bg"
proof -
  have "dy div s < 16" using assms by (simp add: less_mult_imp_div_less)
  then show ?thesis by (simp add: cell_pixel_def glyph_pixel_def glyph_space glyph_on_def)
qed

lemma same_cell:
  fixes i j g d :: nat
  assumes "d < g"
  shows "j * g \<le> i * g + d \<and> i * g + d < j * g + g \<longleftrightarrow> i = j"
  using same_row[of j g i d] assms by auto

lemma cell_on_screen:
  assumes "console_fits c f" "i < ccols c" "j < crows c" "dx < 8 * text_scale f" "dy < 16 * text_scale f"
  shows "on_screen f (i * (8 * text_scale f) + dx) (j * (16 * text_scale f) + dy)"
proof -
  have "Suc i * (8 * text_scale f) \<le> ccols c * (8 * text_scale f)"
    "Suc j * (16 * text_scale f) \<le> crows c * (16 * text_scale f)" using assms by (intro mult_le_mono1; simp)+
  moreover have "ccols c * (8 * text_scale f) \<le> fwidth f" "crows c * (16 * text_scale f) \<le> fheight f"
    using assms(1) by (auto simp: console_fits_def)
  ultimately show ?thesis using assms(4,5) unfolding on_screen_def by simp
qed

lemma draws_geometry: "draws f g (Ok f') \<Longrightarrow> same_geometry f f'"
  by (simp add: draws_def same_geometry_def)

lemma scale_pos: "fb_ok f \<Longrightarrow> 0 < text_scale f"
  by (auto simp: fb_ok_def)

lemma rendered_geometry: "same_geometry f f' \<Longrightarrow> rendered f' = rendered f"
  using geometry_views[of f f'] by (auto simp: rendered_def fun_eq_iff same_geometry_def)

lemma console_fits_geometry: "same_geometry f f' \<Longrightarrow> console_fits c f' = console_fits c f"
  by (auto simp: console_fits_def same_geometry_def)

text \<open>A drawing that changes the cell under the cursor only.\<close>

lemma draw_cell:
  assumes rel: "console_rel (c, f) t" and col: "cx c < ccols c"
    and d: "draws f (\<lambda>p u v. if cx c * cglyph_w c \<le> u \<and> u < cx c * cglyph_w c + 8 * text_scale f \<and>
        cy c * cglyph_h c \<le> v \<and> v < cy c * cglyph_h c + 16 * text_scale f
      then cell_pixel (text_scale f) cell (u - cx c * cglyph_w c) (v - cy c * cglyph_h c) else p u v) r"
  shows "simulates (c, f) (term_set cell t) (rbind r (\<lambda>f'. Ok (c, f')))"
proof -
  let ?s = "text_scale f"
  have fits: "console_fits c f" and cur: "tx t = cx c" "ty t = cy c"
    and ren: "rendered f (ccols c) (crows c) (grid t) (back_buf f)" using rel by (auto simp: console_rel_def)
  then have g: "cglyph_w c = 8 * ?s" "cglyph_h c = 16 * ?s" "cy c < crows c" by (auto simp: console_fits_def)
  from d obtain f' where f': "r = Ok f'" "fb_ok f'" "synced f'" "frame_ready f' = frame_ready f"
    "ready_dirty f' = ready_dirty f" and px: "\<And>u v. on_screen f u v \<Longrightarrow> pixel f (back_buf f') u v =
      (if cx c * (8 * ?s) \<le> u \<and> u < cx c * (8 * ?s) + 8 * ?s \<and> cy c * (16 * ?s) \<le> v \<and> v < cy c * (16 * ?s) + 16 * ?s
       then cell_pixel ?s cell (u - cx c * (8 * ?s)) (v - cy c * (16 * ?s)) else pixel f (back_buf f) u v)"
    unfolding draws_def g by blast
  have geo: "same_geometry f f'" using d f'(1) draws_geometry by blast
  have "rendered f (ccols c) (crows c) (grid (term_set cell t)) (back_buf f')"
    unfolding rendered_def
  proof (intro allI impI)
    fix i j dx dy assume i: "i < ccols c" "j < crows c" "dx < 8 * ?s" "dy < 16 * ?s"
    show "pixel f (back_buf f') (i * (8 * ?s) + dx) (j * (16 * ?s) + dy) =
        cell_pixel ?s (grid (term_set cell t) i j) dx dy"
      using px[OF cell_on_screen[OF fits i]] same_cell[OF i(3), of "cx c" i] same_cell[OF i(4), of "cy c" j]
        ren i cur by (auto simp: rendered_def term_set_def)
  qed
  moreover have "Suc (cy c) * (16 * ?s) \<le> crows c * (16 * ?s)" using g(3) by (intro mult_le_mono1) simp
  then have "pixel f (back_buf f') u v = pixel f (back_buf f) u v"
    if "on_screen f u v" "crows c * (16 * ?s) \<le> v" for u v using px[OF that(1)] that(2) by auto
  ultimately show ?thesis
    using f' geo fits cur by (auto simp: simulates_def console_rel_def rendered_geometry[OF geo]
        console_fits_geometry[OF geo] same_console_def term_set_def)
qed

lemma newline_simulates:
  assumes rel: "console_rel (c, f) t"
  shows "simulates (c, f) (term_newline (crows c) (32, cfg c, cbg c) t) (newline (c, f))"
proof -
  let ?s = "text_scale f" and ?t = "term_newline (crows c) (32, cfg c, cbg c) t"
  have fits: "console_fits c f" and ok: "fb_ok f" "synced f" and cur: "tx t = cx c" "ty t = cy c"
    and ren: "rendered f (ccols c) (crows c) (grid t) (back_buf f)" using rel by (auto simp: console_rel_def)
  then have g: "cglyph_w c = 8 * ?s" "cglyph_h c = 16 * ?s" "cy c < crows c" "2 \<le> crows c"
    "crows c * (16 * ?s) \<le> fheight f" "0 < ?s" "fheight f < 2 ^ 32"
    by (auto simp: console_fits_def fb_ok_def)
  have "crows c \<le> crows c * (16 * ?s)" using g(6) by simp
  then have b: "Suc (cy c) < 2 ^ 32" "crows c * (16 * ?s) < 2 ^ 32" using g by linarith+
  show ?thesis
  proof (cases "Suc (cy c) < crows c")
    case True
    then have "newline (c, f) = Ok (c \<lparr> cx := 0, cy := Suc (cy c) \<rparr>, f)"
      using b by (simp add: newline_def cadd_def)
    then show ?thesis using True rel cur
      by (auto simp: simulates_def console_rel_def term_newline_def same_console_def same_geometry_def
          console_fits_def)
  next
    case False
    have two: "Suc 1 * (16 * ?s) \<le> crows c * (16 * ?s)" using g(4) by (intro mult_le_mono1) simp
    have "2 * (16 * ?s) \<le> crows c * (16 * ?s)" using two by simp
    then have h: "16 * ?s \<le> fheight f" "\<not> crows c * (16 * ?s) \<le> 16 * ?s" "16 * ?s \<noteq> 0"
      "min (crows c * (16 * ?s)) (fheight f) = crows c * (16 * ?s)"
      using g(5,6) by linarith+
    obtain f' where f': "scroll_up_bounded (crows c * (16 * ?s)) (16 * ?s) (cbg c) f = Ok f'" "fb_ok f'" "synced f'"
      "frame_ready f' = frame_ready f" "ready_dirty f' = ready_dirty f" "same_geometry f f'"
      "\<And>u v. on_screen f u v \<Longrightarrow> pixel f (back_buf f') u v =
        (if v + 16 * ?s < crows c * (16 * ?s) then pixel f (back_buf f) u (v + 16 * ?s)
         else if v < crows c * (16 * ?s) then cbg c else pixel f (back_buf f) u v)"
      using scroll_up_bounded_draws[OF ok h(1), of "crows c * (16 * ?s)" "cbg c"] h(2,3,4)
      by (auto simp: draws_def same_geometry_def)
    have below: "Suc j * (16 * ?s) + dy < crows c * (16 * ?s) \<longleftrightarrow> Suc j < crows c"
      "j * (16 * ?s) + dy < crows c * (16 * ?s)" if "j < crows c" "dy < 16 * ?s" for j dy
    proof -
      have 1: "i * (16 * ?s) + dy < crows c * (16 * ?s)" if "i < crows c" for i
      proof -
        have "Suc i * (16 * ?s) \<le> crows c * (16 * ?s)" using that by (intro mult_le_mono1) simp
        then show ?thesis using \<open>dy < 16 * ?s\<close> by simp
      qed
      show "j * (16 * ?s) + dy < crows c * (16 * ?s)" by (rule 1) fact
      have "\<not> Suc j * (16 * ?s) + dy < crows c * (16 * ?s)" if "\<not> Suc j < crows c"
        using mult_le_mono1[of "crows c" "Suc j" "16 * ?s"] that by linarith
      then show "Suc j * (16 * ?s) + dy < crows c * (16 * ?s) \<longleftrightarrow> Suc j < crows c" using 1 by blast
    qed
    have "rendered f (ccols c) (crows c) (grid ?t) (back_buf f')"
      unfolding rendered_def
    proof (intro allI impI)
      fix i j dx dy assume i: "i < ccols c" "j < crows c" "dx < 8 * ?s" "dy < 16 * ?s"
      have v: "j * (16 * ?s) + dy + 16 * ?s = Suc j * (16 * ?s) + dy" by simp
      show "pixel f (back_buf f') (i * (8 * ?s) + dx) (j * (16 * ?s) + dy) = cell_pixel ?s (grid ?t i j) dx dy"
        unfolding f'(7)[OF cell_on_screen[OF fits i]] v below(1)[OF i(2,4)]
        using below(2)[OF i(2,4)] False cur ren i blank_cell[OF g(6) i(4)]
        by (simp add: term_newline_def rendered_def del: mult_Suc)
    qed
    moreover have "newline (c, f) = Ok (c \<lparr> cx := 0, cy := crows c - 1 \<rparr>, f')"
      using False b g f'(1) by (simp add: newline_def cadd_def cmul_def csub_def)
    ultimately show ?thesis
      using f' fits cur False g(4)
      by (auto simp: simulates_def console_rel_def rendered_geometry[OF f'(6)] console_fits_geometry[OF f'(6)]
          same_console_def term_newline_def) (auto simp: console_fits_def)
  qed
qed

lemma simulates_refl: "console_rel (c, f) t \<Longrightarrow> simulates (c, f) t (Ok (c, f))"
  by (simp add: simulates_def same_console_def same_geometry_def)

lemma simulates_bind:
  assumes "simulates (c, f) t r"
    and "\<And>c' f'. console_rel (c', f') t \<Longrightarrow> same_console c c' \<Longrightarrow> simulates (c', f') t' (k (c', f'))"
  shows "simulates (c, f) t' (rbind r k)"
proof -
  obtain c1 f1 where 1: "r = Ok (c1, f1)" "console_rel (c1, f1) t" "same_console c c1" "same_geometry f f1"
    "frame_ready f1 = frame_ready f" "ready_dirty f1 = ready_dirty f"
    "\<forall>u v. on_screen f u v \<and> crows c * (16 * text_scale f) \<le> v \<longrightarrow> pixel f (back_buf f1) u v = pixel f (back_buf f) u v"
    using assms(1) by (auto simp: simulates_def)
  obtain c2 f2 where 2: "k (c1, f1) = Ok (c2, f2)" "console_rel (c2, f2) t'" "same_console c1 c2" "same_geometry f1 f2"
    "frame_ready f2 = frame_ready f1" "ready_dirty f2 = ready_dirty f1"
    "\<forall>u v. on_screen f1 u v \<and> crows c1 * (16 * text_scale f1) \<le> v \<longrightarrow> pixel f1 (back_buf f2) u v = pixel f1 (back_buf f1) u v"
    using assms(2)[OF 1(2,3)] by (auto simp: simulates_def)
  show ?thesis
    using 1 2 geometry_views[OF 1(4)] by (auto simp: simulates_def same_console_def same_geometry_def)
qed

lemma console_cell_fits:
  assumes "console_rel (c, f) t" "cx c \<le> ccols c"
  shows "cmul 32 (cx c) (cglyph_w c) = Ok (cx c * cglyph_w c)" "cmul 32 (cy c) (cglyph_h c) = Ok (cy c * cglyph_h c)"
    "cadd 32 (cx c) 1 = Ok (Suc (cx c))" "cglyph_w c = 8 * text_scale f" "cglyph_h c = 16 * text_scale f"
proof -
  let ?s = "text_scale f"
  have f: "fb_ok f" "console_fits c f" using assms by (auto simp: console_rel_def)
  then have g: "cglyph_w c = 8 * ?s" "cglyph_h c = 16 * ?s" "ccols c * (8 * ?s) \<le> fwidth f"
    "crows c * (16 * ?s) \<le> fheight f" "cy c < crows c" "fwidth f < 2 ^ 32" "fheight f < 2 ^ 32" "0 < ?s"
    by (auto simp: console_fits_def fb_ok_def)
  have le: "cx c * (8 * ?s) \<le> ccols c * (8 * ?s)" "cy c * (16 * ?s) \<le> crows c * (16 * ?s)"
    using assms(2) g(5) by (intro mult_le_mono1; simp)+
  have "cx c * 8 \<le> cx c * (8 * ?s)" using g(8) by (intro mult_le_mono2) simp
  moreover have "fwidth f < 4294967296" using g(6) by simp
  ultimately have "Suc (cx c) < 4294967296" using le(1) g(3) by linarith
  then have c1: "Suc (cx c) < 2 ^ 32" by simp
  have "cx c * (8 * ?s) < 2 ^ 32" "cy c * (16 * ?s) < 2 ^ 32" using le g by linarith+
  then show "cmul 32 (cx c) (cglyph_w c) = Ok (cx c * cglyph_w c)" "cmul 32 (cy c) (cglyph_h c) = Ok (cy c * cglyph_h c)"
    unfolding cmul_def g(1,2) by simp_all
  show "cadd 32 (cx c) 1 = Ok (Suc (cx c))" using c1 by (simp add: cadd_def)
qed (use assms in \<open>auto simp: console_rel_def console_fits_def\<close>)

lemma move_cursor:
  assumes "console_rel (c, f) t" "n \<le> ccols c"
  shows "simulates (c, f) (t \<lparr> tx := n \<rparr>) (Ok (c \<lparr> cx := n \<rparr>, f))"
  using assms by (auto simp: simulates_def console_rel_def console_fits_def same_console_def same_geometry_def)

lemma put_here:
  assumes rel: "console_rel (c, f) t" and col: "cx c < ccols c"
  shows "simulates (c, f) (let t = term_set (ch, cfg c, cbg c) t in t \<lparr> tx := Suc (tx t) \<rparr>)
    (rbind (cmul 32 (cx c) (cglyph_w c)) (\<lambda>x. rbind (cmul 32 (cy c) (cglyph_h c)) (\<lambda>y.
     rbind (blit_char x y ch (cfg c) (cbg c) f) (\<lambda>f.
     rbind (cadd 32 (cx c) 1) (\<lambda>cx'. Ok (c \<lparr> cx := cx' \<rparr>, f))))))"
proof -
  note n = console_cell_fits[OF rel less_imp_le[OF col]]
  have ok: "fb_ok f" "synced f" and cur: "tx t = cx c" using rel by (auto simp: console_rel_def)
  let ?x = "cx c * cglyph_w c" and ?y = "cy c * cglyph_h c"
  have "draws f (\<lambda>p u v. if ?x \<le> u \<and> u < ?x + 8 * text_scale f \<and> ?y \<le> v \<and> v < ?y + 16 * text_scale f
      then cell_pixel (text_scale f) (ch, cfg c, cbg c) (u - ?x) (v - ?y) else p u v)
      (blit_char ?x ?y ch (cfg c) (cbg c) f)"
    by (rule draws_cong[OF blit_char_draws[OF ok]]) (simp add: cell_pixel_def glyph_pixel_def)
  then have "simulates (c, f) (term_set (ch, cfg c, cbg c) t)
      (rbind (blit_char ?x ?y ch (cfg c) (cbg c) f) (\<lambda>f'. Ok (c, f')))"
    by (rule draw_cell[OF rel col])
  then have "simulates (c, f) ((term_set (ch, cfg c, cbg c) t) \<lparr> tx := Suc (cx c) \<rparr>)
      (rbind (rbind (blit_char ?x ?y ch (cfg c) (cbg c) f) (\<lambda>f'. Ok (c, f'))) (\<lambda>(c', f'). Ok (c' \<lparr> cx := Suc (cx c) \<rparr>, f')))"
    by (rule simulates_bind) (use col in \<open>simp add: move_cursor same_console_def\<close>)
  then show ?thesis using cur unfolding n(1-3) rbind_assoc by (simp add: Let_def term_set_def)
qed

lemma put_plain_simulates:
  assumes rel: "console_rel (c, f) t"
  shows "simulates (c, f) (term_plain (ccols c) (crows c) (cfg c) (cbg c) ch t) (put_plain ch (c, f))"
proof -
  let ?t = "if ccols c \<le> tx t then term_newline (crows c) (32, cfg c, cbg c) t else t"
  have cur: "tx t = cx c" "0 < ccols c" using rel by (auto simp: console_rel_def console_fits_def)
  have nl: "simulates (c, f) ?t (if ccols c \<le> cx c then newline (c, f) else Ok (c, f))"
    using newline_simulates[OF rel] simulates_refl[OF rel] cur by simp
  have "tx ?t < ccols c" using cur by (auto simp: term_newline_def)
  then have "simulates (c', f') (let t = term_set (ch, cfg c', cbg c') ?t in t \<lparr> tx := Suc (tx t) \<rparr>)
      (rbind (cmul 32 (cx c') (cglyph_w c')) (\<lambda>x. rbind (cmul 32 (cy c') (cglyph_h c')) (\<lambda>y.
       rbind (blit_char x y ch (cfg c') (cbg c') f') (\<lambda>f.
       rbind (cadd 32 (cx c') 1) (\<lambda>cx'. Ok (c' \<lparr> cx := cx' \<rparr>, f))))))"
    if "console_rel (c', f') ?t" "same_console c c'" for c' f'
    by (intro put_here[OF that(1)]) (use that in \<open>auto simp: same_console_def console_rel_def\<close>)
  then have step: "simulates (c', f') (term_plain (ccols c) (crows c) (cfg c) (cbg c) ch t)
      (rbind (cmul 32 (cx c') (cglyph_w c')) (\<lambda>x. rbind (cmul 32 (cy c') (cglyph_h c')) (\<lambda>y.
       rbind (blit_char x y ch (cfg c') (cbg c') f') (\<lambda>f.
       rbind (cadd 32 (cx c') 1) (\<lambda>cx'. Ok (c' \<lparr> cx := cx' \<rparr>, f))))))"
    if "console_rel (c', f') ?t" "same_console c c'" for c' f'
    using that by (simp add: term_plain_def same_console_def Let_def)
  show ?thesis unfolding put_plain_def prod.case
    by (rule simulates_bind[OF nl]) (simp only: prod.case, rule step)
qed

lemma backspace_simulates:
  assumes rel: "console_rel (c, f) t"
  shows "simulates (c, f) (if 0 < tx t then term_set (32, cfg c, cbg c) (t \<lparr> tx := tx t - 1 \<rparr>) else t) (backspace (c, f))"
proof (cases "0 < cx c")
  case False
  then show ?thesis using rel simulates_refl[OF rel] by (simp add: backspace_def console_rel_def)
next
  case True
  have cur: "tx t = cx c" "cx c \<le> ccols c" using rel by (auto simp: console_rel_def console_fits_def)
  let ?c = "c \<lparr> cx := cx c - 1 \<rparr>" and ?t = "t \<lparr> tx := cx c - 1 \<rparr>"
  have mv: "simulates (c, f) ?t (Ok (?c, f))" using move_cursor[OF rel] cur by simp
  have "simulates (c', f') (term_set (32, cfg c, cbg c) ?t)
      ((\<lambda>(c, f). rbind (cmul 32 (cx c) (cglyph_w c)) (\<lambda>x. rbind (cmul 32 (cy c) (cglyph_h c)) (\<lambda>y.
        rbind (fill_rect x y (cglyph_w c) (cglyph_h c) (cbg c) f) (\<lambda>f. Ok (c, f))))) (c', f'))"
    if rel': "console_rel (c', f') ?t" and same: "same_console c c'" for c' f'
  proof -
    have col: "cx c' < ccols c'" using rel' True same cur by (auto simp: console_rel_def same_console_def)
    note n = console_cell_fits[OF rel' less_imp_le[OF col]]
    have ok: "fb_ok f'" "synced f'" using rel' by (auto simp: console_rel_def)
    let ?x = "cx c' * cglyph_w c'" and ?y = "cy c' * cglyph_h c'"
    have "draws f' (\<lambda>p u v. if ?x \<le> u \<and> u < ?x + 8 * text_scale f' \<and> ?y \<le> v \<and> v < ?y + 16 * text_scale f'
      then cell_pixel (text_scale f') (32, cfg c, cbg c) (u - ?x) (v - ?y) else p u v)
      (fill_rect ?x ?y (cglyph_w c') (cglyph_h c') (cbg c') f')"
      unfolding n(4,5)
      by (rule draws_cong[OF fill_rect_draws[OF ok]])
         (use same blank_cell[OF scale_pos[OF ok(1)]] in \<open>auto simp: same_console_def\<close>)
    then show ?thesis using draw_cell[OF rel' col] n by simp
  qed
  then have "simulates (c, f) (term_set (32, cfg c, cbg c) ?t) (rbind (Ok (?c, f))
      (\<lambda>(c, f). rbind (cmul 32 (cx c) (cglyph_w c)) (\<lambda>x. rbind (cmul 32 (cy c) (cglyph_h c)) (\<lambda>y.
        rbind (fill_rect x y (cglyph_w c) (cglyph_h c) (cbg c) f) (\<lambda>f. Ok (c, f))))))"
    by (rule simulates_bind[OF mv])
  then show ?thesis using True cur by (simp add: backspace_def Let_def)
qed

lemma term_plain_below:
  assumes "tx t < cols"
  shows "tx (term_plain cols rows fg bg ch t) = Suc (tx t)"
  using assms by (simp add: term_plain_def term_set_def Let_def)

lemma tab_loop_simulates:
  assumes "console_rel (c, f) t" "min nxt (ccols c) - cx c \<le> n"
  shows "simulates (c, f) ((term_plain (ccols c) (crows c) (cfg c) (cbg c) 32 ^^ (min nxt (ccols c) - cx c)) t)
    (tab_loop n nxt (c, f))"
  using assms
proof (induction n arbitrary: c f t)
  case 0
  then show ?case using simulates_refl[OF 0(1)] by simp
next
  case (Suc n)
  let ?step = "term_plain (ccols c) (crows c) (cfg c) (cbg c) 32"
  show ?case
  proof (cases "cx c < nxt \<and> cx c < ccols c")
    case False
    then show ?thesis using simulates_refl[OF Suc.prems(1)] by auto
  next
    case True
    have cur: "tx t = cx c" using Suc.prems by (simp add: console_rel_def)
    have k: "min nxt (ccols c) - cx c = Suc (min nxt (ccols c) - Suc (cx c))" using True by auto
    have "simulates (c', f') ((?step ^^ (min nxt (ccols c) - Suc (cx c))) (?step t)) (tab_loop n nxt (c', f'))"
      if rel: "console_rel (c', f') (?step t)" and same: "same_console c c'" for c' f'
    proof -
      have "cx c' = Suc (cx c)"
        using rel term_plain_below[of t "ccols c"] True cur by (simp add: console_rel_def)
      then show ?thesis using Suc.IH[OF rel] Suc.prems(2) same by (simp add: same_console_def)
    qed
    then have "simulates (c, f) ((?step ^^ (min nxt (ccols c) - Suc (cx c))) (?step t))
        (rbind (put_plain 32 (c, f)) (tab_loop n nxt))"
      by (rule simulates_bind[OF put_plain_simulates[OF Suc.prems(1)]])
    then show ?thesis using True unfolding k by (simp add: funpow_Suc_right del: funpow.simps)
  qed
qed

lemma put_char_simulates:
  assumes rel: "console_rel (c, f) t"
  shows "simulates (c, f) (term_char (ccols c) (crows c) (cfg c) (cbg c) ch t) (put_char ch (c, f))"
proof -
  have cur: "tx t = cx c" "cx c \<le> ccols c" "fwidth f < 2 ^ 32" "ccols c * (8 * text_scale f) \<le> fwidth f" "0 < text_scale f"
    using rel by (auto simp: console_rel_def console_fits_def fb_ok_def)
  have "cx c * 8 \<le> ccols c * (8 * text_scale f)" using cur(2,5) by (intro mult_le_mono) auto
  moreover have "fwidth f < 4294967296" using cur(3) by simp
  ultimately have "cx c < 536870912" using cur(4) by linarith
  then have "cx c div 4 + 1 < 4294967296" "(cx c div 4 + 1) * 4 < 4294967296"
    by presburger+
  then have nxt: "rbind (cadd 32 (cx c div 4) 1) (\<lambda>q. rbind (cmul 32 q 4) k) = k ((cx c div 4 + 1) * 4)" for k :: "nat \<Rightarrow> (console \<times> fb) result"
    by (simp add: cadd_def cmul_def)
  have "(cx c div 4 + 1) * 4 \<le> cx c + 4" by presburger
  then have four: "min ((cx c div 4 + 1) * 4) (ccols c) - cx c \<le> 4" by linarith
  have tab: "simulates (c, f) ((term_plain (ccols c) (crows c) (cfg c) (cbg c) 32 ^^ (min ((cx c div 4 + 1) * 4) (ccols c) - cx c)) t)
      (tab_loop 4 ((cx c div 4 + 1) * 4) (c, f))"
    by (rule tab_loop_simulates[OF rel four])
  show ?thesis
    using newline_simulates[OF rel] move_cursor[OF rel, of 0] backspace_simulates[OF rel] tab
      put_plain_simulates[OF rel, of ch] cur(1)
    unfolding term_char_def put_char_def fst_conv snd_conv nxt by (auto split del: if_split simp: if_split)
qed

lemma write_string_simulates:
  assumes "console_rel (c, f) t"
  shows "simulates (c, f) (term_write (ccols c) (crows c) (cfg c) (cbg c) s t) (write_string s (c, f))"
  unfolding term_write_def write_string_def using assms
proof (induction s arbitrary: c f t)
  case Nil
  then show ?case by (simp add: simulates_refl)
next
  case (Cons ch s)
  have "simulates (c', f') (fold (term_char (ccols c) (crows c) (cfg c) (cbg c)) s (term_char (ccols c) (crows c) (cfg c) (cbg c) ch t))
      (rfold put_char s (c', f'))"
    if "console_rel (c', f') (term_char (ccols c) (crows c) (cfg c) (cbg c) ch t)" "same_console c c'" for c' f'
    using Cons.IH[OF that(1)] that(2) by (simp add: same_console_def)
  then show ?case by (simp add: simulates_bind[OF put_char_simulates[OF Cons.prems]])
qed

end
