(* ===== verification/Screen_Theorems.thy ===== *)
theory Screen_Theorems
  imports Console Sample_Machine
begin

text \<open>
  What the framebuffer driver and the text console promise together: drawings reach the screen
  as drawn, the optimised glyph routine agrees with the general one, and the console shows the
  grid of characters its input describes.
\<close>

section \<open>Drawings as commands\<close>

datatype draw =
    PutPixel nat nat u32
  | FillRect nat nat nat nat u32
  | Clear u32
  | BlitChar nat nat nat u32 u32
  | ScrollUp nat nat u32

primrec run_draw :: "draw \<Rightarrow> fb \<Rightarrow> fb result" where
  "run_draw (PutPixel x y c) f = put_pixel x y c f"
| "run_draw (FillRect x y w h c) f = fill_rect x y w h c f"
| "run_draw (Clear c) f = fb_clear c f"
| "run_draw (BlitChar x y ch fg bg) f = blit_char x y ch fg bg f"
| "run_draw (ScrollUp max_y k c) f = scroll_up_bounded max_y k c f"

text \<open>The picture a command makes of a picture, on a screen of height \<open>h\<close> with text scale \<open>s\<close>.\<close>

primrec paint :: "nat \<Rightarrow> nat \<Rightarrow> draw \<Rightarrow> (nat \<Rightarrow> nat \<Rightarrow> u32) \<Rightarrow> nat \<Rightarrow> nat \<Rightarrow> u32" where
  "paint h s (PutPixel x y c) p = (\<lambda>u v. if u = x \<and> v = y then c else p u v)"
| "paint h s (FillRect x y w k c) p = (\<lambda>u v. if x \<le> u \<and> u < x + w \<and> y \<le> v \<and> v < y + k then c else p u v)"
| "paint h s (Clear c) p = (\<lambda>u v. c)"
| "paint h s (BlitChar x y ch fg bg) p = (\<lambda>u v.
     if x \<le> u \<and> u < x + 8 * s \<and> y \<le> v \<and> v < y + 16 * s
     then (if glyph_on (glyph ch ! ((v - y) div s)) ((u - x) div s) then fg else bg) else p u v)"
| "paint h s (ScrollUp max_y k c) p = (\<lambda>u v.
     if k = 0 \<or> max_y \<le> k then p u v
     else if v + k < min max_y h then p u (v + k) else if v < min max_y h then c else p u v)"

primrec draw_fits :: "nat \<Rightarrow> draw \<Rightarrow> bool" where
  "draw_fits h (PutPixel x y c) = True"
| "draw_fits h (FillRect x y w k c) = True"
| "draw_fits h (Clear c) = True"
| "draw_fits h (BlitChar x y ch fg bg) = True"
| "draw_fits h (ScrollUp max_y k c) = (k \<le> h)"

lemma run_draw_draws:
  assumes "fb_ok f" "synced f" "draw_fits (fheight f) d"
  shows "draws f (paint (fheight f) (text_scale f) d) (run_draw d f)"
proof (cases d)
  case (PutPixel x y c)
  show ?thesis unfolding PutPixel run_draw.simps paint.simps by (rule put_pixel_draws[OF assms(1,2)])
next
  case (FillRect x y w h c)
  show ?thesis unfolding FillRect run_draw.simps paint.simps by (rule fill_rect_draws[OF assms(1,2)])
next
  case (Clear c)
  show ?thesis unfolding Clear run_draw.simps paint.simps fb_clear_def
    by (rule draws_cong[OF fill_rect_draws[OF assms(1,2)]]) (simp add: on_screen_def)
next
  case (BlitChar x y ch fg bg)
  show ?thesis unfolding BlitChar run_draw.simps paint.simps
    by (rule draws_cong[OF blit_char_draws[OF assms(1,2)]]) (simp add: glyph_pixel_def)
next
  case (ScrollUp max_y k c)
  show ?thesis unfolding ScrollUp run_draw.simps paint.simps
    by (rule scroll_up_bounded_draws[OF assms(1,2)]) (use assms(3) ScrollUp in simp)
qed

lemma paint_cong:
  assumes "\<And>u v. u < w \<Longrightarrow> v < h \<Longrightarrow> p u v = q u v" "u < w" "v < h"
  shows "paint h s d p u v = paint h s d q u v"
  using assms by (cases d) auto

lemma run_draws:
  assumes "fb_ok f" "synced f" "\<forall>d \<in> set ds. draw_fits (fheight f) d"
  shows "\<exists>f'. rfold run_draw ds f = Ok f' \<and> fb_ok f' \<and> synced f' \<and> same_geometry f f' \<and> (idle f \<longrightarrow> idle f') \<and>
    (\<forall>u v. on_screen f u v \<longrightarrow>
       pixel f (back_buf f') u v = fold (paint (fheight f) (text_scale f)) ds (pixel f (back_buf f)) u v)"
  using assms
proof (induction ds arbitrary: f)
  case Nil
  then show ?case by (simp add: same_geometry_def)
next
  case (Cons d ds)
  let ?P = "paint (fheight f) (text_scale f)"
  obtain f1 where f1: "run_draw d f = Ok f1" "fb_ok f1" "synced f1" "same_geometry f f1" "idle f \<longrightarrow> idle f1"
    and px: "\<And>u v. on_screen f u v \<Longrightarrow> pixel f (back_buf f1) u v = ?P d (pixel f (back_buf f)) u v"
    using run_draw_draws[of f d] Cons.prems by (auto simp: draws_def same_geometry_def idle_def)
  have h: "fheight f1 = fheight f" "text_scale f1 = text_scale f" using f1(4) by (auto simp: same_geometry_def)
  note v = geometry_views[OF f1(4)]
  obtain f2 where f2: "rfold run_draw ds f1 = Ok f2" "fb_ok f2" "synced f2" "same_geometry f1 f2" "idle f1 \<longrightarrow> idle f2"
    "\<And>u w. on_screen f u w \<Longrightarrow> pixel f (back_buf f2) u w = fold ?P ds (pixel f (back_buf f1)) u w"
    using Cons.IH[of f1] f1 Cons.prems(3) h v by auto
  have "fold ?P ds p u w = fold ?P ds q u w"
    if "\<And>u v. on_screen f u v \<Longrightarrow> p u v = q u v" "on_screen f u w" for p q u w
    using that
  proof (induction ds arbitrary: p q)
    case (Cons d ds)
    show ?case unfolding fold_simps comp_apply
      by (rule Cons.IH[OF _ Cons.prems(2)])
         (use Cons.prems(1) paint_cong[of "fwidth f" "fheight f" p q] in \<open>simp add: on_screen_def\<close>)
  qed simp
  from this[of "pixel f (back_buf f1)" "?P d (pixel f (back_buf f))", OF px]
  show ?case using f1 f2 by (auto simp: same_geometry_def)
qed

section \<open>A small screen\<close>

text \<open>Sixteen by sixty-four pixels: a console of two columns and two rows over a status bar.\<close>

definition sample_fb :: fb where
  "sample_fb = blank_fb (replicate 1024 BG) 16 64 16 1024 Mmio"

definition sample_console :: console where
  "sample_console = \<lparr> ccols = 2, crows = 2, cglyph_w = 8, cglyph_h = 16, cx = 0, cy = 0, cfg = WHITE, cbg = BG \<rparr>"

definition empty_terminal :: terminal where
  "empty_terminal = \<lparr> grid = (\<lambda>_ _. (32, WHITE, BG)), tx = 0, ty = 0 \<rparr>"

lemma sample_fb_ok: "fb_ok sample_fb" "synced sample_fb" "idle sample_fb"
  by (simp_all add: fb_ok_def sample_fb_def blank_fb_def buf_len_def choose_scale_def rect_ok_def
      clean_rect_def synced_def idle_def)

lemma sample_fb_dims: "fwidth sample_fb = 16" "fheight sample_fb = 64" "text_scale sample_fb = 1"
  "pitch_u32 sample_fb = 16"
  by (simp_all add: sample_fb_def blank_fb_def choose_scale_def)

lemma sample_console_new: "console_new sample_fb = Ok sample_console"
  by (simp add: console_new_def glyph_width_def glyph_height_def cmul_def sample_fb_dims sample_console_def)

lemma sample_rel: "console_rel (sample_console, sample_fb) empty_terminal"
proof -
  have "rendered sample_fb 2 2 (grid empty_terminal) (back_buf sample_fb)"
    unfolding rendered_def sample_fb_dims
  proof (intro allI impI)
    fix i j dx dy :: nat assume i: "i < 2" "j < 2" "dx < 8 * 1" "dy < 16 * 1"
    have "(j * (16 * 1) + dy) * 16 + (i * (8 * 1) + dx) < 1024" using i by simp
    then have "pixel sample_fb (back_buf sample_fb) (i * (8 * 1) + dx) (j * (16 * 1) + dy) = BG"
      by (simp add: pixel_def sample_fb_dims) (simp add: sample_fb_def blank_fb_def)
    then show "pixel sample_fb (back_buf sample_fb) (i * (8 * 1) + dx) (j * (16 * 1) + dy) =
        cell_pixel 1 (grid empty_terminal i j) dx dy"
      using blank_cell[of 1 dy WHITE BG dx] i(4) by (simp add: empty_terminal_def)
  qed
  then show ?thesis
    using sample_fb_ok by (simp add: console_rel_def console_fits_def sample_fb_dims) (simp add: sample_console_def empty_terminal_def)
qed

section \<open>Properties\<close>



text \<open>C10: The console shows its text.  Writing any string (line feeds, carriage returns, backspaces and
  tabulations included) never panics; afterwards every cell of the console area of the screen shows
  the glyph of the abstract terminal's character in its colours, the cursor is the terminal's, and no
  pixel of the status bar has changed.\<close>

theorem console_shows_text:
  assumes "console_rel (c, f) t" "idle f"
  shows "\<exists>c' f'. console_write_str s (c, f, g) = Ok (c', f', g) \<and>
    (let t' = term_write (ccols c) (crows c) (cfg c) (cbg c) s t in
     cx c' = tx t' \<and> cy c' = ty t' \<and> console_rel (c', f') t' \<and> idle f' \<and>
     rendered f (ccols c) (crows c) (grid t') (front f')) \<and>
    (\<forall>u v. on_screen f u v \<and> crows c * cglyph_h c \<le> v \<longrightarrow>
       pixel f (front f') u v = pixel f (back_buf f) u v)"
proof -
  let ?t = "term_write (ccols c) (crows c) (cfg c) (cbg c) s t"
  obtain c1 f1 where 1: "write_string s (c, f) = Ok (c1, f1)" "console_rel (c1, f1) ?t" "same_console c c1"
    "same_geometry f f1" "idle f1"
    and low: "\<forall>u v. on_screen f u v \<and> crows c * (16 * text_scale f) \<le> v \<longrightarrow>
        pixel f (back_buf f1) u v = pixel f (back_buf f) u v"
    using write_string_simulates[OF assms(1), of s] assms(2) by (auto simp: simulates_def idle_def)
  have ok: "fb_ok f1" "synced f1" "console_fits c1 f1"
    and ren: "rendered f1 (ccols c1) (crows c1) (grid ?t) (back_buf f1)" using 1(2) by (auto simp: console_rel_def)
  obtain f2 where 2: "show_frame (f1, g) = Ok (f2, g)" "fb_ok f2" "synced f2" "same_geometry f1 f2" "idle f2"
    and px: "\<And>u v. on_screen f1 u v \<Longrightarrow> pixel f1 (back_buf f2) u v = pixel f1 (back_buf f1) u v"
      "\<And>u v. on_screen f1 u v \<Longrightarrow> pixel f1 (front f2) u v = pixel f1 (back_buf f1) u v"
    by (rule show_frame_shows[OF ok(1,2) 1(5,5)]) blast
  have shown: "rendered f1 (ccols c1) (crows c1) (grid ?t) (front f2)" "rendered f1 (ccols c1) (crows c1) (grid ?t) (back_buf f2)"
    using ren px cell_on_screen[OF ok(3)] by (simp_all add: rendered_def)
  have "console_write_str s (c, f, g) = Ok (c1, f2, g)" using 1(1) 2(1) by (simp add: console_write_str_def)
  moreover have "console_rel (c1, f2) ?t"
    using 1(2) 2 shown(2) by (simp add: console_rel_def rendered_geometry[OF 2(4)] console_fits_geometry[OF 2(4)])
  moreover have "cglyph_h c = 16 * text_scale f" using assms(1) by (simp add: console_rel_def console_fits_def)
  ultimately show ?thesis
    using 1 2 px(2) shown(1) low geometry_views[OF 1(4)] rendered_geometry[OF 1(4)]
    by (auto simp: Let_def same_console_def console_rel_def)
qed

theorem console_shows_text_witness:
  "console_rel (sample_console, sample_fb) empty_terminal \<and> idle sample_fb \<and>
   (\<exists>c' f'. console_write_str [72, 105, 33, 10, 65] (sample_console, sample_fb, None) = Ok (c', f', None) \<and>
     cx c' = 1 \<and> cy c' = 1 \<and>
     rendered sample_fb 2 2 (grid (term_write 2 2 WHITE BG [72, 105, 33, 10, 65] empty_terminal)) (front f'))"
proof -
  have t: "tx (term_write 2 2 WHITE BG [72, 105, 33, 10, 65] empty_terminal) = 1"
    "ty (term_write 2 2 WHITE BG [72, 105, 33, 10, 65] empty_terminal) = 1"
    by (simp_all add: term_write_def term_char_def term_plain_def term_newline_def term_set_def empty_terminal_def)
  have c: "ccols sample_console = 2" "crows sample_console = 2" "cfg sample_console = WHITE" "cbg sample_console = BG"
    by (simp_all add: sample_console_def)
  show ?thesis
    using console_shows_text[OF sample_rel sample_fb_ok(3), of "[72, 105, 33, 10, 65]" None] sample_rel sample_fb_ok(3) t
    unfolding c Let_def by auto
qed

text \<open>C11: The two glyph routines agree.  On a screen of scale one the unrolled fast path of
  \<open>blit_char\<close> and the general path both succeed and leave the same pixel everywhere on the screen.\<close>

theorem blit_fast_equals_slow:
  assumes "fb_ok f" "text_scale f = 1" "x < fwidth f" "y < fheight f"
  shows "\<exists>b b'. blit_fast x y gl fg bg f = Ok b \<and> blit_slow x y gl fg bg f = Ok b' \<and>
    (\<forall>u v. on_screen f u v \<longrightarrow> pixel f b u v = pixel f b' u v)"
proof -
  obtain b where b: "blit_fast x y gl fg bg f = Ok b"
    "\<And>u v. on_screen f u v \<Longrightarrow> pixel f b u v =
       (if x \<le> u \<and> u < x + 8 \<and> y \<le> v \<and> v < y + 16 then glyph_pixel gl 1 x y fg bg u v
        else pixel f (back_buf f) u v)"
    by (rule blit_fast_pixels[OF assms]) blast
  obtain b' where "blit_slow x y gl fg bg f = Ok b'"
    "\<And>u v. on_screen f u v \<Longrightarrow> pixel f b' u v =
       (if x \<le> u \<and> u < x + 8 * text_scale f \<and> y \<le> v \<and> v < y + 16 * text_scale f
        then glyph_pixel gl (text_scale f) x y fg bg u v else pixel f (back_buf f) u v)"
    by (rule blit_slow_pixels[OF assms(1)]) blast
  then show ?thesis using b assms(2) by simp
qed

theorem blit_fast_equals_slow_witness:
  "\<exists>b b'. blit_fast 3 60 (glyph 65) WHITE BG sample_fb = Ok b \<and> blit_slow 3 60 (glyph 65) WHITE BG sample_fb = Ok b' \<and>
    pixel sample_fb b 7 63 = pixel sample_fb b' 7 63"
  using blit_fast_equals_slow[of sample_fb 3 60 "glyph 65" WHITE BG] sample_fb_ok
  by (auto simp: sample_fb_dims on_screen_def)


definition sample_info :: framebuffer_info where
  "sample_info = \<lparr> fb_addr = 0x80000000, fb_pitch = 64, fb_width = 16, fb_height = 64, fb_bpp = 32, fb_type = 1 \<rparr>"


text \<open>C13: A screen with room for two rows of text or fewer.  The console made for it has no row, and its
  first line feed panics: the subtraction \<open>rows - 1\<close> underflows.\<close>

theorem short_screen_newline_panics:
  assumes "fb_ok f" "console_new f = Ok c" "fheight f div (16 * text_scale f) \<le> 2"
  shows "put_char 10 (c, f) = Panic"
  using assms
  by (auto simp: console_new_def glyph_width_def glyph_height_def cmul_def put_char_def newline_def cadd_def
      csub_def scroll_up_bounded_def split: if_splits)

theorem short_screen_newline_panics_witness:
  "\<exists>f c. fb_ok f \<and> console_new f = Ok c \<and> put_char 10 (c, f) = Panic"
proof -
  let ?f = "blank_fb (replicate 640 BG) 16 40 16 640 Mmio"
  have ok: "fb_ok ?f"
    by (simp add: fb_ok_def blank_fb_def buf_len_def choose_scale_def rect_ok_def clean_rect_def)
  have "\<exists>c. console_new ?f = Ok c" "fheight ?f div (16 * text_scale ?f) \<le> 2"
    by (simp_all add: console_new_def glyph_width_def glyph_height_def cmul_def blank_fb_def choose_scale_def)
  then show ?thesis using short_screen_newline_panics[OF ok] ok by blast
qed

end
