(* ===== verification/Ramfs.thy ===== *)
theory Ramfs
  imports Prelude BTree_Map "HOL-Library.List_Lexorder"
begin

text \<open>
  The in-memory file system, \<open>kernel/src/fs/ramfs.rs\<close>, and the loader of boot archives,
  \<open>try_load_archive\<close> of \<open>kernel/src/fs/mod.rs\<close>.

  A path is the bytes of its UTF-8 string, and the files are an ordered map.  The file
  system is an instance of the keyed store contract.  The archive loader is proved to be
  panic free on every input and to load exactly the entries of a well-formed archive.
\<close>

section \<open>Files\<close>

datatype fs_error = NotFound | AlreadyExists

record ramfs =
  files :: "(bytes, bytes) btree_map"

definition ramfs_new :: ramfs where
  "ramfs_new = \<lparr> files = [] \<rparr>"

definition ramfs_create :: "bytes \<Rightarrow> bytes \<Rightarrow> ramfs \<Rightarrow> ramfs" where
  "ramfs_create path data fs = fs \<lparr> files := bt_insert path data (files fs) \<rparr>"

definition ramfs_write :: "bytes \<Rightarrow> bytes \<Rightarrow> ramfs \<Rightarrow> ramfs" where
  "ramfs_write path data fs = fs \<lparr> files := bt_insert path data (files fs) \<rparr>"

definition ramfs_read :: "ramfs \<Rightarrow> bytes \<Rightarrow> fs_error + bytes" where
  "ramfs_read fs path = (case bt_get (files fs) path of None \<Rightarrow> Inl NotFound | Some d \<Rightarrow> Inr d)"

definition ramfs_remove :: "bytes \<Rightarrow> ramfs \<Rightarrow> (fs_error + unit) \<times> ramfs" where
  "ramfs_remove path fs =
    ((case bt_get (files fs) path of None \<Rightarrow> Inl NotFound | Some _ \<Rightarrow> Inr ()),
     fs \<lparr> files := bt_remove path (files fs) \<rparr>)"

definition ramfs_list :: "ramfs \<Rightarrow> bytes list" where
  "ramfs_list fs = map fst (files fs)"

definition ramfs_count :: "ramfs \<Rightarrow> nat" where
  "ramfs_count fs = length (files fs)"

definition ramfs_size :: "ramfs \<Rightarrow> bytes \<Rightarrow> nat option" where
  "ramfs_size fs path = map_option length (bt_get (files fs) path)"

definition ramfs_ok :: "ramfs \<Rightarrow> bool" where
  "ramfs_ok fs \<longleftrightarrow> bt_ok (files fs)"

interpretation fs: keyed_store "\<lambda>fs. bt_get (files fs)" ramfs_create "\<lambda>p fs. snd (ramfs_remove p fs)"
  ramfs_list ramfs_ok
proof (unfold_locales, goal_cases)
  case (3 s)
  then show ?case using btree.keys_lookup[of "files s"] by (simp add: ramfs_list_def)
qed (simp_all add: ramfs_create_def ramfs_remove_def ramfs_ok_def ramfs_list_def bt_ok_distinct)

section \<open>Boot archives\<close>

definition archive_path :: "bytes \<Rightarrow> bytes" where
  "archive_path name = (case name of c # _ \<Rightarrow> if c = 0x2F then name else 0x2F # name | [] \<Rightarrow> [0x2F])"

fun load_entries :: "nat \<Rightarrow> bytes \<Rightarrow> nat \<Rightarrow> ramfs \<Rightarrow> (bool \<times> ramfs) result" where
  "load_entries 0 data off fs = Ok (True, fs)"
| "load_entries (Suc n) data off fs =
    rbind (cadd 64 off 2) (\<lambda>e1.
    if length data < e1 then Ok (False, fs)
    else rbind (ridx data off) (\<lambda>b0. rbind (ridx data (off + 1)) (\<lambda>b1.
      let name_len = le_nat [b0, b1]; off1 = off + 2 in
      rbind (cadd 64 off1 name_len) (\<lambda>e2.
      if length data < e2 then Ok (False, fs)
      else rbind (rslice data off1 (off1 + name_len)) (\<lambda>name.
        if \<not> utf8_valid name then Ok (False, fs)
        else let off2 = off1 + name_len in
          rbind (cadd 64 off2 4) (\<lambda>e3.
          if length data < e3 then Ok (False, fs)
          else rbind (rslice data off2 (off2 + 4)) (\<lambda>lb.
            let data_len = le_nat lb; off3 = off2 + 4 in
            rbind (cadd 64 off3 data_len) (\<lambda>e4.
            if length data < e4 then Ok (False, fs)
            else rbind (rslice data off3 (off3 + data_len)) (\<lambda>contents.
              load_entries n data (off3 + data_len)
                (ramfs_create (archive_path name) contents fs)))))))))) "

definition try_load_archive :: "bytes \<Rightarrow> ramfs \<Rightarrow> (bool \<times> ramfs) result" where
  "try_load_archive data fs =
    (if length data < 4 then Ok (False, fs)
     else rbind (rslice data 0 4) (\<lambda>hb.
       let n = le_nat hb in
       if 1024 < n then Ok (False, fs) else load_entries n data 4 fs))"

section \<open>Archives on disk\<close>

text \<open>The format the loader documents, written as an encoder.\<close>

definition encode_entry :: "bytes \<times> bytes \<Rightarrow> bytes" where
  "encode_entry e = le_bytes 2 (length (fst e)) @ fst e @ le_bytes 4 (length (snd e)) @ snd e"

definition encode_archive :: "(bytes \<times> bytes) list \<Rightarrow> bytes" where
  "encode_archive es = le_bytes 4 (length es) @ concat (map encode_entry es)"

definition entry_ok :: "bytes \<times> bytes \<Rightarrow> bool" where
  "entry_ok e \<longleftrightarrow> utf8_valid (fst e) \<and> length (fst e) < 2 ^ 16 \<and> length (snd e) < 2 ^ 32"

definition load_entry :: "bytes \<times> bytes \<Rightarrow> ramfs \<Rightarrow> ramfs" where
  "load_entry e = ramfs_create (archive_path (fst e)) (snd e)"

lemma rslice_append [byte_simps]:
  "rslice (pre @ xs @ post) (length pre) (length pre + length xs) = Ok xs"
  by (simp add: rslice_def)

lemma two_bytes: "length xs = 2 \<Longrightarrow> xs = [xs ! 0, xs ! 1]"
  by (auto simp: length_Suc_conv numeral_2_eq_2)

lemma load_entries_step:
  assumes len: "length data < 2 ^ 63" "off + 2 + nl + 4 + dl \<le> length data"
    and nm: "le_nat [data ! off, data ! (off + 1)] = nl" "rslice data (off + 2) (off + 2 + nl) = Ok nm"
      "utf8_valid nm"
    and d: "rslice data (off + 2 + nl) (off + 2 + nl + 4) = Ok lb" "le_nat lb = dl"
      "rslice data (off + 2 + nl + 4) (off + 2 + nl + 4 + dl) = Ok d"
  shows "load_entries (Suc n) data off fs =
    load_entries n data (off + 2 + nl + 4 + dl) (load_entry (nm, d) fs)"
proof -
  have b: "off + 2 \<le> length data" "off + 2 + nl \<le> length data" "off + 2 + nl + 4 \<le> length data"
      "off < length data" "off + 1 < length data"
    using len by auto
  have c: "cadd 64 off 2 = Ok (off + 2)" "cadd 64 (off + 2) nl = Ok (off + 2 + nl)"
      "cadd 64 (off + 2 + nl) 4 = Ok (off + 2 + nl + 4)"
      "cadd 64 (off + 2 + nl + 4) dl = Ok (off + 2 + nl + 4 + dl)"
    using len by (simp_all add: cadd_def)
  show ?thesis
    unfolding load_entries.simps
    using b len nm d c by (simp add: ridx_def Let_def load_entry_def del: le_nat.simps)
qed

lemma load_entries_encode:
  assumes "\<forall>e \<in> set es. entry_ok e" "length (pre @ concat (map encode_entry es) @ post) < 2 ^ 63"
  shows "load_entries (length es) (pre @ concat (map encode_entry es) @ post) (length pre) fs =
    Ok (True, fold load_entry es fs)"
  using assms
proof (induction es arbitrary: pre fs)
  case (Cons e es)
  obtain nm d where e: "e = (nm, d)" by (cases e)
  let ?rest = "concat (map encode_entry es) @ post"
  define data where "data = pre @ concat (map encode_entry (e # es)) @ post"
  let ?p1 = "pre @ le_bytes 2 (length nm)"
  let ?p2 = "?p1 @ nm"
  let ?p3 = "?p2 @ le_bytes 4 (length d)"
  have data: "data = ?p3 @ d @ ?rest" by (simp add: data_def e encode_entry_def)
  have ok: "utf8_valid nm" "length nm < 65536" "length d < 4294967296"
    using Cons.prems(1) by (auto simp: e entry_ok_def)
  have len: "length data < 2 ^ 63" using Cons.prems(2) by (simp add: data_def)
  have fits: "length pre + 2 + length nm + 4 + length d \<le> length data" unfolding data by simp
  have hdr: "data ! length pre = le_bytes 2 (length nm) ! 0" "data ! (length pre + 1) = le_bytes 2 (length nm) ! 1"
    unfolding data by (simp_all add: nth_append)
  have two: "[le_bytes 2 (length nm) ! 0, le_bytes 2 (length nm) ! 1] = le_bytes 2 (length nm)"
    by (rule two_bytes[symmetric]) simp
  have n2: "le_nat [data ! length pre, data ! (length pre + 1)] = length nm"
    unfolding hdr two using ok by (simp add: le_nat_le_bytes)
  have n4: "le_nat (le_bytes 4 (length d)) = length d" using ok by (simp add: le_nat_le_bytes)
  have s1: "rslice data (length pre + 2) (length pre + 2 + length nm) = Ok nm"
    unfolding data using rslice_append[of ?p1 nm "le_bytes 4 (length d) @ d @ ?rest"] by simp
  have s2: "rslice data (length pre + 2 + length nm) (length pre + 2 + length nm + 4) = Ok (le_bytes 4 (length d))"
    unfolding data using rslice_append[of ?p2 "le_bytes 4 (length d)" "d @ ?rest"] by (simp add: add.assoc)
  have s3: "rslice data (length pre + 2 + length nm + 4) (length pre + 2 + length nm + 4 + length d) = Ok d"
    unfolding data using rslice_append[of ?p3 d ?rest] by (simp add: ac_simps)
  have "load_entries (length (e # es)) data (length pre) fs =
      load_entries (length es) data (length pre + 2 + length nm + 4 + length d) (load_entry (nm, d) fs)"
    unfolding length_Cons by (rule load_entries_step[OF len fits n2 s1 ok(1) s2 n4 s3])
  also have "length pre + 2 + length nm + 4 + length d = length (?p3 @ d)" by simp
  also have "load_entries (length es) data (length (?p3 @ d)) (load_entry (nm, d) fs) =
      Ok (True, fold load_entry es (load_entry (nm, d) fs))"
    using Cons.IH[of "?p3 @ d" "load_entry (nm, d) fs"] Cons.prems(1) len unfolding data by simp
  finally show ?case by (simp add: data_def e)
qed simp

lemma try_load_archive_encode:
  assumes "\<forall>e \<in> set es. entry_ok e" "length es \<le> 1024" "length (encode_archive es) < 2 ^ 63"
  shows "try_load_archive (encode_archive es) fs = Ok (True, fold load_entry es fs)"
proof -
  have n: "le_nat (le_bytes 4 (length es)) = length es" using assms(2) by (simp add: le_nat_le_bytes)
  have h: "rslice (encode_archive es) 0 4 = Ok (le_bytes 4 (length es))"
    using rslice_append[of "[]" "le_bytes 4 (length es)" "concat (map encode_entry es)"]
    by (simp add: encode_archive_def)
  have "load_entries (length es) (encode_archive es) 4 fs = Ok (True, fold load_entry es fs)"
    using load_entries_encode[OF assms(1), of "le_bytes 4 (length es)" "[]" fs] assms(3)
    by (simp add: encode_archive_def)
  then show ?thesis using h n assms(2) by (simp add: try_load_archive_def encode_archive_def)
qed

section \<open>Every input\<close>

lemma load_entries_total:
  assumes "length data < 2 ^ 63" "off \<le> length data"
  shows "\<exists>r. load_entries n data off fs = Ok r"
  using assms(2)
proof (induction n arbitrary: off fs)
  case (Suc n)
  have c: "cadd 64 a b = Ok (a + b)" if "a \<le> length data" "b < 2 ^ 63" for a b
    using that assms(1) by (simp add: cadd_def)
  have l2: "le_nat [x, y] < 2 ^ 63" for x y using le_nat_less[of "[x, y]"] by simp
  have l4: "le_nat b < 2 ^ 63" if "length b = 4" for b using le_nat_less[of b] that by simp
  show ?case using Suc assms(1) l2 l4
    by (auto simp: c ridx_def rslice_def Let_def simp del: le_nat.simps)
qed auto

end
