(* ===== verification/Disk.thy ===== *)
theory Disk
  imports Prelude
begin

text \<open>
  The disks as the file systems see them (\<open>drivers/ata.rs\<close>, entry points \<open>read\<close> and
  \<open>write\<close>) and the partition table (\<open>drivers/part.rs\<close>).

  A drive is its bytes, addressed from its first sector, with the set of sectors on which
  it reports an error.  A transfer goes sector by sector: a write that meets a bad sector
  has already changed the sectors before it.
\<close>

abbreviation SECTOR_SIZE :: nat where "SECTOR_SIZE \<equiv> 512"

record disk =
  platter :: mem
  bad :: "nat \<Rightarrow> bool"

type_synonym disks = "disk list option"

definition disk_at :: "disks \<Rightarrow> nat \<Rightarrow> disk result" where
  "disk_at ds idx = rbind (ok_or ''ata non initialise'' ds) (\<lambda>l.
     ok_or ''disque introuvable'' (if idx < length l then Some (l ! idx) else None))"

definition transfer_ok :: "nat \<Rightarrow> nat \<Rightarrow> nat \<Rightarrow> unit result" where
  "transfer_ok lba count len =
    (if len < count * SECTOR_SIZE then Err ''buf trop petit''
     else if 2 ^ 28 \<le> lba then Err ''LBA28 overflow'' else Ok ())"

definition ata_read :: "disks \<Rightarrow> nat \<Rightarrow> nat \<Rightarrow> nat \<Rightarrow> bytes \<Rightarrow> bytes result" where
  "ata_read ds idx lba count buf = rbind (disk_at ds idx) (\<lambda>d.
     if count = 0 then Ok buf else
     rbind (transfer_ok lba count (length buf)) (\<lambda>_.
     if list_ex (\<lambda>s. bad d (lba + s)) [0..<count] then Err ''ATA: ERR/DF''
     else Ok (read_bytes (platter d) (lba * SECTOR_SIZE) (count * SECTOR_SIZE) @ drop (count * SECTOR_SIZE) buf)))"

definition put_sector :: "nat \<Rightarrow> nat \<Rightarrow> bytes \<Rightarrow> (disks, unit) op" where
  "put_sector idx lba data = sbind (sget (\<lambda>ds. disk_at ds idx)) (\<lambda>r. sbind (slift r) (\<lambda>d.
     if bad d lba then serr ''ATA: ERR/DF''
     else supd (map_option (\<lambda>l. l[idx := d \<lparr> platter := write_bytes (platter d) (lba * SECTOR_SIZE) data \<rparr>]))))"

definition ata_write :: "nat \<Rightarrow> nat \<Rightarrow> nat \<Rightarrow> bytes \<Rightarrow> (disks, unit) op" where
  "ata_write idx lba count buf = sbind (sget (\<lambda>ds. disk_at ds idx)) (\<lambda>r. sbind (slift r) (\<lambda>_.
     if count = 0 then sret () else
     sbind (slift (transfer_ok lba count (length buf))) (\<lambda>_.
     sfor (\<lambda>s. put_sector idx (lba + s) (take SECTOR_SIZE (drop (s * SECTOR_SIZE) buf))) [0..<count])))"

section \<open>What a transfer does\<close>

definition healthy :: "disks \<Rightarrow> nat \<Rightarrow> disk \<Rightarrow> bool" where
  "healthy ds idx d \<longleftrightarrow> disk_at ds idx = Ok d \<and> (\<forall>l. \<not> bad d l)"

text \<open>The disks with the bytes of one drive replaced.\<close>

definition with_platter :: "disks \<Rightarrow> nat \<Rightarrow> mem \<Rightarrow> disks" where
  "with_platter ds idx m = map_option (\<lambda>l. l[idx := (l ! idx) \<lparr> platter := m \<rparr>]) ds"

lemma disk_at_Ok: "disk_at ds idx = Ok d \<longleftrightarrow> (\<exists>l. ds = Some l \<and> idx < length l \<and> l ! idx = d)"
  by (cases ds) (auto simp: disk_at_def)

lemma healthy_with_platter [simp]:
  "healthy ds idx d \<Longrightarrow> healthy (with_platter ds idx m) idx (d \<lparr> platter := m \<rparr>)"
  by (auto simp: healthy_def disk_at_Ok with_platter_def)

lemma with_platter_twice [simp]:
  "with_platter (with_platter ds idx m) idx m' = with_platter ds idx m'"
  by (cases ds; cases "idx < length (the ds)") (auto simp: with_platter_def not_less list_update_beyond)

lemma with_platter_same: "healthy ds idx d \<Longrightarrow> with_platter ds idx (platter d) = ds"
  by (auto simp: healthy_def disk_at_Ok with_platter_def)

lemma ata_read_healthy:
  assumes "healthy ds idx d" "0 < count" "count * 512 \<le> length buf" "lba < 2 ^ 28"
  shows "ata_read ds idx lba count buf =
    Ok (read_bytes (platter d) (lba * 512) (count * 512) @ drop (count * 512) buf)"
  using assms by (auto simp: ata_read_def healthy_def transfer_ok_def list_ex_iff)

lemma put_sector_healthy:
  assumes "healthy ds idx d"
  shows "put_sector idx lba data ds =
    (Ok (), with_platter ds idx (write_bytes (platter d) (lba * 512) data))"
  using assms by (auto simp: put_sector_def healthy_def disk_at_Ok with_platter_def op_simps)

lemma write_bytes_append:
  "write_bytes (write_bytes m a xs) (a + length xs) ys = write_bytes m a (xs @ ys)"
  by (rule ext) (auto simp: write_bytes_def nth_append)

lemma put_sectors_healthy:
  assumes "healthy ds idx d" "count * 512 \<le> length buf"
  shows "sfor (\<lambda>s. put_sector idx (lba + s) (take 512 (drop (s * 512) buf))) [0..<count] ds =
    (Ok (), with_platter ds idx (write_bytes (platter d) (lba * 512) (take (count * 512) buf)))"
  using assms(2)
proof (induction count)
  case 0
  have "write_bytes (platter d) (lba * 512) [] = platter d" by (rule ext) (auto simp: write_bytes_def)
  then show ?case using assms(1) by (simp add: sret_def with_platter_same)
next
  case (Suc n)
  let ?m = "write_bytes (platter d) (lba * 512) (take (n * 512) buf)"
  have IH: "sfor (\<lambda>s. put_sector idx (lba + s) (take 512 (drop (s * 512) buf))) [0..<n] ds =
    (Ok (), with_platter ds idx ?m)" using Suc by simp
  have len: "length (take (n * 512) buf) = n * 512" using Suc.prems by simp
  have "put_sector idx (lba + n) (take 512 (drop (n * 512) buf)) (with_platter ds idx ?m) =
    (Ok (), with_platter ds idx (write_bytes ?m ((lba + n) * 512) (take 512 (drop (n * 512) buf))))"
    using put_sector_healthy[OF healthy_with_platter[OF assms(1), of ?m]] by simp
  moreover have "write_bytes ?m ((lba + n) * 512) (take 512 (drop (n * 512) buf)) =
    write_bytes (platter d) (lba * 512) (take (n * 512) buf @ take 512 (drop (n * 512) buf))"
    using write_bytes_append[of "platter d" "lba * 512" "take (n * 512) buf"] len
    by (simp add: algebra_simps)
  moreover have "take (n * 512) buf @ take 512 (drop (n * 512) buf) = take (Suc n * 512) buf"
    by (simp add: take_add[symmetric] add.commute)
  ultimately show ?case using IH by (simp add: sfor_append sbind_Ok sret_def)
qed

lemma ata_write_healthy:
  assumes "healthy ds idx d" "0 < count" "count * 512 \<le> length buf" "lba < 2 ^ 28"
  shows "ata_write idx lba count buf ds =
    (Ok (), with_platter ds idx (write_bytes (platter d) (lba * 512) (take (count * 512) buf)))"
  using assms put_sectors_healthy[OF assms(1,3), of lba]
  by (auto simp: ata_write_def op_simps healthy_def transfer_ok_def)

section \<open>Partition table\<close>

datatype partition_type = PtEmpty | Fat12 | Fat16 | PtFat32 | PtFat32Lba | Fat16Lba | Ntfs | Linux
  | LinuxSwap | GptProtective | PtUnknown u8

definition from_mbr_type :: "u8 \<Rightarrow> partition_type" where
  "from_mbr_type t =
    (if t = 0 then PtEmpty else if t = 1 then Fat12 else if t = 4 \<or> t = 6 then Fat16
     else if t = 0x0B then PtFat32 else if t = 0x0C then PtFat32Lba else if t = 0x0E then Fat16Lba
     else if t = 7 then Ntfs else if t = 0x83 then Linux else if t = 0x82 then LinuxSwap
     else if t = 0xEE then GptProtective else PtUnknown t)"

definition is_fat32 :: "partition_type \<Rightarrow> bool" where
  "is_fat32 t \<longleftrightarrow> t = PtFat32 \<or> t = PtFat32Lba"

record partition =
  part_disk :: nat
  part_index :: nat
  part_type :: partition_type
  start_lba :: nat
  part_sectors :: nat
  bootable :: bool

definition u32_at :: "bytes \<Rightarrow> nat \<Rightarrow> nat" where
  "u32_at buf off = le_nat (take 4 (drop off buf))"

definition u16_at :: "bytes \<Rightarrow> nat \<Rightarrow> nat" where
  "u16_at buf off = le_nat (take 2 (drop off buf))"

definition mbr_entry :: "nat \<Rightarrow> bytes \<Rightarrow> nat \<Rightarrow> partition option" where
  "mbr_entry disk_idx buf i =
    (let base = 0x1BE + i * 16;
         pt = from_mbr_type (buf ! (base + 4))
     in if pt = PtEmpty then None
        else Some \<lparr> part_disk = disk_idx, part_index = i, part_type = pt,
                    start_lba = u32_at buf (base + 8), part_sectors = u32_at buf (base + 12),
                    bootable = (buf ! base = 0x80) \<rparr>)"

definition part_init :: "disks \<Rightarrow> nat \<Rightarrow> partition list" where
  "part_init ds disk_idx =
    (case ata_read ds disk_idx 0 1 (replicate 512 0) of
       Ok buf \<Rightarrow>
         if buf ! 510 \<noteq> 0x55 \<or> buf ! 511 \<noteq> 0xAA then []
         else List.map_filter (mbr_entry disk_idx buf) [0..<4]
     | _ \<Rightarrow> [])"

definition find_first_fat32 :: "partition list \<Rightarrow> (nat \<times> nat \<times> nat) option" where
  "find_first_fat32 ps = map_option (\<lambda>p. (part_disk p, start_lba p, part_sectors p))
     (List.find (\<lambda>p. is_fat32 (part_type p)) ps)"

definition find_first_linux :: "partition list \<Rightarrow> (nat \<times> nat \<times> nat) option" where
  "find_first_linux ps = map_option (\<lambda>p. (part_disk p, start_lba p, part_sectors p))
     (List.find (\<lambda>p. part_type p = Linux) ps)"

text \<open>The partition table as the MBR format lays it out, for the round trip.\<close>

definition mbr_type :: "partition_type \<Rightarrow> u8" where
  "mbr_type t = (case t of PtEmpty \<Rightarrow> 0 | Fat12 \<Rightarrow> 1 | Fat16 \<Rightarrow> 6 | PtFat32 \<Rightarrow> 0x0B | PtFat32Lba \<Rightarrow> 0x0C
     | Fat16Lba \<Rightarrow> 0x0E | Ntfs \<Rightarrow> 7 | Linux \<Rightarrow> 0x83 | LinuxSwap \<Rightarrow> 0x82 | GptProtective \<Rightarrow> 0xEE
     | PtUnknown u \<Rightarrow> u)"

definition known_type :: "partition_type \<Rightarrow> bool" where
  "known_type t \<longleftrightarrow> (case t of PtUnknown u \<Rightarrow> from_mbr_type u = PtUnknown u | _ \<Rightarrow> True)"

definition encode_part :: "partition option \<Rightarrow> bytes" where
  "encode_part p = (case p of None \<Rightarrow> replicate 16 0
     | Some q \<Rightarrow> [if bootable q then 0x80 else 0, 0, 0, 0, mbr_type (part_type q), 0, 0, 0]
                 @ le_bytes 4 (start_lba q) @ le_bytes 4 (part_sectors q))"

definition encode_mbr :: "bytes \<Rightarrow> partition option list \<Rightarrow> bytes" where
  "encode_mbr code ps = code @ concat (map encode_part ps) @ [0x55, 0xAA]"

definition part_ok :: "nat \<Rightarrow> nat \<Rightarrow> partition option \<Rightarrow> bool" where
  "part_ok idx i p = (case p of None \<Rightarrow> True | Some q \<Rightarrow>
     part_disk q = idx \<and> part_index q = i \<and> known_type (part_type q) \<and> part_type q \<noteq> PtEmpty \<and>
     start_lba q < 2 ^ 32 \<and> part_sectors q < 2 ^ 32)"

lemma from_mbr_mbr_type: "known_type t \<Longrightarrow> from_mbr_type (mbr_type t) = t"
  by (cases t) (auto simp: known_type_def mbr_type_def from_mbr_type_def)

lemma length_encode_part [simp]: "length (encode_part p) = 16"
  by (auto simp: encode_part_def split: option.split)

lemma mbr_entry_encode:
  assumes "take 16 (drop (446 + i * 16) buf) = encode_part p" "part_ok idx i p"
    "446 + i * 16 + 16 \<le> length buf"
  shows "mbr_entry idx buf i = p"
proof -
  have at: "buf ! (446 + i * 16 + j) = encode_part p ! j" if "j < 16" for j
    using that assms(3) arg_cong[OF assms(1), of "\<lambda>l. l ! j"] by simp
  have sub: "take 4 (drop (446 + i * 16 + j) buf) = take 4 (drop j (encode_part p))" if "j + 4 \<le> 16" for j
  proof -
    have "min 4 (16 - j) = 4" using that by simp
    then show ?thesis using arg_cong[OF assms(1), of "\<lambda>l. take 4 (drop j l)"]
      by (simp add: drop_take add.commute)
  qed
  show ?thesis
  proof (cases p)
    case None
    then show ?thesis using at[of 4]
      by (simp add: mbr_entry_def encode_part_def from_mbr_type_def Let_def)
  next
    case (Some q)
    have *: "part_disk q = idx" "part_index q = i" "known_type (part_type q)" "part_type q \<noteq> PtEmpty"
      "start_lba q < 2 ^ 32" "part_sectors q < 2 ^ 32" using assms(2) Some by (auto simp: part_ok_def)
    have "u32_at buf (446 + i * 16 + 8) = start_lba q" "u32_at buf (446 + i * 16 + 12) = part_sectors q"
      using sub[of 8] sub[of 12] Some * by (simp_all add: u32_at_def encode_part_def le_nat_le_bytes)
    moreover have "buf ! (446 + i * 16 + 4) = mbr_type (part_type q)"
      "buf ! (446 + i * 16) = (if bootable q then 0x80 else 0)"
      using at[of 4] at[of 0] Some by (simp_all add: encode_part_def)
    ultimately show ?thesis using Some *
      by (simp add: mbr_entry_def Let_def from_mbr_mbr_type add.assoc)
  qed
qed

end
