(* ===== verification/Rust_Str.thy ===== *)
theory Rust_Str
  imports Prelude
begin

text \<open>
  The operations of \<open>core::str\<close> the kernel uses, on the bytes of a UTF-8 string:
  trimming and splitting at Unicode white space, splitting at an ASCII character,
  lines, prefixes, and the decimal parser of unsigned integers.
\<close>

section \<open>White space\<close>

text \<open>Length of the white space character at the front of a string, 0 if there is none
  (\<open>char::is_whitespace\<close>).\<close>

definition ws_front :: "bytes \<Rightarrow> nat" where
  "ws_front bs = (case bs of
      [] \<Rightarrow> 0
    | b # r \<Rightarrow>
        if b = 0x20 \<or> (9 \<le> b \<and> b \<le> 13) then 1
        else (case r of
            [] \<Rightarrow> 0
          | c # r' \<Rightarrow>
              if b = 0xC2 \<and> (c = 0x85 \<or> c = 0xA0) then 2
              else (case r' of
                  [] \<Rightarrow> 0
                | d # _ \<Rightarrow>
                    if (b = 0xE1 \<and> c = 0x9A \<and> d = 0x80) \<or>
                       (b = 0xE2 \<and> c = 0x80 \<and> (0x80 \<le> d \<and> d \<le> 0x8A \<or> d = 0xA8 \<or> d = 0xA9 \<or> d = 0xAF)) \<or>
                       (b = 0xE2 \<and> c = 0x81 \<and> d = 0x9F) \<or>
                       (b = 0xE3 \<and> c = 0x80 \<and> d = 0x80)
                    then 3 else 0)))"

definition ws_back :: "bytes \<Rightarrow> nat" where
  "ws_back bs =
    (if bs \<noteq> [] \<and> ws_front (drop (length bs - 1) bs) = 1 then 1
     else if 2 \<le> length bs \<and> ws_front (drop (length bs - 2) bs) = 2 then 2
     else if 3 \<le> length bs \<and> ws_front (drop (length bs - 3) bs) = 3 then 3
     else 0)"

lemma ws_front_le: "ws_front bs \<le> length bs"
  by (auto simp: ws_front_def split: list.splits)

lemma ws_back_le: "ws_back bs \<le> length bs"
  by (auto simp: ws_back_def Suc_le_eq)

function trim_start :: "bytes \<Rightarrow> bytes" where
  "trim_start bs = (if ws_front bs = 0 then bs else trim_start (drop (ws_front bs) bs))"
  by pat_completeness auto
termination
proof (relation "measure length", goal_cases)
  case (2 bs)
  then show ?case using ws_front_le[of bs] by simp
qed simp

function trim_end :: "bytes \<Rightarrow> bytes" where
  "trim_end bs = (if ws_back bs = 0 then bs else trim_end (take (length bs - ws_back bs) bs))"
  by pat_completeness auto
termination
proof (relation "measure length", goal_cases)
  case (2 bs)
  then show ?case using ws_back_le[of bs] by simp
qed simp

declare trim_start.simps [simp del] trim_end.simps [simp del]

definition trim :: "bytes \<Rightarrow> bytes" where
  "trim bs = trim_end (trim_start bs)"

section \<open>Splitting\<close>

fun split_on :: "u8 \<Rightarrow> bytes \<Rightarrow> bytes list" where
  "split_on c [] = [[]]"
| "split_on c (b # bs) =
    (if b = c then [] # split_on c bs
     else (case split_on c bs of [] \<Rightarrow> [[b]] | h # t \<Rightarrow> (b # h) # t))"

function split_ws :: "bytes \<Rightarrow> bytes \<Rightarrow> bytes list" where
  "split_ws acc bs =
    (if bs = [] then (if acc = [] then [] else [acc])
     else if ws_front bs = 0 then split_ws (acc @ [hd bs]) (tl bs)
     else (if acc = [] then [] else [acc]) @ split_ws [] (drop (ws_front bs) bs))"
  by pat_completeness auto
termination
proof (relation "measure (\<lambda>(acc, bs). length bs)", goal_cases)
  case (3 acc bs)
  then show ?case using ws_front_le[of bs] by simp
qed auto

declare split_ws.simps [simp del]

definition split_whitespace :: "bytes \<Rightarrow> bytes list" where
  "split_whitespace bs = split_ws [] bs"

definition strip_cr :: "bytes \<Rightarrow> bytes" where
  "strip_cr l = (if l \<noteq> [] \<and> last l = 13 then butlast l else l)"

text \<open>A carriage return is dropped only together with the line feed it precedes.\<close>

definition lines :: "bytes \<Rightarrow> bytes list" where
  "lines bs = (let ps = split_on 10 bs in map strip_cr (butlast ps) @ (if last ps = [] then [] else [last ps]))"

definition starts_with :: "bytes \<Rightarrow> bytes \<Rightarrow> bool" where
  "starts_with p bs \<longleftrightarrow> take (length p) bs = p"

definition strip_prefix :: "bytes \<Rightarrow> bytes \<Rightarrow> bytes option" where
  "strip_prefix p bs = (if starts_with p bs then Some (drop (length p) bs) else None)"

definition join_with :: "bytes \<Rightarrow> bytes list \<Rightarrow> bytes" where
  "join_with sep bss = (case bss of [] \<Rightarrow> [] | b # r \<Rightarrow> b @ concat (map (\<lambda>x. sep @ x) r))"

lemma split_on_nonempty [simp]: "split_on c bs \<noteq> []"
  by (induction bs) (auto split: list.splits)

lemma split_on_fresh: "c \<notin> set bs \<Longrightarrow> split_on c bs = [bs]"
  by (induction bs) auto

lemma split_on_sep: "c \<notin> set x \<Longrightarrow> split_on c (x @ c # bs) = x # split_on c bs"
  by (induction x) auto

lemma split_on_append_sep: "split_on c (xs @ c # ys) = split_on c xs @ split_on c ys"
proof (induction xs)
  case (Cons x xs)
  show ?case using split_on_nonempty[of c xs] Cons
    by (auto split: list.splits)
qed simp

lemma split_on_no_sep: "p \<in> set (split_on c bs) \<Longrightarrow> c \<notin> set p"
proof (induction bs arbitrary: p)
  case (Cons b bs)
  then show ?case using split_on_nonempty[of c bs] by (auto split: list.splits if_splits)
qed simp

text \<open>A valid string starts with a whole character, whose bytes after the first are continuation bytes.\<close>

lemma utf8_first_char:
  assumes "utf8_valid (b # bs)"
  obtains seq rest where "b # bs = seq @ rest" "seq \<noteq> []" "\<forall>x \<in> set (tl seq). utf8_cont x" "utf8_valid rest"
    "\<And>zs. utf8_valid (seq @ zs) = utf8_valid zs"
proof -
  consider "b < 0x80" | "\<not> b < 0x80" "0xC2 \<le> b \<and> b \<le> 0xDF" | "\<not> b < 0x80" "\<not> (0xC2 \<le> b \<and> b \<le> 0xDF)" "0xE0 \<le> b \<and> b \<le> 0xEF"
    | "\<not> b < 0x80" "\<not> (0xC2 \<le> b \<and> b \<le> 0xDF)" "\<not> (0xE0 \<le> b \<and> b \<le> 0xEF)" "0xF0 \<le> b \<and> b \<le> 0xF4"
    using assms unfolding utf8_valid.simps(2) by argo
  then show thesis
  proof cases
    case 1
    then show thesis using assms by (intro that[of "[b]" bs]) auto
  next
    case 2
    then obtain b1 r where "bs = b1 # r" "utf8_cont b1" "utf8_valid r" using assms by (auto split: list.splits)
    then show thesis using 2 by (intro that[of "[b, b1]" r]) simp_all
  next
    case 3
    then have nb: "\<not> b \<le> 0xDF" "0xE0 \<le> b" "b \<le> 0xEF" "\<not> b < 0x80" by (auto simp: word_le_nat_alt)
    then obtain b1 b2 r where "bs = b1 # b2 # r" "utf8_cont b1" "utf8_cont b2" "utf8_valid r"
      "b = 0xE0 \<longrightarrow> 0xA0 \<le> b1" "b = 0xED \<longrightarrow> b1 \<le> 0x9F"
      using assms by (cases bs; cases "tl bs") simp_all
    then show thesis using nb by (intro that[of "[b, b1, b2]" r]) simp_all
  next
    case 4
    then have nb: "\<not> b \<le> 0xDF" "\<not> b \<le> 0xEF" "0xF0 \<le> b" "b \<le> 0xF4" "\<not> b < 0x80" by (auto simp: word_le_nat_alt)
    then obtain b1 b2 b3 r where "bs = b1 # b2 # b3 # r" "utf8_cont b1" "utf8_cont b2" "utf8_cont b3" "utf8_valid r"
      "b = 0xF0 \<longrightarrow> 0x90 \<le> b1" "b = 0xF4 \<longrightarrow> b1 \<le> 0x8F"
      using assms by (cases bs; cases "tl bs"; cases "tl (tl bs)") simp_all
    then show thesis using nb by (intro that[of "[b, b1, b2, b3]" r]) simp_all
  qed
qed

lemma utf8_valid_append: "utf8_valid xs \<Longrightarrow> utf8_valid (xs @ ys) = utf8_valid ys"
proof (induction xs rule: length_induct)
  case (1 xs)
  show ?case
  proof (cases xs)
    case (Cons b bs)
    then obtain seq rest where "xs = seq @ rest" "seq \<noteq> []" "utf8_valid rest" "\<And>zs. utf8_valid (seq @ zs) = utf8_valid zs"
      using "1.prems" utf8_first_char[of b bs] by metis
    then show ?thesis using "1.IH" by simp
  qed simp
qed

lemma utf8_valid_before: "utf8_valid (xs @ c # ys) \<Longrightarrow> c < 0x80 \<Longrightarrow> utf8_valid xs"
proof (induction xs rule: length_induct)
  case (1 xs)
  have nc: "\<not> utf8_cont c" using "1.prems"(2) by (auto simp: utf8_cont_def word_le_nat_alt word_less_nat_alt)
  show ?case
  proof (cases xs)
    case (Cons b bs)
    then obtain seq rest where s: "xs @ c # ys = seq @ rest" "seq \<noteq> []" "\<forall>x \<in> set (tl seq). utf8_cont x" "utf8_valid rest"
        "\<And>zs. utf8_valid (seq @ zs) = utf8_valid zs"
      using "1.prems"(1) utf8_first_char[of b "bs @ c # ys"] by (metis append_Cons)
    then consider us where "xs = seq @ us" "rest = us @ c # ys" | us where "seq = xs @ c # us"
      by (auto simp: append_eq_append_conv2 append_eq_Cons_conv Cons_eq_append_conv)
    then show ?thesis
    proof cases
      case 1
      have "utf8_valid us" using "1.IH" 1 s "1.prems"(2) by auto
      then show ?thesis using 1 s(5) by simp
    next
      case 2
      then have "c \<in> set (tl seq)" using Cons by simp
      then show ?thesis using s(3) nc by blast
    qed
  qed simp
qed

lemma utf8_valid_split: "c < 0x80 \<Longrightarrow> utf8_valid (xs @ c # ys) \<longleftrightarrow> utf8_valid xs \<and> utf8_valid ys"
  using utf8_valid_append[of xs "c # ys"] utf8_valid_before[of xs c ys] by auto

lemma split_on_decomp: "split_on c bs = [bs] \<and> c \<notin> set bs \<or> (\<exists>x r. bs = x @ c # r \<and> c \<notin> set x \<and> split_on c bs = x # split_on c r)"
proof (cases "c \<in> set bs")
  case True
  then obtain x r where "bs = x @ c # r" "c \<notin> set x" by (metis split_list_first)
  then show ?thesis using split_on_sep by fastforce
qed (simp add: split_on_fresh)

lemma split_on_utf8: "c < 0x80 \<Longrightarrow> utf8_valid bs \<Longrightarrow> p \<in> set (split_on c bs) \<Longrightarrow> utf8_valid p"
proof (induction bs rule: length_induct)
  case (1 bs)
  show ?case using split_on_decomp[of c bs]
  proof (elim disjE exE conjE)
    fix x r assume "bs = x @ c # r" "split_on c bs = x # split_on c r"
    then show ?thesis using 1(2-4) 1(1)[rule_format, of r] by (auto simp: utf8_valid_split)
  qed (use 1 in simp)
qed

section \<open>Decimal numbers\<close>

fun parse_digits :: "nat \<Rightarrow> nat \<Rightarrow> bytes \<Rightarrow> nat option" where
  "parse_digits w acc [] = Some acc"
| "parse_digits w acc (b # bs) =
    (if 0x30 \<le> b \<and> b \<le> 0x39 then
       let v = acc * 10 + (unat b - 0x30) in if v < 2 ^ w then parse_digits w v bs else None
     else None)"

definition parse_uint :: "nat \<Rightarrow> bytes \<Rightarrow> nat option" where
  "parse_uint w bs =
    (case bs of
       [] \<Rightarrow> None
     | b # r \<Rightarrow> if b = 0x2B then (if r = [] then None else parse_digits w 0 r) else parse_digits w 0 bs)"

fun show_digits :: "nat \<Rightarrow> bytes \<Rightarrow> bytes" where
  "show_digits n acc =
    (if n < 10 then of_nat (0x30 + n) # acc
     else show_digits (n div 10) (of_nat (0x30 + n mod 10) # acc))"

declare show_digits.simps [simp del]

definition show_nat :: "nat \<Rightarrow> bytes" where
  "show_nat n = show_digits n []"

lemma unat_digit: "d < 10 \<Longrightarrow> unat (of_nat (0x30 + d) :: u8) = 0x30 + d"
  by (simp add: unat_of_nat del: of_nat_add)

lemma digit_range: "d < 10 \<Longrightarrow> 0x30 \<le> (of_nat (0x30 + d) :: u8) \<and> (of_nat (0x30 + d) :: u8) \<le> 0x39"
  by (simp add: word_le_nat_alt unat_digit del: of_nat_add)

lemma parse_digits_append:
  "parse_digits w acc (xs @ ys) = (case parse_digits w acc xs of None \<Rightarrow> None | Some v \<Rightarrow> parse_digits w v ys)"
  by (induction xs arbitrary: acc) (auto simp: Let_def)

lemma show_digits_acc: "show_digits n acc = show_digits n [] @ acc"
proof (induction n arbitrary: acc rule: less_induct)
  case (less n)
  show ?case
  proof (cases "n < 10")
    case True
    then show ?thesis by (simp add: show_digits.simps)
  next
    case False
    then have lt: "n div 10 < n" by simp
    show ?thesis
      using False less[OF lt, of "of_nat (0x30 + n mod 10) # acc"] less[OF lt, of "[of_nat (0x30 + n mod 10)]"]
      by (simp add: show_digits.simps[of n])
  qed
qed

lemma show_nat_rec:
  "show_nat n = (if n < 10 then [of_nat (0x30 + n)] else show_nat (n div 10) @ [of_nat (0x30 + n mod 10)])"
  unfolding show_nat_def by (subst show_digits.simps) (simp add: show_digits_acc[of "n div 10" "[_]"])

lemma parse_show: "n < 2 ^ w \<Longrightarrow> parse_digits w 0 (show_nat n) = Some n"
proof (induction n rule: less_induct)
  case (less n)
  show ?case
  proof (cases "n < 10")
    case True
    then show ?thesis using less.prems digit_range[OF True] unat_digit[OF True]
      by (simp add: show_nat_rec[of n] Let_def del: of_nat_add)
  next
    case False
    have d: "n mod 10 < 10" by simp
    have "parse_digits w 0 (show_nat (n div 10)) = Some (n div 10)"
      using less.IH[of "n div 10"] less.prems False by (simp add: order.strict_trans1[OF div_le_dividend])
    moreover have "n div 10 * 10 + n mod 10 = n" by simp
    ultimately show ?thesis using False less.prems digit_range[OF d] unat_digit[OF d]
      by (simp add: show_nat_rec[of n] parse_digits_append Let_def del: of_nat_add)
  qed
qed

lemma show_nat_digits: "b \<in> set (show_nat n) \<Longrightarrow> 0x30 \<le> b \<and> b \<le> 0x39"
proof (induction n rule: less_induct)
  case (less n)
  show ?case
  proof (cases "n < 10")
    case True
    then show ?thesis using less.prems digit_range[OF True] by (simp add: show_nat_rec[of n] del: of_nat_add)
  next
    case False
    then have "n div 10 < n" by simp
    then show ?thesis
      using False less.prems less.IH[of "n div 10"] digit_range[of "n mod 10"]
      by (auto simp: show_nat_rec[of n] simp del: of_nat_add)
  qed
qed

lemma show_nat_nonempty [simp]: "show_nat n \<noteq> []"
  by (simp add: show_nat_rec[of n])

lemma parse_uint_show: "n < 2 ^ w \<Longrightarrow> parse_uint w (show_nat n) = Some n"
proof -
  assume n: "n < 2 ^ w"
  obtain b r where br: "show_nat n = b # r" by (cases "show_nat n") auto
  then have "b \<noteq> 0x2B" using show_nat_digits[of b n] by (auto simp: word_le_nat_alt)
  then show ?thesis using parse_show[OF n] br by (simp add: parse_uint_def)
qed

end
