(* ===== verification/Fat32.thy ===== *)
theory Fat32
  imports Disk Rust_Str
begin

text \<open>
  The FAT32 driver (\<open>drivers/fat32.rs\<close>): mounting, the cluster chain, directory parsing
  with long names, path resolution, and the write path in the root directory.

  Sector and cluster numbers are \<open>u32\<close> in the source: every sum, difference and product
  is checked.  \<open>read_chain\<close> has the source's own bound of a million steps.  The loops over
  the root directory and over a chain to free have none in the source: they take fuel and
  return \<open>None\<close> when it runs out.
\<close>

unbundle bit_operations_syntax

record bpb =
  bytes_per_sector :: nat
  sectors_per_cluster :: nat
  reserved_sectors :: nat
  num_fats :: nat
  total_sectors :: nat
  sectors_per_fat :: nat
  root_cluster :: nat
  fs_info_sector :: nat
  volume_label :: bytes

record dir_entry =
  de_name :: bytes
  is_dir :: bool
  de_size :: nat
  de_cluster :: nat

record fat32 =
  disk_idx :: nat
  part_start_lba :: nat
  fbpb :: bpb
  data_start_lba :: nat
  fat_start_lba :: nat

section \<open>Mounting\<close>

definition mount :: "disks \<Rightarrow> nat \<Rightarrow> nat \<Rightarrow> fat32 result" where
  "mount ds idx start =
    rbind (ata_read ds idx start 1 (replicate 512 0)) (\<lambda>buf.
    if buf ! 510 \<noteq> 0x55 \<or> buf ! 511 \<noteq> 0xAA then Err ''FAT32: signature 0x55AA absente'' else
    (let reserved = u16_at buf 14;
         nfats = unat (buf ! 16);
         total16 = u16_at buf 19;
         spf = u32_at buf 36;
         label = take 11 (drop 71 buf)
     in rbind (cadd 32 start reserved) (\<lambda>fat_start.
        rbind (cmul 32 nfats spf) (\<lambda>fats.
        rbind (cadd 32 fat_start fats) (\<lambda>data_start.
        Ok \<lparr> disk_idx = idx, part_start_lba = start,
             fbpb = \<lparr> bytes_per_sector = u16_at buf 11, sectors_per_cluster = unat (buf ! 13),
                      reserved_sectors = reserved, num_fats = nfats,
                      total_sectors = (if total16 \<noteq> 0 then total16 else u32_at buf 32),
                      sectors_per_fat = spf, root_cluster = u32_at buf 44,
                      fs_info_sector = u16_at buf 48,
                      volume_label = trim (if utf8_valid label then label else str ''???'') \<rparr>,
             data_start_lba = data_start, fat_start_lba = fat_start \<rparr>)))))"

section \<open>Cluster chains\<close>

definition cluster_to_lba :: "fat32 \<Rightarrow> nat \<Rightarrow> nat result" where
  "cluster_to_lba f cluster =
    rbind (csub cluster 2) (\<lambda>c.
    rbind (cmul 32 c (sectors_per_cluster (fbpb f))) (\<lambda>s. cadd 32 (data_start_lba f) s))"

definition next_cluster :: "disks \<Rightarrow> fat32 \<Rightarrow> nat \<Rightarrow> nat option result" where
  "next_cluster ds f cluster =
    rbind (cmul 32 cluster 4) (\<lambda>fat_offset.
    rbind (cadd 32 (fat_start_lba f) (fat_offset div SECTOR_SIZE)) (\<lambda>fat_sector.
    case ata_read ds (disk_idx f) fat_sector 1 (replicate 512 0) of
      Ok buf \<Rightarrow>
        (let val = u32_at buf (fat_offset mod SECTOR_SIZE) mod 2 ^ 28
         in if 0x0FFFFFF8 \<le> val then Ok None
            else if val = 0 \<or> val = 1 then Ok None
            else Ok (Some val))
    | Err _ \<Rightarrow> Ok None
    | Panic \<Rightarrow> Panic))"

definition cluster_bytes :: "fat32 \<Rightarrow> nat" where
  "cluster_bytes f = sectors_per_cluster (fbpb f) * SECTOR_SIZE"

definition read_cluster :: "disks \<Rightarrow> fat32 \<Rightarrow> nat \<Rightarrow> bytes result" where
  "read_cluster ds f lba =
    rfold (\<lambda>s acc.
        rbind (cadd 32 lba s) (\<lambda>l.
        rbind (ata_read ds (disk_idx f) l 1 (replicate 512 0)) (\<lambda>b. Ok (acc @ b))))
      [0..<sectors_per_cluster (fbpb f)] []"

fun read_chain_from :: "nat \<Rightarrow> disks \<Rightarrow> fat32 \<Rightarrow> nat \<Rightarrow> bytes \<Rightarrow> bytes result" where
  "read_chain_from steps ds f cluster data =
    (if steps = 0 then Err ''FAT32: chaine de clusters trop longue'' else
     rbind (cluster_to_lba f cluster) (\<lambda>lba.
     rbind (read_cluster ds f lba) (\<lambda>cluster_buf.
     rbind (next_cluster ds f cluster) (\<lambda>nxt.
     case nxt of
       Some n \<Rightarrow> read_chain_from (steps - 1) ds f n (data @ cluster_buf)
     | None \<Rightarrow> Ok (data @ cluster_buf)))))"

declare read_chain_from.simps [simp del]

definition read_chain :: "disks \<Rightarrow> fat32 \<Rightarrow> nat \<Rightarrow> bytes result" where
  "read_chain ds f start_cluster = read_chain_from 1000001 ds f start_cluster []"

section \<open>Directories\<close>

definition utf8_encode :: "nat \<Rightarrow> bytes" where
  "utf8_encode c =
    (if c < 0x80 then [of_nat c]
     else if c < 0x800 then [of_nat (0xC0 + c div 64), of_nat (0x80 + c mod 64)]
     else [of_nat (0xE0 + c div 4096), of_nat (0x80 + c div 64 mod 64), of_nat (0x80 + c mod 64)])"

fun lfn_run :: "bytes \<Rightarrow> nat list \<Rightarrow> bytes" where
  "lfn_run entry [] = []"
| "lfn_run entry (j # js) =
    (let c = u16_at entry j
     in if c = 0 \<or> c = 0xFFFF then []
        else (if 0xD800 \<le> c \<and> c \<le> 0xDFFF then [] else utf8_encode c) @ lfn_run entry js)"

definition lfn_part :: "bytes \<Rightarrow> bytes" where
  "lfn_part entry =
    lfn_run entry [1, 3, 5, 7, 9] @ lfn_run entry [14, 16, 18, 20, 22, 24] @ lfn_run entry [28, 30]"

definition short_name :: "bytes \<Rightarrow> bytes" where
  "short_name entry =
    (let b = take 8 entry; e = take 3 (drop 8 entry);
         base = trim (if utf8_valid b then b else str ''?'');
         ext = trim (if utf8_valid e then e else [])
     in if ext = [] then base else base @ str ''.'' @ ext)"

function parse_dir_entries :: "bytes \<Rightarrow> (u8 \<times> bytes) list \<Rightarrow> dir_entry list" where
  "parse_dir_entries raw lfn_parts =
    (if length raw < 32 then [] else
     let entry = take 32 raw; rest = drop 32 raw; attrs = entry ! 11
     in if entry ! 0 = 0 then []
        else if entry ! 0 = 0xE5 then parse_dir_entries rest lfn_parts
        else if attrs = 0x0F then
          parse_dir_entries rest (lfn_parts @ [(entry ! 0 AND 0x3F, lfn_part entry)])
        else if attrs AND 0x08 \<noteq> 0 \<and> attrs AND 0x10 = 0 then parse_dir_entries rest []
        else
          let name = (if lfn_parts \<noteq> [] then concat (map snd (sort_key fst lfn_parts)) else short_name entry)
          in if name = str ''.'' \<or> name = str ''..'' then parse_dir_entries rest []
             else \<lparr> de_name = name, is_dir = (attrs AND 0x10 \<noteq> 0), de_size = u32_at entry 28,
                    de_cluster = u16_at entry 20 * 2 ^ 16 + u16_at entry 26 \<rparr>
                  # parse_dir_entries rest [])"
  by pat_completeness auto
termination by (relation "measure (\<lambda>(raw, _). length raw)") auto

declare parse_dir_entries.simps [simp del]

definition ls_cluster :: "disks \<Rightarrow> fat32 \<Rightarrow> nat \<Rightarrow> dir_entry list result" where
  "ls_cluster ds f cluster = rbind (read_chain ds f cluster) (\<lambda>raw. Ok (parse_dir_entries raw []))"

definition ls_root :: "disks \<Rightarrow> fat32 \<Rightarrow> dir_entry list result" where
  "ls_root ds f = ls_cluster ds f (root_cluster (fbpb f))"

definition ascii_lower :: "u8 \<Rightarrow> u8" where
  "ascii_lower b = (if 0x41 \<le> b \<and> b \<le> 0x5A then b + 0x20 else b)"

definition ascii_upper :: "u8 \<Rightarrow> u8" where
  "ascii_upper b = (if 0x61 \<le> b \<and> b \<le> 0x7A then b - 0x20 else b)"

definition eq_ignore_ascii_case :: "bytes \<Rightarrow> bytes \<Rightarrow> bool" where
  "eq_ignore_ascii_case a b \<longleftrightarrow> map ascii_lower a = map ascii_lower b"

fun resolve_parts :: "disks \<Rightarrow> fat32 \<Rightarrow> nat \<Rightarrow> bytes list \<Rightarrow> dir_entry result" where
  "resolve_parts ds f cluster [] = Err ''FAT32: chemin invalide''"
| "resolve_parts ds f cluster (c # cs) =
    rbind (ls_cluster ds f cluster) (\<lambda>entries.
    case List.find (\<lambda>e. eq_ignore_ascii_case (de_name e) c) entries of
      Some e \<Rightarrow>
        if cs = [] then Ok e
        else if \<not> is_dir e then Err ''FAT32: composant de chemin n'est pas un repertoire''
        else resolve_parts ds f (de_cluster e) cs
    | None \<Rightarrow> Err ''FAT32: fichier/repertoire introuvable'')"

definition resolve :: "disks \<Rightarrow> fat32 \<Rightarrow> bytes \<Rightarrow> dir_entry result" where
  "resolve ds f path0 =
    (let path = dropWhile (\<lambda>b. b = 0x2F) path0
     in if path = [] then
          Ok \<lparr> de_name = str ''/'', is_dir = True, de_size = 0, de_cluster = root_cluster (fbpb f) \<rparr>
        else resolve_parts ds f (root_cluster (fbpb f))
               (filter (\<lambda>p. p \<noteq> []) (split_on 0x2F path)))"

definition fat_ls :: "disks \<Rightarrow> fat32 \<Rightarrow> bytes \<Rightarrow> dir_entry list result" where
  "fat_ls ds f path =
    rbind (resolve ds f path) (\<lambda>e.
    if \<not> is_dir e then Err ''FAT32: pas un repertoire'' else ls_cluster ds f (de_cluster e))"

definition fat_read_file :: "disks \<Rightarrow> fat32 \<Rightarrow> bytes \<Rightarrow> bytes result" where
  "fat_read_file ds f path =
    rbind (resolve ds f path) (\<lambda>e.
    if is_dir e then Err ''FAT32: c'est un repertoire''
    else rbind (read_chain ds f (de_cluster e)) (\<lambda>data. Ok (take (de_size e) data)))"

section \<open>Writing\<close>

definition splice :: "bytes \<Rightarrow> nat \<Rightarrow> bytes \<Rightarrow> bytes" where
  "splice buf off new = take off buf @ new @ drop (off + length new) buf"

definition set_one_fat :: "fat32 \<Rightarrow> nat \<Rightarrow> nat \<Rightarrow> nat \<Rightarrow> (disks, unit) op" where
  "set_one_fat f fat_offset value fat_idx =
    sbind (slift (rbind (cmul 32 fat_idx (sectors_per_fat (fbpb f))) (\<lambda>o1.
                  rbind (cadd 32 (fat_start_lba f) o1) (\<lambda>o2. cadd 32 o2 (fat_offset div SECTOR_SIZE))))) (\<lambda>lba.
    sbind (sget (\<lambda>ds. ata_read ds (disk_idx f) lba 1 (replicate 512 0))) (\<lambda>r. sbind (slift r) (\<lambda>buf.
      let entry_offset = fat_offset mod SECTOR_SIZE;
          prev = u32_at buf entry_offset;
          new_val = prev div 2 ^ 28 * 2 ^ 28 + value mod 2 ^ 28
      in ata_write (disk_idx f) lba 1 (splice buf entry_offset (le_bytes 4 new_val)))))"

definition set_fat_entry :: "fat32 \<Rightarrow> nat \<Rightarrow> nat \<Rightarrow> (disks, unit) op" where
  "set_fat_entry f cluster value =
    sbind (slift (cmul 32 cluster 4)) (\<lambda>fat_offset.
      sfor (set_one_fat f fat_offset value) [0..<num_fats (fbpb f)])"

text \<open>The scan of one FAT sector: the first free entry, clusters 0 and 1 left out.\<close>

definition free_in_sector :: "nat \<Rightarrow> bytes \<Rightarrow> nat option" where
  "free_in_sector sec buf =
    List.find (\<lambda>i. 2 \<le> sec * 128 + i \<and> u32_at buf (i * 4) mod 2 ^ 28 = 0) [0..<128]"

fun scan_fat :: "fat32 \<Rightarrow> nat list \<Rightarrow> (disks, nat) op" where
  "scan_fat f [] = serr ''FAT32: scan FAT epuise''"
| "scan_fat f (sec # secs) =
    sbind (slift (cadd 32 (fat_start_lba f) sec)) (\<lambda>lba.
    sbind (sget (\<lambda>ds. ata_read ds (disk_idx f) lba 1 (replicate 512 0))) (\<lambda>r. sbind (slift r) (\<lambda>buf.
      case free_in_sector sec buf of
        Some i \<Rightarrow> sbind (set_fat_entry f (sec * 128 + i) 0x0FFFFFFF) (\<lambda>_. sret (sec * 128 + i))
      | None \<Rightarrow> scan_fat f secs)))"

definition alloc_cluster :: "fat32 \<Rightarrow> (disks, nat) op" where
  "alloc_cluster f =
    sbind (slift (cmul 32 (sectors_per_fat (fbpb f)) 128)) (\<lambda>_.
      scan_fat f [0..<sectors_per_fat (fbpb f)])"

definition write_cluster :: "fat32 \<Rightarrow> nat \<Rightarrow> bytes \<Rightarrow> (disks, unit) op" where
  "write_cluster f cluster data =
    (if cluster_bytes f < length data then serr ''FAT32: data > cluster_size'' else
     sbind (slift (cluster_to_lba f cluster)) (\<lambda>lba.
       ata_write (disk_idx f) lba (sectors_per_cluster (fbpb f))
         (data @ replicate (cluster_bytes f - length data) 0)))"

fun free_chain_from :: "nat \<Rightarrow> fat32 \<Rightarrow> nat \<Rightarrow> disks \<Rightarrow> (unit result \<times> disks) option" where
  "free_chain_from fuel f cur ds =
    (if fuel = 0 then None else
     case next_cluster ds f cur of
       Ok nxt \<Rightarrow>
         (case set_fat_entry f cur 0 ds of
            (Ok _, ds') \<Rightarrow> (case nxt of Some n \<Rightarrow> free_chain_from (fuel - 1) f n ds' | None \<Rightarrow> Some (Ok (), ds'))
          | (Err e, ds') \<Rightarrow> Some (Err e, ds')
          | (Panic, ds') \<Rightarrow> Some (Panic, ds'))
     | Err e \<Rightarrow> Some (Err e, ds)
     | Panic \<Rightarrow> Some (Panic, ds))"

declare free_chain_from.simps [simp del]

definition free_chain :: "nat \<Rightarrow> fat32 \<Rightarrow> nat \<Rightarrow> disks \<Rightarrow> (unit result \<times> disks) option" where
  "free_chain fuel f first ds = (if first < 2 then Some (Ok (), ds) else free_chain_from fuel f first ds)"

definition is_valid_short_byte :: "u8 \<Rightarrow> bool" where
  "is_valid_short_byte b \<longleftrightarrow> (0x41 \<le> b \<and> b \<le> 0x5A) \<or> (0x30 \<le> b \<and> b \<le> 0x39) \<or>
     b \<in> set (str ''_-$%&!@~(){}#^'')"

definition pack_short_name :: "bytes \<Rightarrow> bytes result" where
  "pack_short_name name =
    (let upper = map ascii_upper name;
         base = takeWhile (\<lambda>b. b \<noteq> 0x2E) upper;
         ext = drop 1 (dropWhile (\<lambda>b. b \<noteq> 0x2E) upper)
     in if base = [] \<or> 8 < length base \<or> 3 < length ext then Err ''FAT32: nom invalide (8.3 only)''
        else if \<not> list_all is_valid_short_byte base \<or> \<not> list_all is_valid_short_byte ext
        then Err ''FAT32: caractere invalide''
        else Ok (base @ replicate (8 - length base) 0x20 @ ext @ replicate (3 - length ext) 0x20))"

text \<open>The slot of a directory cluster that \<open>upsert_root_dir_entry\<close> chooses: the offset and
  whether an entry of the same name is replaced.\<close>

fun choose_slot :: "bytes \<Rightarrow> bytes \<Rightarrow> nat list \<Rightarrow> (nat \<times> bool) option \<Rightarrow> (nat \<times> bool) option" where
  "choose_slot name buf [] chosen = chosen"
| "choose_slot name buf (off # offs) chosen =
    (if buf ! off = 0 then Some (off, False)
     else if buf ! (off + 11) = 0x0F then choose_slot name buf offs chosen
     else if buf ! off = 0xE5 then
       choose_slot name buf offs (if chosen = None then Some (off, False) else chosen)
     else if take 11 (drop off buf) = name then Some (off, True)
     else choose_slot name buf offs chosen)"

definition entry_offsets :: "bytes \<Rightarrow> nat list" where
  "entry_offsets buf = map (\<lambda>i. 32 * i) [0..<length buf div 32]"

definition file_entry :: "bytes \<Rightarrow> nat \<Rightarrow> nat \<Rightarrow> bytes" where
  "file_entry name first_cluster size' =
    name @ [0x20] @ replicate 8 0 @ le_bytes 2 (first_cluster div 2 ^ 16) @ replicate 4 0 @
    le_bytes 2 (first_cluster mod 2 ^ 16) @ le_bytes 4 size'"

definition entry_cluster :: "bytes \<Rightarrow> nat \<Rightarrow> nat" where
  "entry_cluster buf off = u16_at buf (off + 20) * 2 ^ 16 + u16_at buf (off + 26)"

text \<open>Sequencing for operations that may not return.\<close>

definition obind ::
  "('s \<Rightarrow> ('a result \<times> 's) option) \<Rightarrow> ('a \<Rightarrow> 's \<Rightarrow> ('b result \<times> 's) option) \<Rightarrow> 's \<Rightarrow> ('b result \<times> 's) option" where
  "obind m g s = (case m s of
      None \<Rightarrow> None
    | Some (Ok x, s') \<Rightarrow> g x s'
    | Some (Err e, s') \<Rightarrow> Some (Err e, s')
    | Some (Panic, s') \<Rightarrow> Some (Panic, s'))"

definition olift :: "('s, 'a) op \<Rightarrow> 's \<Rightarrow> ('a result \<times> 's) option" where
  "olift m s = Some (m s)"

definition read_dir_cluster :: "fat32 \<Rightarrow> nat \<Rightarrow> (disks, nat \<times> bytes) op" where
  "read_dir_cluster f cur =
    sbind (slift (cluster_to_lba f cur)) (\<lambda>lba.
    sbind (sget (\<lambda>ds. ata_read ds (disk_idx f) lba (sectors_per_cluster (fbpb f)) (replicate (cluster_bytes f) 0)))
      (\<lambda>r. sbind (slift r) (\<lambda>buf. sret (lba, buf))))"

definition extend_root :: "fat32 \<Rightarrow> nat \<Rightarrow> (disks, nat) op" where
  "extend_root f cur =
    sbind (alloc_cluster f) (\<lambda>new_c.
    sbind (set_fat_entry f cur new_c) (\<lambda>_.
    sbind (write_cluster f new_c []) (\<lambda>_. sret new_c)))"

fun upsert_root_dir_entry ::
  "nat \<Rightarrow> fat32 \<Rightarrow> bytes \<Rightarrow> nat \<Rightarrow> nat \<Rightarrow> nat \<Rightarrow> disks \<Rightarrow> (unit result \<times> disks) option" where
  "upsert_root_dir_entry fuel f name first_cluster size' cur ds =
    (if fuel = 0 then None else
     obind (olift (read_dir_cluster f cur)) (\<lambda>(lba, buf).
       case choose_slot name buf (entry_offsets buf) None of
         Some (off, replace) \<Rightarrow>
           obind (if replace then free_chain (fuel - 1) f (entry_cluster buf off) else olift (sret ())) (\<lambda>_.
             olift (ata_write (disk_idx f) lba (sectors_per_cluster (fbpb f))
                      (splice buf off (file_entry name first_cluster size'))))
       | None \<Rightarrow>
           obind (olift (sbind (sget (\<lambda>ds. next_cluster ds f cur)) slift)) (\<lambda>nxt.
             case nxt of
               Some n \<Rightarrow> upsert_root_dir_entry (fuel - 1) f name first_cluster size' n
             | None \<Rightarrow> obind (olift (extend_root f cur))
                 (\<lambda>new_c. upsert_root_dir_entry (fuel - 1) f name first_cluster size' new_c))) ds)"

declare upsert_root_dir_entry.simps [simp del]

fun alloc_clusters :: "fat32 \<Rightarrow> nat \<Rightarrow> nat list \<Rightarrow> (disks, nat list) op" where
  "alloc_clusters f 0 chain = sret chain"
| "alloc_clusters f (Suc n) chain = sbind (alloc_cluster f) (\<lambda>c. alloc_clusters f n (chain @ [c]))"

definition link_chain :: "fat32 \<Rightarrow> nat list \<Rightarrow> (disks, unit) op" where
  "link_chain f chain = sfor (\<lambda>(a, b). set_fat_entry f a b) (zip chain (tl chain))"

definition write_chain :: "fat32 \<Rightarrow> nat list \<Rightarrow> bytes \<Rightarrow> (disks, unit) op" where
  "write_chain f chain data =
    sfor (\<lambda>(i, c). write_cluster f c (take (cluster_bytes f) (drop (i * cluster_bytes f) data)))
      (zip [0..<length chain] chain)"

definition create_root_file :: "nat \<Rightarrow> fat32 \<Rightarrow> bytes \<Rightarrow> bytes \<Rightarrow> disks \<Rightarrow> (unit result \<times> disks) option" where
  "create_root_file fuel f name_83 data =
    obind (olift (slift (pack_short_name name_83))) (\<lambda>name_bytes.
    obind (olift (slift
      (if data = [] then Ok 0
       else if cluster_bytes f = 0 then Panic
       else Ok ((length data + cluster_bytes f - 1) div cluster_bytes f)))) (\<lambda>n_clusters.
    obind (olift (alloc_clusters f n_clusters [])) (\<lambda>chain.
    obind (olift (link_chain f chain)) (\<lambda>_.
    obind (olift (write_chain f chain data)) (\<lambda>_.
      upsert_root_dir_entry fuel f name_bytes (case chain of [] \<Rightarrow> 0 | c # _ \<Rightarrow> c)
        (length data mod 2 ^ 32) (root_cluster (fbpb f)))))))"

datatype unlink_scan = ScanEnd | ScanMiss | ScanHit nat

fun unlink_slot :: "bytes \<Rightarrow> bytes \<Rightarrow> nat list \<Rightarrow> unlink_scan" where
  "unlink_slot name buf [] = ScanMiss"
| "unlink_slot name buf (off # offs) =
    (if buf ! off = 0 then ScanEnd
     else if buf ! (off + 11) = 0x0F then unlink_slot name buf offs
     else if take 11 (drop off buf) = name then ScanHit off
     else unlink_slot name buf offs)"

fun unlink_from :: "nat \<Rightarrow> fat32 \<Rightarrow> bytes \<Rightarrow> nat \<Rightarrow> disks \<Rightarrow> (unit result \<times> disks) option" where
  "unlink_from fuel f name cur ds =
    (if fuel = 0 then None else
     obind (olift (read_dir_cluster f cur)) (\<lambda>(lba, buf).
       case unlink_slot name buf (entry_offsets buf) of
         ScanEnd \<Rightarrow> olift (serr ''FAT32: fichier non trouve'')
       | ScanHit off \<Rightarrow>
           obind (free_chain (fuel - 1) f (entry_cluster buf off)) (\<lambda>_.
             olift (ata_write (disk_idx f) lba (sectors_per_cluster (fbpb f)) (buf[off := 0xE5])))
       | ScanMiss \<Rightarrow>
           obind (olift (sbind (sget (\<lambda>ds. next_cluster ds f cur)) slift)) (\<lambda>nxt.
             case nxt of Some n \<Rightarrow> unlink_from (fuel - 1) f name n
             | None \<Rightarrow> olift (serr ''FAT32: fichier non trouve''))) ds)"

declare unlink_from.simps [simp del]

definition unlink_root :: "nat \<Rightarrow> fat32 \<Rightarrow> bytes \<Rightarrow> disks \<Rightarrow> (unit result \<times> disks) option" where
  "unlink_root fuel f name_83 =
    obind (olift (slift (pack_short_name name_83))) (\<lambda>name. unlink_from fuel f name (root_cluster (fbpb f)))"

section \<open>The mounted volume\<close>

definition info_string :: "fat32 \<Rightarrow> bytes result" where
  "info_string f =
    (let b = fbpb f; cluster = sectors_per_cluster b * bytes_per_sector b in
     rbind (csub (total_sectors b) (reserved_sectors b)) (\<lambda>d1.
     rbind (cmul 32 (num_fats b) (sectors_per_fat b)) (\<lambda>d2.
     rbind (csub d1 d2) (\<lambda>d3.
     if sectors_per_cluster b = 0 then Panic
     else rbind (cmul 64 (d3 div sectors_per_cluster b) cluster) (\<lambda>bytes.
       Ok (str ''FAT32 '' @ [0x27] @ volume_label b @ [0x27] @ str '' : '' @ show_nat (bytes div (1024 * 1024)) @
           str '' MiB, cluster='' @ show_nat cluster @ str '' B, '' @ show_nat (sectors_per_cluster b) @
           str '' spc, '' @ show_nat (num_fats b) @ str '' FATs''))))))"

text \<open>\<open>mounted\<close> is set once: a second mount succeeds without replacing the volume.\<close>

definition mount_first :: "disks \<Rightarrow> partition list \<Rightarrow> fat32 option \<Rightarrow> fat32 option result" where
  "mount_first ds parts mounted =
    rbind (ok_or ''FAT32: aucune partition FAT32 trouvee'' (find_first_fat32 parts)) (\<lambda>(idx, start, _).
    rbind (mount ds idx start) (\<lambda>f.
    rbind (info_string f) (\<lambda>_.
    Ok (case mounted of None \<Rightarrow> Some f | Some g \<Rightarrow> Some g))))"

end
