(* ===== verification/Kernel_State.thy ===== *)
theory Kernel_State
  imports Cow Elf Ramfs Fat32 Framebuffer
begin

text \<open>
  The statics of the kernel that the process table, the system calls, the graphics
  arbitration and the inter-process communication share, as one record.

  \<^item> \<open>task/preempt.rs\<close>: \<open>trap_frame\<close>.
  \<^item> \<open>task/signal.rs\<close>: \<open>sig\<close>, with its numbering.
  \<^item> \<open>task/process.rs\<close>: \<open>process\<close>, \<open>process_table\<close>.  The kernel stack of a process is not
    part of the model: it is only handed to the processor.
  \<^item> \<open>ipc/mod.rs\<close>: \<open>shm_region\<close>, \<open>shm_mapping\<close>, \<open>ipc_frame\<close>.
  \<^item> \<open>gfx/input_queue.rs\<close>: \<open>input_event\<close>.

  \<open>keyboard_q\<close> is the queue of scan codes, each with the character the decoder makes of it
  (the decoder belongs to a crate; it consumes the codes in order, so what it answers is a property of the
  queue).  \<open>screen\<close> and \<open>serial\<close> collect the text handed to \<open>print!\<close> and \<open>serial_print!\<close>.

  A process identifier is a number below \<open>2^32\<close>.  \<open>dks\<close> are the drives and \<open>fat\<close> the mounted
  volume; the segment selectors are the values the descriptor table gave.
\<close>

section \<open>Signals\<close>

datatype sig = SigInt | SigKill | SigTerm | SigSegv | SigIll | SigBus

definition from_num :: "nat \<Rightarrow> sig option" where
  "from_num n =
    (if n = 2 then Some SigInt else if n = 7 then Some SigBus else if n = 9 then Some SigKill
     else if n = 11 then Some SigSegv else if n = 4 then Some SigIll
     else if n = 15 then Some SigTerm else None)"

fun sig_num :: "sig \<Rightarrow> nat" where
  "sig_num SigInt = 2"
| "sig_num SigIll = 4"
| "sig_num SigBus = 7"
| "sig_num SigKill = 9"
| "sig_num SigSegv = 11"
| "sig_num SigTerm = 15"

definition exit_code :: "sig \<Rightarrow> 32 word" where
  "exit_code s = 128 + of_nat (sig_num s)"

lemma from_num_sig_num: "from_num (sig_num s) = Some s"
  by (cases s) (simp_all add: from_num_def)

lemma from_num_SomeD: "from_num n = Some s \<Longrightarrow> sig_num s = n"
  by (auto simp: from_num_def split: if_splits)

section \<open>Processes\<close>

record trap_frame =
  gs_base :: u64
  fs_base :: u64
  r15 :: u64
  r14 :: u64
  r13 :: u64
  r12 :: u64
  r11 :: u64
  r10 :: u64
  r9 :: u64
  r8 :: u64
  rbp :: u64
  rdi :: u64
  rsi :: u64
  rdx :: u64
  rcx :: u64
  rbx :: u64
  rax :: u64
  tf_pad :: u64
  rip :: u64
  cs :: u64
  rflags :: u64
  rsp :: u64
  ss :: u64

definition default_trap_frame :: trap_frame where
  "default_trap_frame = \<lparr> gs_base = 0, fs_base = 0, r15 = 0, r14 = 0, r13 = 0, r12 = 0, r11 = 0,
     r10 = 0, r9 = 0, r8 = 0, rbp = 0, rdi = 0, rsi = 0, rdx = 0, rcx = 0, rbx = 0, rax = 0,
     tf_pad = 0, rip = 0, cs = 0, rflags = 0, rsp = 0, ss = 0 \<rparr>"

type_synonym pid = nat

datatype proc_state = Runnable | Sleeping | Zombie "32 word"

record process =
  pid_of :: pid
  parent :: pid
  pname :: bytes
  pstate :: proc_state
  aspace :: address_space
  trap :: trap_frame
  signals :: "sig list"
  children_exited :: "(pid \<times> 32 word) list"
  uid :: nat
  gid :: nat
  euid :: nat
  egid :: nat

record process_table =
  procs :: "(pid, process) btree_map"
  runnable :: "pid list"
  current :: pid

section \<open>Shared memory, mailboxes, input\<close>

record shm_region =
  shm_frames :: "phys_frame list"
  shm_size :: nat
  shm_creator :: pid
  shm_refs :: nat

record shm_mapping =
  map_pid :: pid
  map_handle :: nat
  map_base :: nat
  map_pages :: nat

record ipc_frame =
  sender :: pid
  payload :: bytes

record input_event =
  ev_kind :: nat
  ev_timestamp :: nat
  ev_scancode :: nat
  ev_keysym :: nat
  ev_mods :: nat
  ev_mouse_x :: u32
  ev_mouse_y :: u32
  ev_mouse_dx :: u32
  ev_mouse_dy :: u32
  ev_buttons :: nat
  ev_wheel :: u32

section \<open>The kernel\<close>

record kernel =
  km :: kmem
  ptab :: process_table
  next_pid :: nat
  exec_dirs :: "bytes list"
  return_ctx :: bool
  shm_table :: "(nat, shm_region) btree_map"
  shm_mappings :: "shm_mapping list"
  shm_va_next :: "(pid, nat) btree_map"
  next_handle :: nat
  mailboxes :: "(pid, ipc_frame list) btree_map"
  fb_owner :: nat
  fb_frames :: "phys_frame list"
  fb_va :: nat
  fb_len :: nat
  fbdev :: "fb option"
  gpu :: "virtio_gpu option"
  input_q :: "input_event list"
  fsys :: ramfs
  dks :: disks
  fat :: "fat32 option"
  user_cs :: u64
  user_ss :: u64
  uptime :: nat
  keyboard_q :: "nat option list"
  screen :: bytes
  serial :: bytes
  syscall_count :: nat

definition on_km :: "(kmem, 'a) op \<Rightarrow> (kernel, 'a) op" where
  "on_km m k = (case m (km k) of (r, m') \<Rightarrow> (r, k \<lparr> km := m' \<rparr>))"

definition on_fs :: "(ramfs \<Rightarrow> ramfs) \<Rightarrow> (kernel, unit) op" where
  "on_fs f = supd (\<lambda>k. k \<lparr> fsys := f (fsys k) \<rparr>)"

definition upd_ptab :: "(process_table \<Rightarrow> process_table) \<Rightarrow> kernel \<Rightarrow> kernel" where
  "upd_ptab f k = k \<lparr> ptab := f (ptab k) \<rparr>"

definition proc_of :: "pid \<Rightarrow> kernel \<Rightarrow> process option" where
  "proc_of p k = bt_get (procs (ptab k)) p"

definition set_proc :: "pid \<Rightarrow> process \<Rightarrow> process_table \<Rightarrow> process_table" where
  "set_proc p pr t = t \<lparr> procs := bt_insert p pr (procs t) \<rparr>"

definition push_runnable :: "pid \<Rightarrow> process_table \<Rightarrow> process_table" where
  "push_runnable p t = t \<lparr> runnable := runnable t @ [p] \<rparr>"

definition current_proc :: "kernel \<Rightarrow> process option" where
  "current_proc k = proc_of (current (ptab k)) k"

text \<open>Run an operation of the address space of the current process.\<close>

definition on_current_as :: "(as_st, 'a) op \<Rightarrow> process \<Rightarrow> (kernel, 'a) op" where
  "on_current_as f p k =
    (case f (aspace p, km k) of (r, (a, m)) \<Rightarrow>
       (r, upd_ptab (set_proc (current (ptab k)) (p \<lparr> aspace := a \<rparr>)) (k \<lparr> km := m \<rparr>)))"

lemma proc_of_set [simp]:
  "proc_of q (upd_ptab (set_proc p pr) k) = (if q = p then Some pr else proc_of q k)"
  by (simp add: proc_of_def upd_ptab_def set_proc_def)

lemma proc_of_push [simp]: "proc_of q (upd_ptab (push_runnable p) k) = proc_of q k"
  by (simp add: proc_of_def upd_ptab_def push_runnable_def)

lemma set_proc_simps [simp]:
  "runnable (set_proc p pr t) = runnable t" "current (set_proc p pr t) = current t"
  "procs (set_proc p pr t) = bt_insert p pr (procs t)"
  by (simp_all add: set_proc_def)

lemma push_runnable_simps [simp]:
  "procs (push_runnable p t) = procs t" "current (push_runnable p t) = current t"
  "runnable (push_runnable p t) = runnable t @ [p]"
  by (simp_all add: push_runnable_def)

lemma upd_ptab_simps [simp]: "ptab (upd_ptab f k) = f (ptab k)" "km (upd_ptab f k) = km k"
  by (simp_all add: upd_ptab_def)

end
