(* ===== verification/Ipc.thy ===== *)
theory Ipc
  imports Kernel_State
begin

text \<open>
  Shared memory and mailboxes (\<open>ipc/mod.rs\<close>), the raw input queue (\<open>gfx/input_queue.rs\<close>) and
  the release of the framebuffer (\<open>gfx/mod.rs\<close>).  The system calls that move user memory are
  in the theory of the system calls; here are the operations on the kernel's own state.

  Handles, reference counts and addresses have the source's widths: the handle counter wraps
  at \<open>2^64\<close> like the atomic it is, a reference count that overflows 32 bits panics.
\<close>

abbreviation U64_MAX :: nat where "U64_MAX \<equiv> 0xFFFFFFFFFFFFFFFF"
abbreviation SHM_MAX_SIZE :: nat where "SHM_MAX_SIZE \<equiv> 64 * 1024 * 1024"
abbreviation SHM_VA_BASE :: nat where "SHM_VA_BASE \<equiv> 0x600000000000"
abbreviation MAX_MSG :: nat where "MAX_MSG \<equiv> 4096"
abbreviation MAX_QUEUED_PER_PID :: nat where "MAX_QUEUED_PER_PID \<equiv> 64"

unbundle bit_operations_syntax

section \<open>Shared memory\<close>

definition set_region :: "nat \<Rightarrow> shm_region \<Rightarrow> kernel \<Rightarrow> kernel" where
  "set_region h r k = k \<lparr> shm_table := bt_insert h r (shm_table k) \<rparr>"

definition sys_shm_create :: "nat \<Rightarrow> (kernel, nat) op" where
  "sys_shm_create size' =
    (if size' = 0 \<or> SHM_MAX_SIZE < size' then sret U64_MAX
     else sbind (on_km (alloc_or_rollback alloc_zeroed_frame free_frame ((size' + 4096 - 1) div 4096) [])) (\<lambda>r.
       case r of
         None \<Rightarrow> sret U64_MAX
       | Some frames \<Rightarrow> (\<lambda>k. (Ok (next_handle k),
           set_region (next_handle k)
             \<lparr> shm_frames = frames, shm_size = size', shm_creator = current (ptab k), shm_refs = 0 \<rparr>
             (k \<lparr> next_handle := (next_handle k + 1) mod 2 ^ 64 \<rparr>)))))"

text \<open>The \<open>refs -= 1\<close> of the rollbacks: checked subtraction, nothing if the handle is gone.\<close>

definition shm_unref :: "nat \<Rightarrow> (kernel, unit) op" where
  "shm_unref h k =
    (case bt_get (shm_table k) h of
       None \<Rightarrow> (Ok (), k)
     | Some r \<Rightarrow> if shm_refs r = 0 then (Panic, k)
                 else (Ok (), set_region h (r \<lparr> shm_refs := shm_refs r - 1 \<rparr>) k))"

definition unmap_pages :: "x86_ops \<Rightarrow> nat \<Rightarrow> nat \<Rightarrow> (as_st, unit) op" where
  "unmap_pages X base n =
    sfor (\<lambda>j. sbind (slift (rbind (cmul 64 j 4096) (cadd 64 base))) (\<lambda>va.
              sbind (stry (unmap_va X va)) (\<lambda>_. sret ()))) [0..<n]"

fun shm_map_pages :: "x86_ops \<Rightarrow> pflags \<Rightarrow> nat \<Rightarrow> nat \<Rightarrow> phys_frame list \<Rightarrow> (as_st, bool) op" where
  "shm_map_pages X flags base i [] = sret True"
| "shm_map_pages X flags base i (f # fs) =
    sbind (slift (rbind (cmul 64 i 4096) (cadd 64 base))) (\<lambda>va.
    sbind (slift (virt_new X va)) (\<lambda>va.
    sbind (stry (as_map_to X (align_down 4096 va) f flags)) (\<lambda>r.
      case r of
        Ok _ \<Rightarrow> shm_map_pages X flags base (Suc i) fs
      | _ \<Rightarrow> sbind (unmap_pages X base i) (\<lambda>_. sret False))))"

definition shm_flags :: "u64 \<Rightarrow> pflags" where
  "shm_flags mode =
    (if mode AND 2 \<noteq> 0 then PRESENT OR WRITABLE OR USER_ACCESSIBLE else PRESENT OR USER_ACCESSIBLE)"

text \<open>The address of the next mapping of a process, and the advance of its bump counter.\<close>

definition shm_take_va :: "pid \<Rightarrow> nat \<Rightarrow> (kernel, nat) op" where
  "shm_take_va p pages =
    sbind (sget (\<lambda>k. case bt_get (shm_va_next k) p of Some n \<Rightarrow> n | None \<Rightarrow> 0)) (\<lambda>n.
    sbind (supd (\<lambda>k. k \<lparr> shm_va_next := bt_insert p n (shm_va_next k) \<rparr>)) (\<lambda>_.
    sbind (slift (rbind (cmul 64 n 4096) (cadd 64 SHM_VA_BASE))) (\<lambda>va.
    sbind (slift (cadd 64 n pages)) (\<lambda>n'.
    sbind (supd (\<lambda>k. k \<lparr> shm_va_next := bt_insert p n' (shm_va_next k) \<rparr>)) (\<lambda>_. sret va)))))"

definition sys_shm_map :: "x86_ops \<Rightarrow> nat \<Rightarrow> u64 \<Rightarrow> (kernel, nat) op" where
  "sys_shm_map X handle mode =
    sbind (sget (\<lambda>k. bt_get (shm_table k) handle)) (\<lambda>ro.
      case ro of
        None \<Rightarrow> sret U64_MAX
      | Some r \<Rightarrow>
          sbind (slift (cadd 32 (shm_refs r) 1)) (\<lambda>refs.
          sbind (supd (set_region handle (r \<lparr> shm_refs := refs \<rparr>))) (\<lambda>_.
          sbind (sget (\<lambda>k. current (ptab k))) (\<lambda>p.
          sbind (shm_take_va p (length (shm_frames r))) (\<lambda>base_va.
          sbind (sget current_proc) (\<lambda>pr.
            case pr of
              None \<Rightarrow> sbind (shm_unref handle) (\<lambda>_. sret U64_MAX)
            | Some pr \<Rightarrow>
                sbind (on_current_as (shm_map_pages X (shm_flags mode) base_va 0 (shm_frames r)) pr) (\<lambda>ok.
                if \<not> ok then sbind (shm_unref handle) (\<lambda>_. sret U64_MAX)
                else sbind (supd (\<lambda>k. k \<lparr> shm_mappings := shm_mappings k @
                       [\<lparr> map_pid = p, map_handle = handle, map_base = base_va,
                          map_pages = length (shm_frames r) \<rparr>] \<rparr>)) (\<lambda>_. sret base_va))))))))"

definition swap_remove :: "nat \<Rightarrow> 'a list \<Rightarrow> 'a list" where
  "swap_remove i xs = (if Suc i = length xs then butlast xs else (butlast xs)[i := last xs])"

text \<open>One reference to a region is given back; the last one frees its frames and its handle.\<close>

definition shm_release :: "nat \<Rightarrow> (kernel, unit) op" where
  "shm_release h =
    sbind (sget (\<lambda>k. bt_get (shm_table k) h)) (\<lambda>ro.
      case ro of
        None \<Rightarrow> sret ()
      | Some r \<Rightarrow>
          (let refs = shm_refs r - 1 in
           sbind (supd (set_region h (r \<lparr> shm_refs := refs \<rparr>))) (\<lambda>_.
           if refs = 0 then
             sbind (on_km (sfor free_frame (shm_frames r))) (\<lambda>_.
             supd (\<lambda>k. k \<lparr> shm_table := bt_remove h (shm_table k) \<rparr>))
           else sret ())))"

definition mapping_index :: "pid \<Rightarrow> nat \<Rightarrow> shm_mapping list \<Rightarrow> nat option" where
  "mapping_index p base ms =
    List.find (\<lambda>i. map_pid (ms ! i) = p \<and> map_base (ms ! i) = base) [0..<length ms]"

definition sys_shm_unmap :: "x86_ops \<Rightarrow> nat \<Rightarrow> (kernel, nat) op" where
  "sys_shm_unmap X ptr =
    sbind (sget (\<lambda>k. mapping_index (current (ptab k)) ptr (shm_mappings k))) (\<lambda>io.
      case io of
        None \<Rightarrow> sret U64_MAX
      | Some i \<Rightarrow>
          sbind (sget (\<lambda>k. shm_mappings k ! i)) (\<lambda>m.
          sbind (supd (\<lambda>k. k \<lparr> shm_mappings := swap_remove i (shm_mappings k) \<rparr>)) (\<lambda>_.
          sbind (sget current_proc) (\<lambda>pr.
          sbind (case pr of None \<Rightarrow> sret ()
                 | Some pr \<Rightarrow> on_current_as (unmap_pages X (map_base m) (map_pages m)) pr) (\<lambda>_.
          sbind (shm_release (map_handle m)) (\<lambda>_. sret 0))))))"

section \<open>Mailboxes\<close>

definition mailbox :: "kernel \<Rightarrow> pid \<Rightarrow> ipc_frame list" where
  "mailbox k p = (case bt_get (mailboxes k) p of Some q \<Rightarrow> q | None \<Rightarrow> [])"

text \<open>The tail of \<open>sys_ipc_send\<close>, once the message has been read from the sender.\<close>

definition mailbox_push :: "pid \<Rightarrow> ipc_frame \<Rightarrow> (kernel, nat) op" where
  "mailbox_push target frame k =
    (let q = mailbox k target;
         k1 = k \<lparr> mailboxes := bt_insert target q (mailboxes k) \<rparr>
     in if MAX_QUEUED_PER_PID \<le> length q then (Ok U64_MAX, k1)
        else (Ok 0, k1 \<lparr> mailboxes := bt_insert target (q @ [frame]) (mailboxes k1) \<rparr>))"

definition mailbox_pop :: "pid \<Rightarrow> (kernel, ipc_frame option) op" where
  "mailbox_pop p k =
    (case bt_get (mailboxes k) p of
       Some (f # q) \<Rightarrow> (Ok (Some f), k \<lparr> mailboxes := bt_insert p q (mailboxes k) \<rparr>)
     | _ \<Rightarrow> (Ok None, k))"

definition cleanup_pid :: "pid \<Rightarrow> (kernel, unit) op" where
  "cleanup_pid p =
    sbind (supd (\<lambda>k. k \<lparr> mailboxes := bt_remove p (mailboxes k) \<rparr>)) (\<lambda>_.
    sbind (sget (\<lambda>k. filter (\<lambda>m. map_pid m = p) (shm_mappings k))) (\<lambda>owned.
    sbind (supd (\<lambda>k. k \<lparr> shm_mappings := filter (\<lambda>m. map_pid m \<noteq> p) (shm_mappings k) \<rparr>)) (\<lambda>_.
    sbind (sfor (\<lambda>m. shm_release (map_handle m)) owned) (\<lambda>_.
    supd (\<lambda>k. k \<lparr> shm_va_next := bt_remove p (shm_va_next k) \<rparr>)))))"

section \<open>Framebuffer ownership and the input queue\<close>

definition release_if_owner :: "pid \<Rightarrow> kernel \<Rightarrow> kernel" where
  "release_if_owner p k = (if fb_owner k = p then k \<lparr> fb_owner := 0, fb_va := 0 \<rparr> else k)"

text \<open>The lock-free queue of \<open>crossbeam\<close> is a parameter: \<open>aq_push\<close> answers whether the element was
  accepted.  \<open>fifo_of cap Q\<close> is what its documentation promises for a queue of capacity
  \<open>cap\<close>.\<close>

record 'a array_queue =
  aq_push :: "'a \<Rightarrow> 'a list \<Rightarrow> bool \<times> 'a list"
  aq_pop :: "'a list \<Rightarrow> 'a option \<times> 'a list"

definition fifo_of :: "nat \<Rightarrow> 'a array_queue \<Rightarrow> bool" where
  "fifo_of cap Q \<longleftrightarrow>
    (\<forall>x q. aq_push Q x q = (if length q < cap then (True, q @ [x]) else (False, q))) \<and>
    (\<forall>q. aq_pop Q q = (case q of [] \<Rightarrow> (None, []) | x # r \<Rightarrow> (Some x, r)))"

definition push_event :: "input_event array_queue \<Rightarrow> input_event \<Rightarrow> input_event list \<Rightarrow> input_event list" where
  "push_event Q evt q =
    (case aq_push Q evt q of
       (True, q') \<Rightarrow> q'
     | (False, q') \<Rightarrow> snd (aq_push Q evt (snd (aq_pop Q q'))))"

definition pop_event :: "input_event array_queue \<Rightarrow> input_event list \<Rightarrow> input_event option \<times> input_event list" where
  "pop_event Q q = aq_pop Q q"

end
