(* ===== verification/Process.thy ===== *)
theory Process
  imports Ipc
begin

text \<open>
  The process table and the scheduler (\<open>task/process.rs\<close>), the delivery of signals
  (\<open>task/signal.rs\<close>), the timer dispatcher (\<open>task/preempt.rs\<close>) and the exception handlers that
  decide the fate of a process (\<open>arch/x86_64/idt.rs\<close>).

  An operation that does not come back to its caller ends in a \<open>sched_out\<close>: the processor
  enters user mode with the registers given, returns to the saved kernel context, or halts.
  The boxes that Rust drops on the way (a process that is reaped, an address space abandoned
  by an early return) are dropped here as well.
\<close>

abbreviation USER_STACK_TOP :: nat where "USER_STACK_TOP \<equiv> 0x7ffffffff000"
abbreviation USER_STACK_PAGES :: nat where "USER_STACK_PAGES \<equiv> 16"
abbreviation (input) ROOT_UID :: nat where "ROOT_UID \<equiv> 0"
abbreviation (input) ROOT_GID :: nat where "ROOT_GID \<equiv> 0"

datatype sched_out = EnterUser u64 u64 u64 u64 u64 | KernelReturn | HltLoop

section \<open>The table\<close>

definition alloc_pid :: "(kernel, pid) op" where
  "alloc_pid k = (Ok (next_pid k mod 2 ^ 32), k \<lparr> next_pid := (next_pid k + 1) mod 2 ^ 64 \<rparr>)"

definition drop_process :: "process \<Rightarrow> (kernel, unit) op" where
  "drop_process pr k = (case drop_address_space (aspace pr, km k) of (r, (_, m)) \<Rightarrow> (r, k \<lparr> km := m \<rparr>))"

definition insert_process :: "process \<Rightarrow> (kernel, unit) op" where
  "insert_process pr k =
    (let old = proc_of (pid_of pr) k;
         k1 = (if pstate pr = Runnable then upd_ptab (push_runnable (pid_of pr)) k else k);
         k2 = upd_ptab (set_proc (pid_of pr) pr) k1
     in case old of None \<Rightarrow> (Ok (), k2) | Some o' \<Rightarrow> drop_process o' k2)"

definition make_runnable :: "pid \<Rightarrow> kernel \<Rightarrow> kernel" where
  "make_runnable p k =
    (case proc_of p k of
       Some pr \<Rightarrow>
         (case pstate pr of
            Zombie _ \<Rightarrow> k
          | _ \<Rightarrow> upd_ptab (push_runnable p) (upd_ptab (set_proc p (pr \<lparr> pstate := Runnable \<rparr>)) k))
     | None \<Rightarrow> k)"

fun pick_from :: "(pid, process) btree_map \<Rightarrow> pid list \<Rightarrow> pid option \<times> pid list" where
  "pick_from ps [] = (None, [])"
| "pick_from ps (p # q) =
    (case bt_get ps p of
       Some pr \<Rightarrow> if pstate pr = Runnable then (Some p, q) else pick_from ps q
     | None \<Rightarrow> pick_from ps q)"

definition pick_next :: "process_table \<Rightarrow> pid option \<times> process_table" where
  "pick_next t = (case pick_from (procs t) (runnable t) of (r, q) \<Rightarrow> (r, t \<lparr> runnable := q \<rparr>))"

definition proc_list :: "process_table \<Rightarrow> (pid \<times> pid \<times> bytes \<times> proc_state) list" where
  "proc_list t = map (\<lambda>p. (pid_of p, parent p, pname p, pstate p)) (bt_values (procs t))"

section \<open>Loading programs\<close>

text \<open>Run an operation on a local address space; an early return drops it.\<close>

definition with_space :: "address_space \<Rightarrow> (as_st, 'a) op \<Rightarrow> (kernel, 'a \<times> address_space) op" where
  "with_space a f k =
    (case f (a, km k) of
       (Ok x, (a', m)) \<Rightarrow> (Ok (x, a'), k \<lparr> km := m \<rparr>)
     | (Err e, (a', m)) \<Rightarrow>
         (case drop_address_space (a', m) of (r, (_, m')) \<Rightarrow> (rbind r (\<lambda>_. Err e), k \<lparr> km := m' \<rparr>))
     | (Panic, (a', m)) \<Rightarrow> (Panic, k \<lparr> km := m \<rparr>))"

definition user_trap_frame :: "nat \<Rightarrow> nat \<Rightarrow> kernel \<Rightarrow> trap_frame" where
  "user_trap_frame pc sp k = default_trap_frame
     \<lparr> rip := of_nat pc, rsp := of_nat sp, cs := user_cs k, ss := user_ss k, rflags := 0x202 \<rparr>"

definition inherited_ids :: "pid \<Rightarrow> kernel \<Rightarrow> nat \<times> nat \<times> nat \<times> nat" where
  "inherited_ids par k =
    (case proc_of par k of
       Some p \<Rightarrow> (uid p, gid p, euid p, egid p)
     | None \<Rightarrow> (ROOT_UID, ROOT_GID, ROOT_UID, ROOT_GID))"

definition spawn_from_elf :: "x86_ops \<Rightarrow> bytes \<Rightarrow> bytes \<Rightarrow> pid \<Rightarrow> (kernel, pid) op" where
  "spawn_from_elf X name elf_bytes par =
    sbind (on_km (new_user X)) (\<lambda>space0.
    sbind (with_space space0 (elf_load X elf_bytes)) (\<lambda>(loaded, space1).
    sbind (slift (virt_new X USER_STACK_TOP)) (\<lambda>top.
    sbind (with_space space1 (map_user_stack X top USER_STACK_PAGES)) (\<lambda>(rsp_user, space).
    sbind (sget (user_trap_frame (entry loaded) rsp_user)) (\<lambda>tf.
    sbind (sget (inherited_ids par)) (\<lambda>(u, g, eu, eg).
    sbind alloc_pid (\<lambda>p.
    sbind (insert_process
      \<lparr> pid_of = p, parent = par, pname = name, pstate = Runnable, aspace = space, trap = tf,
        signals = [], children_exited = [], uid = u, gid = g, euid = eu, egid = eg \<rparr>) (\<lambda>_.
    sret p))))))))"

definition exec_from_fs :: "x86_ops \<Rightarrow> bytes \<Rightarrow> pid \<Rightarrow> (kernel, pid) op" where
  "exec_from_fs X path par =
    sbind (sget (\<lambda>k. ramfs_read (fsys k) path)) (\<lambda>r.
      case r of
        Inr data \<Rightarrow> spawn_from_elf X path data par
      | Inl _ \<Rightarrow> serr ''exec: fichier introuvable'')"

definition fat_path :: "bytes \<Rightarrow> bytes" where
  "fat_path path = (case strip_prefix (str ''/fat'') path of Some p \<Rightarrow> p | None \<Rightarrow> path)"

definition exec_from_fat :: "x86_ops \<Rightarrow> bytes \<Rightarrow> pid \<Rightarrow> (kernel, pid) op" where
  "exec_from_fat X path par =
    sbind (sget fat) (\<lambda>fo.
    sbind (slift (ok_or ''exec: FAT32 non monte'' fo)) (\<lambda>f.
    sbind (sget (\<lambda>k. fat_read_file (dks k) f (fat_path path))) (\<lambda>r.
      case r of
        Ok data \<Rightarrow> spawn_from_elf X path data par
      | Err _ \<Rightarrow> serr ''exec: fichier introuvable''
      | Panic \<Rightarrow> slift Panic)))"

definition is_fat_path :: "bytes \<Rightarrow> bool" where
  "is_fat_path path \<longleftrightarrow> path = str ''/fat'' \<or> starts_with (str ''/fat/'') path"

definition exec_from_any :: "x86_ops \<Rightarrow> bytes \<Rightarrow> pid \<Rightarrow> (kernel, pid) op" where
  "exec_from_any X path par =
    (if is_fat_path path then exec_from_fat X path par
     else sbind (stry (exec_from_fs X path par)) (\<lambda>r.
       case r of Ok p \<Rightarrow> sret p | _ \<Rightarrow> exec_from_fat X path par))"

section \<open>The search path\<close>

definition default_exec_paths :: "bytes list" where
  "default_exec_paths = [str ''/'', str ''/bin'', str ''/fat'', str ''/fat/bin'']"

definition ensure_exec_paths :: "bytes list \<Rightarrow> bytes list" where
  "ensure_exec_paths ps = (if ps = [] then default_exec_paths else ps)"

definition push_exec_dir_unique :: "bytes \<Rightarrow> bytes list \<Rightarrow> bytes list" where
  "push_exec_dir_unique d ps = (if d \<in> set ps then ps else ps @ [d])"

function strip_slashes :: "bytes \<Rightarrow> bytes" where
  "strip_slashes p = (if 1 < length p \<and> last p = 0x2F then strip_slashes (butlast p) else p)"
  by pat_completeness auto
termination by (relation "measure length") auto

declare strip_slashes.simps [simp del]

definition normalize_exec_dir :: "bytes \<Rightarrow> bytes result" where
  "normalize_exec_dir dir =
    (let trimmed = trim dir
     in if trimmed = [] then Err ''path: repertoire vide''
        else Ok (strip_slashes (if hd trimmed = 0x2F then trimmed else 0x2F # trimmed)))"

definition join_exec_dir_and_name :: "bytes \<Rightarrow> bytes \<Rightarrow> bytes" where
  "join_exec_dir_and_name dir name = (if dir = str ''/'' then str ''/'' @ name else dir @ str ''/'' @ name)"

definition fat_has :: "kernel \<Rightarrow> bytes \<Rightarrow> bool result" where
  "fat_has k path =
    (case fat k of
       None \<Rightarrow> Ok False
     | Some f \<Rightarrow> (case fat_read_file (dks k) f path of Ok _ \<Rightarrow> Ok True | Err _ \<Rightarrow> Ok False | Panic \<Rightarrow> Panic))"

definition exec_candidate_exists :: "kernel \<Rightarrow> bytes \<Rightarrow> bool result" where
  "exec_candidate_exists k path =
    (if is_fat_path path then
       (if fat_path path = [] \<or> fat_path path = str ''/'' then Ok False else fat_has k (fat_path path))
     else (case ramfs_read (fsys k) path of Inr _ \<Rightarrow> Ok True | Inl _ \<Rightarrow> fat_has k path))"

definition exec_paths :: "(kernel, bytes list) op" where
  "exec_paths k = (let ps = ensure_exec_paths (exec_dirs k) in (Ok ps, k \<lparr> exec_dirs := ps \<rparr>))"

definition reset_exec_paths :: "kernel \<Rightarrow> kernel" where
  "reset_exec_paths k = k \<lparr> exec_dirs := ensure_exec_paths [] \<rparr>"

definition add_exec_path :: "bytes \<Rightarrow> (kernel, unit) op" where
  "add_exec_path dir =
    sbind (slift (normalize_exec_dir dir)) (\<lambda>d.
    supd (\<lambda>k. k \<lparr> exec_dirs := push_exec_dir_unique d (ensure_exec_paths (exec_dirs k)) \<rparr>))"

definition collect_dirs :: "bytes \<Rightarrow> bytes list result" where
  "collect_dirs spec =
    rfold (\<lambda>raw next.
        if trim raw = [] then Ok next
        else rbind (normalize_exec_dir (trim raw)) (\<lambda>d. Ok (push_exec_dir_unique d next)))
      (split_on 0x3A spec) []"

definition set_exec_paths_from_spec :: "bytes \<Rightarrow> (kernel, unit) op" where
  "set_exec_paths_from_spec spec =
    sbind (slift (collect_dirs spec)) (\<lambda>next.
    if next = [] then serr ''path: liste vide'' else supd (\<lambda>k. k \<lparr> exec_dirs := next \<rparr>))"

fun first_candidate :: "kernel \<Rightarrow> bytes \<Rightarrow> bytes list \<Rightarrow> bytes option result" where
  "first_candidate k name [] = Ok None"
| "first_candidate k name (d # ds) =
    rbind (exec_candidate_exists k (join_exec_dir_and_name d name)) (\<lambda>b.
    if b then Ok (Some (join_exec_dir_and_name d name)) else first_candidate k name ds)"

definition resolve_exec_path :: "bytes \<Rightarrow> (kernel, bytes option) op" where
  "resolve_exec_path path =
    (if 0x2F \<in> set path then
       sbind (sget (\<lambda>k. exec_candidate_exists k path)) (\<lambda>r. sbind (slift r) (\<lambda>b.
       sret (if b then Some path else None)))
     else sbind exec_paths (\<lambda>ds. sbind (sget (\<lambda>k. first_candidate k path ds)) slift))"

definition exec_from_search :: "x86_ops \<Rightarrow> bytes \<Rightarrow> pid \<Rightarrow> (kernel, pid) op" where
  "exec_from_search X path par =
    (if 0x2F \<in> set path then exec_from_any X path par
     else sbind (resolve_exec_path path) (\<lambda>r.
          sbind (slift (ok_or ''exec: binaire introuvable'' r)) (\<lambda>resolved.
          exec_from_any X resolved par)))"

section \<open>The life of a process\<close>

definition fork_return :: "pid \<Rightarrow> pid \<Rightarrow> kernel \<Rightarrow> kernel" where
  "fork_return cur child k =
    (case proc_of cur k of
       Some p \<Rightarrow> upd_ptab (set_proc cur (p \<lparr> trap := (trap p) \<lparr> rax := of_nat child \<rparr> \<rparr>)) k
     | None \<Rightarrow> k)"

definition fork :: "x86_ops \<Rightarrow> (kernel, pid) op" where
  "fork X =
    sbind (sget (\<lambda>k. current (ptab k))) (\<lambda>cur.
    sbind (sget (proc_of cur)) (\<lambda>po.
    sbind (slift (ok_or ''pas de process courant'' po)) (\<lambda>pr.
    sbind (on_km (clone_cow X (aspace pr))) (\<lambda>space.
    sbind alloc_pid (\<lambda>child.
    sbind (insert_process
      \<lparr> pid_of = child, parent = cur, pname = pname pr, pstate = Runnable, aspace = space,
        trap = (trap pr) \<lparr> rax := 0 \<rparr>, signals = [], children_exited = [],
        uid = uid pr, gid = gid pr, euid = euid pr, egid = egid pr \<rparr>) (\<lambda>_.
    sbind (supd (fork_return cur child)) (\<lambda>_. sret child)))))))"

definition schedule_next :: "(kernel, sched_out) op" where
  "schedule_next k =
    (case pick_next (ptab k) of
       (None, t) \<Rightarrow>
         (if return_ctx k then (Ok KernelReturn, k \<lparr> ptab := t, return_ctx := False \<rparr>)
          else (Ok HltLoop, k \<lparr> ptab := t \<rparr>))
     | (Some next, t) \<Rightarrow>
         (let k1 = k \<lparr> ptab := t \<lparr> current := next \<rparr> \<rparr> in
          case proc_of next k1 of
            None \<Rightarrow> (Panic, k1)
          | Some p \<Rightarrow>
              (Ok (EnterUser (rip (trap p)) (rsp (trap p)) (rflags (trap p)) (cs (trap p)) (ss (trap p))),
               k1 \<lparr> km := switch_cr3 (p4 (aspace p)) (km k1) \<rparr>)))"

text \<open>The bookkeeping of \<open>exit_current\<close> in the table: the zombie, and the parent told and woken.\<close>

definition bury :: "pid \<Rightarrow> u32 \<Rightarrow> process \<Rightarrow> kernel \<Rightarrow> kernel" where
  "bury p code pr k =
    (let k1 = upd_ptab (set_proc p (pr \<lparr> pstate := Zombie code \<rparr>)) k
     in case proc_of (parent pr) k1 of
          None \<Rightarrow> k1
        | Some par \<Rightarrow>
            (let par1 = par \<lparr> children_exited := children_exited par @ [(p, code)] \<rparr>
             in if pstate par = Sleeping
                then upd_ptab (push_runnable (parent pr))
                       (upd_ptab (set_proc (parent pr) (par1 \<lparr> pstate := Runnable \<rparr>)) k1)
                else upd_ptab (set_proc (parent pr) par1) k1))"

definition exit_current :: "u32 \<Rightarrow> (kernel, sched_out) op" where
  "exit_current code =
    sbind (sget (\<lambda>k. current (ptab k))) (\<lambda>dying.
    sbind (supd (release_if_owner dying)) (\<lambda>_.
    sbind (cleanup_pid dying) (\<lambda>_.
    sbind (sget (proc_of dying)) (\<lambda>po.
      case po of
        None \<Rightarrow> slift Panic
      | Some pr \<Rightarrow> sbind (supd (bury dying code pr)) (\<lambda>_. schedule_next)))))"

definition current_fault_kill :: "(kernel, sched_out) op" where
  "current_fault_kill = exit_current (- 1)"

definition wait_any :: "pid \<Rightarrow> (kernel, (pid \<times> u32) option) op" where
  "wait_any caller k =
    (case proc_of caller k of
       None \<Rightarrow> (Ok None, k)
     | Some p \<Rightarrow>
         (case children_exited p of
            (child, code) # rest \<Rightarrow>
              (let k1 = upd_ptab (set_proc caller (p \<lparr> children_exited := rest \<rparr>)) k;
                   k2 = upd_ptab (\<lambda>t. t \<lparr> procs := bt_remove child (procs t) \<rparr>) k1
               in case proc_of child k1 of
                    None \<Rightarrow> (Ok (Some (child, code)), k2)
                  | Some z \<Rightarrow> (case drop_process z k2 of (r, k3) \<Rightarrow> (rbind r (\<lambda>_. Ok (Some (child, code))), k3)))
          | [] \<Rightarrow> (Ok None, upd_ptab (set_proc caller (p \<lparr> pstate := Sleeping \<rparr>)) k)))"

definition kill :: "pid \<Rightarrow> sig \<Rightarrow> (kernel, unit) op" where
  "kill p s k =
    (case proc_of p k of
       None \<Rightarrow> (Err ''pid inconnu'', k)
     | Some pr \<Rightarrow>
         (let pr1 = pr \<lparr> signals := signals pr @ [s] \<rparr>
          in if pstate pr = Sleeping
             then (Ok (), upd_ptab (push_runnable p) (upd_ptab (set_proc p (pr1 \<lparr> pstate := Runnable \<rparr>)) k))
             else (Ok (), upd_ptab (set_proc p pr1) k)))"

section \<open>Preemption\<close>

definition save_current :: "trap_frame \<Rightarrow> kernel \<Rightarrow> kernel" where
  "save_current frame k =
    (let cur = current (ptab k)
     in if cur = 0 then k
        else case proc_of cur k of
          None \<Rightarrow> k
        | Some pr \<Rightarrow>
            (let k1 = upd_ptab (set_proc cur (pr \<lparr> trap := frame \<rparr>)) k
             in if pstate pr = Runnable then upd_ptab (push_runnable cur) k1 else k1))"

text \<open>The registers \<open>reschedule\<close> restores: all of them but the two segment bases and the padding slot.\<close>

definition load_frame :: "trap_frame \<Rightarrow> trap_frame \<Rightarrow> trap_frame" where
  "load_frame src frame = src \<lparr> gs_base := gs_base frame, fs_base := fs_base frame, tf_pad := tf_pad frame \<rparr>"

definition reschedule :: "trap_frame \<Rightarrow> (kernel, trap_frame) op" where
  "reschedule frame k0 =
    (let k = save_current frame k0
     in case pick_next (ptab k) of
          (None, t) \<Rightarrow> (Ok frame, k \<lparr> ptab := t \<rparr>)
        | (Some next, t) \<Rightarrow>
            (if next = current t then (Ok frame, k \<lparr> ptab := t \<rparr>)
             else let k1 = k \<lparr> ptab := t \<lparr> current := next \<rparr> \<rparr>
                  in case proc_of next k1 of
                       None \<Rightarrow> (Panic, k1)
                     | Some p \<Rightarrow> (Ok (load_frame (trap p) frame), k1 \<lparr> km := switch_cr3 (p4 (aspace p)) (km k1) \<rparr>)))"

definition deliver_pending :: "(kernel, sched_out option) op" where
  "deliver_pending k =
    (if current (ptab k) = 0 then (Ok None, k)
     else case current_proc k of
       None \<Rightarrow> (Ok None, k)
     | Some pr \<Rightarrow>
         (case signals pr of
            [] \<Rightarrow> (Ok None, k)
          | s # rest \<Rightarrow>
              sbind (exit_current (exit_code s)) (\<lambda>r. sret (Some r))
                (upd_ptab (set_proc (current (ptab k)) (pr \<lparr> signals := rest \<rparr>)) k)))"

datatype timer_out = Resume trap_frame | Leave sched_out

definition from_user :: "u64 \<Rightarrow> bool" where
  "from_user sel \<longleftrightarrow> unat sel mod 4 = 3"

definition on_timer :: "trap_frame \<Rightarrow> (kernel, timer_out) op" where
  "on_timer frame =
    sbind deliver_pending (\<lambda>r.
      case r of
        Some out \<Rightarrow> sret (Leave out)
      | None \<Rightarrow>
          if from_user (cs frame) then sbind (reschedule frame) (\<lambda>f. sret (Resume f))
          else sret (Resume frame))"

text \<open>\<open>run_until_all_exit\<close>: the shell hands the processor over and gets it back, with its own page
  table, when no process is runnable any more.\<close>

definition run_until_all_exit :: "(kernel, sched_out) op" where
  "run_until_all_exit k = schedule_next (k \<lparr> return_ctx := True \<rparr>)"

definition back_in_kernel :: "phys_frame \<Rightarrow> kernel \<Rightarrow> kernel" where
  "back_in_kernel kernel_p4 k = k \<lparr> km := switch_cr3 kernel_p4 (km k) \<rparr>"

section \<open>Exceptions\<close>

datatype trap_out = TrapReturn | TrapLeave sched_out

definition resolve_cow :: "x86_ops \<Rightarrow> nat \<Rightarrow> (kernel, unit) op" where
  "resolve_cow X addr k =
    (case try_resolve_cow X addr (map_option aspace (current_proc k), km k) of
       (r, (ao, m)) \<Rightarrow>
         (r, (case (current_proc k, ao) of
                (Some p, Some a) \<Rightarrow> upd_ptab (set_proc (current (ptab k)) (p \<lparr> aspace := a \<rparr>)) (k \<lparr> km := m \<rparr>)
              | _ \<Rightarrow> k \<lparr> km := m \<rparr>)))"

definition page_fault_handler :: "x86_ops \<Rightarrow> nat \<Rightarrow> u64 \<Rightarrow> bool \<Rightarrow> bool \<Rightarrow> (kernel, trap_out) op" where
  "page_fault_handler X addr sel caused_by_write protection =
    sbind (if caused_by_write \<and> protection then stry (resolve_cow X addr) else sret (Err ''not a write'')) (\<lambda>r.
      case r of
        Ok _ \<Rightarrow> sret TrapReturn
      | _ \<Rightarrow> if from_user sel then sbind current_fault_kill (\<lambda>out. sret (TrapLeave out))
             else sret (TrapLeave HltLoop))"

text \<open>\<open>gpf_handler\<close>, \<open>invalid_opcode_handler\<close> and \<open>stack_segment_fault_handler\<close>: a process is killed,
  a fault of the kernel itself panics.\<close>

definition fatal_fault :: "u64 \<Rightarrow> (kernel, trap_out) op" where
  "fatal_fault sel =
    (if from_user sel then sbind current_fault_kill (\<lambda>out. sret (TrapLeave out)) else slift Panic)"

end
