(* ===== verification/Syscalls.thy ===== *)
theory Syscalls
  imports Process
begin

text \<open>
  The system calls: the dispatcher and its handlers (\<open>syscall/mod.rs\<close>), the framebuffer and input calls
  (\<open>gfx/mod.rs\<close>), the message calls (\<open>ipc/mod.rs\<close>).

  \<^item> User memory.  A handler checks a user pointer with \<open>user_slice\<close> and then accesses it
    directly.  The processor's paging unit is the parameter \<open>mmu\<close>: an access succeeds or faults, and a
    fault of a handler runs the page-fault handler with the kernel's code selector.
  \<^item> Control.  A handler that returns gives \<open>Go n\<close>, the value for the caller.  \<open>Stop (Gone out)\<close>
    is a handler that left through the scheduler or a halt, \<open>Stop Spin\<close> one that is still
    waiting when the bound of its loop is used up.
  \<^item> Waiting.  A loop that yields takes the parameter \<open>rest\<close>: what interrupts and the other
    threads do to the kernel while this one has given up the processor.
\<close>

unbundle bit_operations_syntax

abbreviation USER_SPACE_MAX :: nat where "USER_SPACE_MAX \<equiv> 0x800000000000"
abbreviation KERNEL_CS :: u64 where "KERNEL_CS \<equiv> 8"
abbreviation FB_USER_VA :: nat where "FB_USER_VA \<equiv> 0x500000000000"
abbreviation NEWLINE :: u8 where "NEWLINE \<equiv> 10"

section \<open>Control\<close>

datatype sys_stop = Gone sched_out | Spin
datatype 'a flow = Go 'a | Stop sys_stop

definition fbind :: "(kernel, 'a flow) op \<Rightarrow> ('a \<Rightarrow> (kernel, 'b flow) op) \<Rightarrow> (kernel, 'b flow) op" where
  "fbind m f = sbind m (\<lambda>r. case r of Go x \<Rightarrow> f x | Stop e \<Rightarrow> sret (Stop e))"

definition fret :: "'a \<Rightarrow> (kernel, 'a flow) op" where
  "fret x = sret (Go x)"

definition flift :: "(kernel, 'a) op \<Rightarrow> (kernel, 'a flow) op" where
  "flift m = sbind m (\<lambda>x. sret (Go x))"

definition leave :: "(kernel, sched_out) op \<Rightarrow> (kernel, 'a flow) op" where
  "leave m = sbind m (\<lambda>r. sret (Stop (Gone r)))"

section \<open>User memory\<close>

datatype store_result = Stored kmem | Faulted bool

record mmu =
  mmu_load :: "kmem \<Rightarrow> nat \<Rightarrow> u8 option"
  mmu_store :: "kmem \<Rightarrow> nat \<Rightarrow> u8 \<Rightarrow> store_result"

definition user_slice :: "nat \<Rightarrow> nat \<Rightarrow> (nat \<times> nat) option" where
  "user_slice ptr len =
    (if ptr = 0 \<or> len = 0 then None
     else if 2 ^ 64 \<le> ptr + len then None
     else if USER_SPACE_MAX \<le> ptr + len then None
     else Some (ptr, len))"

text \<open>A fault of the kernel's own access.\<close>

definition kernel_fault :: "x86_ops \<Rightarrow> nat \<Rightarrow> bool \<Rightarrow> bool \<Rightarrow> (kernel, 'a flow) op \<Rightarrow> (kernel, 'a flow) op" where
  "kernel_fault X a wr prot again =
    sbind (page_fault_handler X a KERNEL_CS wr prot) (\<lambda>r.
      case r of TrapReturn \<Rightarrow> again | TrapLeave out \<Rightarrow> sret (Stop (Gone out)))"

primrec load_user :: "x86_ops \<Rightarrow> mmu \<Rightarrow> nat \<Rightarrow> nat \<Rightarrow> (kernel, bytes flow) op" where
  "load_user X M a 0 = fret []"
| "load_user X M a (Suc n) =
    sbind (sget (\<lambda>k. mmu_load M (km k) a)) (\<lambda>b.
      case b of
        Some b \<Rightarrow> fbind (load_user X M (a + 1) n) (\<lambda>bs. fret (b # bs))
      | None \<Rightarrow> kernel_fault X a False False (sret (Stop Spin)))"

text \<open>A store is tried again when the handler resolved the fault.  The handler removes the
  copy-on-write mark, so the retried store succeeds or its fault is not resolved again: three tries are enough.\<close>

primrec store_byte :: "x86_ops \<Rightarrow> mmu \<Rightarrow> nat \<Rightarrow> nat \<Rightarrow> u8 \<Rightarrow> (kernel, unit flow) op" where
  "store_byte X M 0 a b = sret (Stop Spin)"
| "store_byte X M (Suc n) a b =
    sbind (sget (\<lambda>k. mmu_store M (km k) a b)) (\<lambda>r.
      case r of
        Stored m \<Rightarrow> sbind (supd (\<lambda>k. k \<lparr> km := m \<rparr>)) fret
      | Faulted prot \<Rightarrow> kernel_fault X a True prot (store_byte X M n a b))"

primrec store_user :: "x86_ops \<Rightarrow> mmu \<Rightarrow> nat \<Rightarrow> bytes \<Rightarrow> (kernel, unit flow) op" where
  "store_user X M a [] = fret ()"
| "store_user X M a (b # bs) = fbind (store_byte X M 3 a b) (\<lambda>_. store_user X M (a + 1) bs)"

definition with_user_bytes :: "x86_ops \<Rightarrow> mmu \<Rightarrow> nat \<Rightarrow> nat \<Rightarrow> (bytes \<Rightarrow> (kernel, nat flow) op) \<Rightarrow> (kernel, nat flow) op" where
  "with_user_bytes X M ptr len f =
    (case user_slice ptr len of
       None \<Rightarrow> fret U64_MAX
     | Some (a, n) \<Rightarrow> fbind (load_user X M a n) f)"

section \<open>Identity\<close>

definition current_field :: "(process \<Rightarrow> nat) \<Rightarrow> (kernel, nat) op" where
  "current_field f = sget (\<lambda>k. case current_proc k of Some p \<Rightarrow> f p | None \<Rightarrow> U64_MAX)"

definition sys_getuid :: "(kernel, nat) op" where "sys_getuid = current_field uid"
definition sys_geteuid :: "(kernel, nat) op" where "sys_geteuid = current_field euid"
definition sys_getgid :: "(kernel, nat) op" where "sys_getgid = current_field gid"
definition sys_getegid :: "(kernel, nat) op" where "sys_getegid = current_field egid"

definition set_current :: "process \<Rightarrow> kernel \<Rightarrow> kernel" where
  "set_current p k = upd_ptab (set_proc (current (ptab k)) p) k"

definition sys_setuid :: "nat \<Rightarrow> (kernel, nat) op" where
  "sys_setuid new k =
    (case current_proc k of
       None \<Rightarrow> (Ok U64_MAX, k)
     | Some p \<Rightarrow>
         if euid p = ROOT_UID then (Ok 0, set_current (p \<lparr> uid := new, euid := new \<rparr>) k)
         else if new = uid p then (Ok 0, set_current (p \<lparr> euid := new \<rparr>) k)
         else (Ok U64_MAX, k))"

definition sys_setgid :: "nat \<Rightarrow> (kernel, nat) op" where
  "sys_setgid new k =
    (case current_proc k of
       None \<Rightarrow> (Ok U64_MAX, k)
     | Some p \<Rightarrow>
         if euid p = ROOT_UID then (Ok 0, set_current (p \<lparr> gid := new, egid := new \<rparr>) k)
         else if new = gid p then (Ok 0, set_current (p \<lparr> egid := new \<rparr>) k)
         else (Ok U64_MAX, k))"

section \<open>Input and output\<close>

definition print :: "bytes \<Rightarrow> (kernel, unit) op" where
  "print s = supd (\<lambda>k. k \<lparr> screen := screen k @ s \<rparr>)"

definition serial_print :: "bytes \<Rightarrow> (kernel, unit) op" where
  "serial_print s = supd (\<lambda>k. k \<lparr> serial := serial k @ s \<rparr>)"

definition sys_write :: "x86_ops \<Rightarrow> mmu \<Rightarrow> nat \<Rightarrow> nat \<Rightarrow> nat \<Rightarrow> (kernel, nat flow) op" where
  "sys_write X M fd buf len =
    with_user_bytes X M buf len (\<lambda>s.
      if \<not> utf8_valid s then fret U64_MAX
      else if fd = 1 then flift (sbind (print s) (\<lambda>_. sret len))
      else if fd = 2 then flift (sbind (serial_print s) (\<lambda>_. sret len))
      else fret U64_MAX)"

definition try_read_char :: "(kernel, nat option) op" where
  "try_read_char k =
    (case keyboard_q k of [] \<Rightarrow> (Ok None, k) | c # q \<Rightarrow> (Ok c, k \<lparr> keyboard_q := q \<rparr>))"

text \<open>The loop of \<open>sys_read\<close>: \<open>out\<close> is the user buffer, \<open>written\<close> the count of bytes in it.\<close>

primrec read_loop :: "x86_ops \<Rightarrow> mmu \<Rightarrow> (kernel \<Rightarrow> kernel) \<Rightarrow> nat \<Rightarrow> nat \<Rightarrow> nat \<Rightarrow> nat \<Rightarrow> (kernel, nat flow) op" where
  "read_loop X M rest 0 out len written = sret (Stop Spin)"
| "read_loop X M rest (Suc n) out len written =
    sbind try_read_char (\<lambda>co.
      case co of
        None \<Rightarrow> sbind (supd rest) (\<lambda>_. read_loop X M rest n out len written)
      | Some ch \<Rightarrow>
          if ch = 0x08 \<or> ch = 0x7f then
            (if 0 < written then
               sbind (print [0x08, 0x20, 0x08]) (\<lambda>_. read_loop X M rest n out len (written - 1))
             else read_loop X M rest n out len written)
          else
            sbind (print (utf8_encode ch)) (\<lambda>_.
            let b = (if ch = 0x0D then NEWLINE else of_nat ch) in
            if len \<le> written then slift Panic
            else fbind (store_byte X M 3 (out + written) b) (\<lambda>_.
              if b = NEWLINE \<or> len \<le> written + 1 then fret (written + 1)
              else read_loop X M rest n out len (written + 1))))"

definition sys_read :: "x86_ops \<Rightarrow> mmu \<Rightarrow> (kernel \<Rightarrow> kernel) \<Rightarrow> nat \<Rightarrow> nat \<Rightarrow> nat \<Rightarrow> nat \<Rightarrow> (kernel, nat flow) op" where
  "sys_read X M rest n fd buf len =
    (if fd \<noteq> 0 then fret U64_MAX
     else case user_slice buf len of
       None \<Rightarrow> fret U64_MAX
     | Some (out, len) \<Rightarrow> if len = 0 then fret 0 else read_loop X M rest n out len 0)"

definition sys_getpid :: "(kernel, nat) op" where
  "sys_getpid = sget (\<lambda>k. current (ptab k))"

definition sys_fs_read :: "x86_ops \<Rightarrow> mmu \<Rightarrow> nat \<Rightarrow> nat \<Rightarrow> nat \<Rightarrow> nat \<Rightarrow> (kernel, nat flow) op" where
  "sys_fs_read X M path_ptr path_len out_buf out_max =
    with_user_bytes X M path_ptr path_len (\<lambda>path.
      if \<not> utf8_valid path then fret U64_MAX
      else sbind (sget (\<lambda>k. ramfs_read (fsys k) path)) (\<lambda>r.
        case r of
          Inl _ \<Rightarrow> fret U64_MAX
        | Inr data \<Rightarrow>
            (case user_slice out_buf out_max of
               None \<Rightarrow> fret U64_MAX
             | Some (out, len) \<Rightarrow>
                 (let n = min (length data) len in
                  fbind (store_user X M out (take n data)) (\<lambda>_. fret n)))))"

primrec list_names :: "x86_ops \<Rightarrow> mmu \<Rightarrow> nat \<Rightarrow> nat \<Rightarrow> nat \<Rightarrow> bytes list \<Rightarrow> (kernel, nat flow) op" where
  "list_names X M out len written [] = fret written"
| "list_names X M out len written (name # names) =
    (if len < written + length name + 1 then fret written
     else fbind (store_user X M (out + written) (name @ [NEWLINE])) (\<lambda>_.
       list_names X M out len (written + (length name + 1)) names))"

definition sys_fs_list :: "x86_ops \<Rightarrow> mmu \<Rightarrow> nat \<Rightarrow> nat \<Rightarrow> (kernel, nat flow) op" where
  "sys_fs_list X M out_buf out_max =
    (case user_slice out_buf out_max of
       None \<Rightarrow> fret U64_MAX
     | Some (out, len) \<Rightarrow> sbind (sget (\<lambda>k. ramfs_list (fsys k))) (list_names X M out len 0))"

section \<open>Processes\<close>

text \<open>\<open>Ok\<close> becomes the value, \<open>Err\<close> becomes \<open>u64::MAX\<close>.\<close>

definition or_max :: "(kernel, nat) op \<Rightarrow> (kernel, nat) op" where
  "or_max m = sbind (stry m) (\<lambda>r. case r of Ok n \<Rightarrow> sret n | _ \<Rightarrow> sret U64_MAX)"

definition sys_fork :: "x86_ops \<Rightarrow> (kernel, nat) op" where
  "sys_fork X = or_max (fork X)"

definition sys_exec :: "x86_ops \<Rightarrow> mmu \<Rightarrow> nat \<Rightarrow> nat \<Rightarrow> (kernel, nat flow) op" where
  "sys_exec X M path_ptr path_len =
    with_user_bytes X M path_ptr path_len (\<lambda>path.
      if \<not> utf8_valid path then fret U64_MAX
      else sbind (sget (\<lambda>k. current (ptab k))) (\<lambda>par. flift (or_max (exec_from_search X path par))))"

definition sys_wait :: "(kernel, nat) op" where
  "sys_wait =
    sbind (sget (\<lambda>k. current (ptab k))) (\<lambda>caller.
    sbind (wait_any caller) (\<lambda>r.
      case r of Some (p, code) \<Rightarrow> sret (p * 2 ^ 32 + unat code) | None \<Rightarrow> sret U64_MAX))"

definition sys_kill :: "nat \<Rightarrow> nat \<Rightarrow> (kernel, nat) op" where
  "sys_kill p n =
    (case from_num (n mod 2 ^ 32) of
       None \<Rightarrow> sret U64_MAX
     | Some s \<Rightarrow> or_max (sbind (kill (p mod 2 ^ 32) s) (\<lambda>_. sret 0)))"

primrec sleep_loop :: "(kernel \<Rightarrow> kernel) \<Rightarrow> nat \<Rightarrow> nat \<Rightarrow> nat \<Rightarrow> (kernel, nat flow) op" where
  "sleep_loop rest 0 start ms = sret (Stop Spin)"
| "sleep_loop rest (Suc n) start ms =
    sbind (sget uptime) (\<lambda>now. sbind (slift (csub now start)) (\<lambda>d.
    if d < ms then sbind (supd rest) (\<lambda>_. sleep_loop rest n start ms) else fret 0))"

definition sys_sleep_ms :: "(kernel \<Rightarrow> kernel) \<Rightarrow> nat \<Rightarrow> nat \<Rightarrow> (kernel, nat flow) op" where
  "sys_sleep_ms rest n ms = sbind (sget uptime) (\<lambda>start. sleep_loop rest n start ms)"

definition sys_brk :: "nat \<Rightarrow> (kernel, nat) op" where
  "sys_brk a = sret 0"

section \<open>Framebuffer and input\<close>

record fb_info_abi =
  info_ptr :: nat
  info_len :: nat
  info_width :: nat
  info_height :: nat
  info_pitch :: nat
  info_format :: nat
  info_caps :: nat
  info_reserved :: nat

definition fb_info_bytes :: "fb_info_abi \<Rightarrow> bytes" where
  "fb_info_bytes i = le_bytes 8 (info_ptr i) @ le_bytes 8 (info_len i) @ le_bytes 4 (info_width i) @
     le_bytes 4 (info_height i) @ le_bytes 4 (info_pitch i) @ le_bytes 4 (info_format i) @
     le_bytes 4 (info_caps i) @ le_bytes 4 (info_reserved i)"

text \<open>The backing frames of the shared back buffer: taken on the first acquisition only.\<close>

definition backbuf_frames :: "nat \<Rightarrow> nat \<Rightarrow> (kernel, bool) op" where
  "backbuf_frames buffer_len pages =
    sbind (sget fb_frames) (\<lambda>frames.
    if frames \<noteq> [] then sret True
    else sbind (on_km (alloc_or_rollback alloc_zeroed_frame free_frame pages [])) (\<lambda>r.
      case r of
        None \<Rightarrow> sbind (supd (\<lambda>k. k \<lparr> fb_owner := 0 \<rparr>)) (\<lambda>_. sret False)
      | Some fs \<Rightarrow> sbind (supd (\<lambda>k. k \<lparr> fb_frames := fs, fb_len := buffer_len \<rparr>)) (\<lambda>_. sret True)))"

primrec map_backbuf :: "x86_ops \<Rightarrow> nat \<Rightarrow> phys_frame list \<Rightarrow> (as_st, unit) op" where
  "map_backbuf X i [] = sret ()"
| "map_backbuf X i (pa # fs) =
    sbind (slift (rbind (cmul 64 i 4096) (cadd 64 FB_USER_VA))) (\<lambda>va.
    sbind (slift (virt_new X va)) (\<lambda>va.
    sbind (stry (as_map_to X (align_down 4096 va) pa (PRESENT OR WRITABLE OR USER_ACCESSIBLE))) (\<lambda>_.
    map_backbuf X (Suc i) fs)))"

definition sys_fb_acquire :: "x86_ops \<Rightarrow> mmu \<Rightarrow> nat \<Rightarrow> (kernel, nat flow) op" where
  "sys_fb_acquire X M out_ptr =
    sbind (sget (\<lambda>k. current (ptab k))) (\<lambda>caller.
    sbind (sget fb_owner) (\<lambda>prev.
    if prev \<noteq> 0 \<and> prev \<noteq> caller then fret U64_MAX
    else sbind (supd (\<lambda>k. k \<lparr> fb_owner := caller \<rparr>)) (\<lambda>_.
    sbind (sget fbdev) (\<lambda>fo.
      case fo of
        None \<Rightarrow> fret U64_MAX
      | Some f \<Rightarrow>
          sbind (slift (pitch_bytes f)) (\<lambda>pitch.
          let len = pitch * fheight f; pages = (len + 4095) div 4096 in
          sbind (backbuf_frames len pages) (\<lambda>ok.
          if \<not> ok then fret U64_MAX
          else sbind (sget fb_frames) (\<lambda>frames.
          sbind (sget current_proc) (\<lambda>po.
            case po of
              None \<Rightarrow> sbind (supd (\<lambda>k. k \<lparr> fb_owner := 0 \<rparr>)) (\<lambda>_. fret U64_MAX)
            | Some pr \<Rightarrow>
                sbind (on_current_as (map_backbuf X 0 frames) pr) (\<lambda>_.
                sbind (supd (\<lambda>k. k \<lparr> fb_va := FB_USER_VA \<rparr>)) (\<lambda>_.
                  case user_slice out_ptr 40 of
                    None \<Rightarrow> fret U64_MAX
                  | Some (a, _) \<Rightarrow>
                      fbind (store_user X M a (fb_info_bytes
                        \<lparr> info_ptr = FB_USER_VA, info_len = len, info_width = fwidth f,
                          info_height = fheight f, info_pitch = pitch, info_format = 0, info_caps = 8,
                          info_reserved = 0 \<rparr>)) (\<lambda>_. fret 0)))))))))))"

text \<open>The copy of the shared back buffer into the driver: \<open>i\<close> counts the frames, \<open>copied\<close> the bytes.\<close>

definition blit_word :: "mem \<Rightarrow> nat \<Rightarrow> nat \<Rightarrow> nat \<Rightarrow> nat \<Rightarrow> fb \<Rightarrow> fb result" where
  "blit_word m pa i pitch j f =
    (let pixel_index = (i * 4096 + j * 4) div 4 in
     if pitch = 0 then Panic
     else let y = pixel_index div pitch mod 2 ^ 32; x = pixel_index mod pitch in
       if y < fheight f \<and> x < fwidth f then put_pixel x y (of_nat (read_u32 m (pa + 4 * j))) f else Ok f)"

primrec blit_frames :: "mem \<Rightarrow> nat \<Rightarrow> nat \<Rightarrow> nat \<Rightarrow> nat \<Rightarrow> phys_frame list \<Rightarrow> fb \<Rightarrow> fb result" where
  "blit_frames m pitch len i copied [] f = Ok f"
| "blit_frames m pitch len i copied (pa # fs) f =
    rbind (csub len copied) (\<lambda>left.
    let n = min 4096 left in
    rbind (rfold (blit_word m pa i pitch) [0..<n div 4] f)
      (blit_frames m pitch len (Suc i) (copied + n) fs))"

definition blit_backbuf :: "kernel \<Rightarrow> kernel result" where
  "blit_backbuf k = (case fbdev k of
      None \<Rightarrow> Ok k
    | Some f \<Rightarrow> rbind (pitch_bytes f) (\<lambda>pb.
        rbind (blit_frames (pm (km k)) (pb div 4) (fb_len k) 0 0 (fb_frames k) f) (\<lambda>f.
        rbind (commit f) (\<lambda>f. rbind (present (f, gpu k)) (\<lambda>(f, g).
        Ok (k \<lparr> fbdev := Some f, gpu := g \<rparr>))))))"

definition sys_fb_present :: "x86_ops \<Rightarrow> mmu \<Rightarrow> nat \<Rightarrow> (kernel, nat flow) op" where
  "sys_fb_present X M rect_ptr =
    sbind (sget (\<lambda>k. current (ptab k))) (\<lambda>caller.
    sbind (sget fb_owner) (\<lambda>owner.
    if owner \<noteq> caller then fret U64_MAX
    else
      let blit = sbind (sget blit_backbuf) (\<lambda>r. sbind (slift r) (\<lambda>k'. sbind (supd (\<lambda>_. k')) (\<lambda>_. fret 0)))
      in if rect_ptr = 0 then blit else with_user_bytes X M rect_ptr 16 (\<lambda>_. blit)))"

definition event_bytes :: "input_event \<Rightarrow> bytes" where
  "event_bytes e = le_bytes 4 (ev_kind e) @ le_bytes 4 0 @ le_bytes 8 (ev_timestamp e) @
     le_bytes 4 (ev_scancode e) @ le_bytes 4 (ev_keysym e) @ le_bytes 4 (ev_mods e) @ le_bytes 4 0 @
     le_bytes 4 (unat (ev_mouse_x e)) @ le_bytes 4 (unat (ev_mouse_y e)) @
     le_bytes 4 (unat (ev_mouse_dx e)) @ le_bytes 4 (unat (ev_mouse_dy e)) @
     le_bytes 4 (ev_buttons e) @ le_bytes 4 (unat (ev_wheel e))"

text \<open>Each turn takes an event from the queue, which nobody fills meanwhile: as many turns as the
  queue has events, and one more, are enough.\<close>

primrec poll_loop :: "x86_ops \<Rightarrow> mmu \<Rightarrow> input_event array_queue \<Rightarrow> nat \<Rightarrow> nat \<Rightarrow> nat \<Rightarrow> nat \<Rightarrow> (kernel, nat flow) op" where
  "poll_loop X M Q 0 dst mx written = sret (Stop Spin)"
| "poll_loop X M Q (Suc n) dst mx written =
    (if mx \<le> written then fret written
     else sbind (sget (\<lambda>k. pop_event Q (input_q k))) (\<lambda>(eo, q).
       sbind (supd (\<lambda>k. k \<lparr> input_q := q \<rparr>)) (\<lambda>_.
       case eo of
         None \<Rightarrow> fret written
       | Some e \<Rightarrow> fbind (store_user X M (dst + written * 56) (event_bytes e)) (\<lambda>_.
           poll_loop X M Q n dst mx (written + 1)))))"

definition sys_input_poll :: "x86_ops \<Rightarrow> mmu \<Rightarrow> input_event array_queue \<Rightarrow> nat \<Rightarrow> nat \<Rightarrow> (kernel, nat flow) op" where
  "sys_input_poll X M Q buf_ptr mx =
    sbind (sget (\<lambda>k. current (ptab k))) (\<lambda>caller.
    sbind (sget fb_owner) (\<lambda>owner.
    if owner \<noteq> caller then fret U64_MAX
    else if 2 ^ 64 \<le> mx * 56 then fret U64_MAX
    else case user_slice buf_ptr (mx * 56) of
      None \<Rightarrow> fret U64_MAX
    | Some (dst, _) \<Rightarrow> sbind (sget (\<lambda>k. length (input_q k))) (\<lambda>n. poll_loop X M Q (Suc n) dst mx 0)))"

section \<open>Messages\<close>

definition sys_ipc_send :: "x86_ops \<Rightarrow> mmu \<Rightarrow> nat \<Rightarrow> nat \<Rightarrow> nat \<Rightarrow> (kernel, nat flow) op" where
  "sys_ipc_send X M target msg_ptr msg_len =
    (if msg_len = 0 \<or> MAX_MSG < msg_len then fret U64_MAX
     else case user_slice msg_ptr msg_len of
       None \<Rightarrow> fret U64_MAX
     | Some (a, n) \<Rightarrow>
         sbind (sget (\<lambda>k. current (ptab k))) (\<lambda>s.
         sbind (sget (\<lambda>k. length (mailbox k (target mod 2 ^ 32)))) (\<lambda>q.
         if MAX_QUEUED_PER_PID \<le> q then flift (mailbox_push (target mod 2 ^ 32) \<lparr> sender = s, payload = [] \<rparr>)
         else fbind (load_user X M a n) (\<lambda>bs.
           flift (mailbox_push (target mod 2 ^ 32) \<lparr> sender = s, payload = bs \<rparr>)))))"

primrec recv_loop :: "x86_ops \<Rightarrow> mmu \<Rightarrow> (kernel \<Rightarrow> kernel) \<Rightarrow> nat \<Rightarrow> pid \<Rightarrow> nat \<Rightarrow> nat \<Rightarrow> nat \<Rightarrow> (kernel, nat flow) op" where
  "recv_loop X M rest 0 me buf mx out = sret (Stop Spin)"
| "recv_loop X M rest (Suc i) me buf mx out =
    sbind (mailbox_pop me) (\<lambda>fo.
      case fo of
        None \<Rightarrow> sbind (supd rest) (\<lambda>_. recv_loop X M rest i me buf mx out)
      | Some frame \<Rightarrow>
          (let n = min (length (payload frame)) mx in
           case user_slice buf n of
             None \<Rightarrow> fret U64_MAX
           | Some (a, _) \<Rightarrow>
               fbind (store_user X M a (take n (payload frame))) (\<lambda>_.
               if out = 0 then fret n
               else case user_slice out 8 of
                 None \<Rightarrow> fret U64_MAX
               | Some (b, _) \<Rightarrow> fbind (store_user X M b (le_bytes 8 (sender frame))) (\<lambda>_. fret n))))"

definition sys_ipc_recv :: "x86_ops \<Rightarrow> mmu \<Rightarrow> (kernel \<Rightarrow> kernel) \<Rightarrow> nat \<Rightarrow> nat \<Rightarrow> nat \<Rightarrow> nat \<Rightarrow> (kernel, nat flow) op" where
  "sys_ipc_recv X M rest i buf mx out =
    (if mx = 0 then fret U64_MAX
     else sbind (sget (\<lambda>k. current (ptab k))) (\<lambda>me. recv_loop X M rest i me buf mx out))"

section \<open>The dispatcher\<close>

definition syscall_dispatch :: "x86_ops \<Rightarrow> mmu \<Rightarrow> input_event array_queue \<Rightarrow> (kernel \<Rightarrow> kernel) \<Rightarrow> nat
    \<Rightarrow> nat \<Rightarrow> nat \<Rightarrow> nat \<Rightarrow> nat \<Rightarrow> nat \<Rightarrow> (kernel, nat flow) op" where
  "syscall_dispatch X M Q rest fuel nr a1 a2 a3 a4 =
    sbind (supd (\<lambda>k. k \<lparr> syscall_count := (syscall_count k + 1) mod 2 ^ 64 \<rparr>)) (\<lambda>_.
    if nr = 1 then sys_write X M a1 a2 a3
    else if nr = 2 then sys_read X M rest fuel a1 a2 a3
    else if nr = 3 then leave (exit_current (of_nat a1))
    else if nr = 4 then flift sys_getpid
    else if nr = 5 then flift (sget uptime)
    else if nr = 10 then sys_fs_read X M a1 a2 a3 a4
    else if nr = 11 then sys_fs_list X M a1 a2
    else if nr = 20 then flift (sys_fork X)
    else if nr = 21 then sys_exec X M a1 a2
    else if nr = 22 then flift sys_wait
    else if nr = 23 then flift (sys_kill a1 a2)
    else if nr = 24 then flift (sbind (supd rest) (\<lambda>_. sret 0))
    else if nr = 25 then sys_sleep_ms rest fuel a1
    else if nr = 26 then flift (sys_brk a1)
    else if nr = 30 then flift sys_getuid
    else if nr = 31 then flift sys_geteuid
    else if nr = 32 then flift sys_getgid
    else if nr = 33 then flift sys_getegid
    else if nr = 34 then flift (sys_setuid (a1 mod 2 ^ 32))
    else if nr = 35 then flift (sys_setgid (a1 mod 2 ^ 32))
    else if nr = 40 then sys_fb_acquire X M a1
    else if nr = 41 then sys_fb_present X M a1
    else if nr = 42 then sys_input_poll X M Q a1 a2
    else if nr = 43 then flift (sys_shm_create a1)
    else if nr = 44 then flift (sys_shm_map X a1 (of_nat a2))
    else if nr = 45 then flift (sys_shm_unmap X a1)
    else if nr = 46 then sys_ipc_send X M a1 a2 a3
    else if nr = 47 then sys_ipc_recv X M rest fuel a1 a2 a3
    else fret U64_MAX)"

end
