(* ===== verification/Step_Relations.thy ===== *)
theory Step_Relations
  imports Syscalls
begin

text \<open>
  How an operation may change the state, as a reflexive and transitive relation, and the rules that
  carry such a relation through the operations of the kernel.

  \<open>step_rel\<close> is the contract of any such relation: it is preserved by the combinators operations are
  built with.  \<open>table_rel\<close> extends it for relations on the process table and the counter of process
  identifiers: it asks for the few primitives that change the table, and gives the whole system-call
  interface in return.
\<close>

section \<open>Operations and relations\<close>

definition keeps :: "('s \<Rightarrow> 's \<Rightarrow> bool) \<Rightarrow> ('s, 'a) op \<Rightarrow> bool" where
  "keeps R m \<longleftrightarrow> (\<forall>s. R s (snd (m s)))"

lemma keepsD: "keeps R m \<Longrightarrow> m s = (r, t) \<Longrightarrow> R s t"
  unfolding keeps_def by (metis snd_conv)

lemma keepsI: "(\<And>s r t. m s = (r, t) \<Longrightarrow> R s t) \<Longrightarrow> keeps R m"
  unfolding keeps_def by (metis prod.collapse)

lemma keeps_case_prod: "(\<And>a b. keeps R (f a b)) \<Longrightarrow> keeps R (case x of (a, b) \<Rightarrow> f a b)"
  by (cases x) simp

locale step_rel =
  fixes R :: "'s \<Rightarrow> 's \<Rightarrow> bool"
  assumes rel_refl: "R s s" and rel_trans: "R s t \<Longrightarrow> R t u \<Longrightarrow> R s u"
begin

lemma keeps_pure: "keeps R (sret x)" "keeps R (serr e)" "keeps R (slift r)" "keeps R (sget f)"
  by (simp_all add: keeps_def sret_def serr_def slift_def sget_def rel_refl)

lemma keeps_supd: "(\<And>s. R s (f s)) \<Longrightarrow> keeps R (supd f)"
  by (simp add: keeps_def supd_def)

lemma keeps_sbind:
  assumes "keeps R m" "\<And>x. keeps R (f x)"
  shows "keeps R (sbind m f)"
proof (rule keepsI)
  fix s r t assume run: "sbind m f s = (r, t)"
  obtain q u where q: "m s = (q, u)" by (cases "m s")
  then have u: "R s u" using assms(1) keepsD by metis
  show "R s t"
  proof (cases q)
    case (Ok x)
    then have "f x u = (r, t)" using run q by (simp add: sbind_def)
    then show ?thesis using u keepsD[OF assms(2)] rel_trans by blast
  qed (use run q u in \<open>auto simp: sbind_def\<close>)
qed

lemma keeps_sget_bind: "(\<And>x. keeps R (f x)) \<Longrightarrow> keeps R (sbind (sget g) f)"
  by (rule keeps_sbind) (simp_all add: keeps_pure)

lemma keeps_stry: "keeps R m \<Longrightarrow> keeps R (stry m)"
  by (auto simp: keeps_def stry_def split: prod.splits result.splits) (metis snd_conv)+

lemma keeps_sfor: "(\<And>x. keeps R (f x)) \<Longrightarrow> keeps R (sfor f xs)"
  by (induction xs) (auto intro: keeps_sbind keeps_pure)

end

section \<open>Relations on the process table\<close>

text \<open>The part of the kernel that scheduling and identity depend on.\<close>

definition tab :: "kernel \<Rightarrow> process_table \<times> nat" where
  "tab k = (ptab k, next_pid k)"

definition on_tab :: "(process_table \<times> nat \<Rightarrow> process_table \<times> nat \<Rightarrow> bool) \<Rightarrow> kernel \<Rightarrow> kernel \<Rightarrow> bool" where
  "on_tab T k k' \<longleftrightarrow> T (tab k) (tab k')"

text \<open>The operations outside this theory that touch nothing of the table.\<close>

definition same_tab :: "('a \<times> 'b \<Rightarrow> 'a \<times> 'b \<Rightarrow> bool)" where
  "same_tab s t \<longleftrightarrow> s = t"

lemma tab_updates [simp]:
  "tab (k \<lparr> km := m \<rparr>) = tab k" "tab (k \<lparr> shm_table := a \<rparr>) = tab k" "tab (k \<lparr> shm_mappings := b \<rparr>) = tab k"
  "tab (k \<lparr> shm_va_next := c \<rparr>) = tab k" "tab (k \<lparr> next_handle := d \<rparr>) = tab k"
  "tab (k \<lparr> mailboxes := e \<rparr>) = tab k" "tab (k \<lparr> fb_owner := f \<rparr>) = tab k" "tab (k \<lparr> fb_frames := g \<rparr>) = tab k"
  "tab (k \<lparr> fb_va := h \<rparr>) = tab k" "tab (k \<lparr> fb_len := i \<rparr>) = tab k" "tab (k \<lparr> fbdev := j \<rparr>) = tab k"
  "tab (k \<lparr> gpu := l \<rparr>) = tab k" "tab (k \<lparr> input_q := n \<rparr>) = tab k" "tab (k \<lparr> keyboard_q := p \<rparr>) = tab k"
  "tab (k \<lparr> screen := q \<rparr>) = tab k" "tab (k \<lparr> serial := r \<rparr>) = tab k" "tab (k \<lparr> syscall_count := s \<rparr>) = tab k"
  "tab (k \<lparr> exec_dirs := t \<rparr>) = tab k" "tab (k \<lparr> return_ctx := u \<rparr>) = tab k"
  "tab (upd_ptab v k) = (v (ptab k), next_pid k)"
  by (simp_all add: tab_def upd_ptab_def)

lemma tab_set_region [simp]: "tab (set_region h r k) = tab k"
  by (simp add: set_region_def)

lemma sbind_option_case:
  "sbind (case v of None \<Rightarrow> sret () | Some x \<Rightarrow> m x) g = (case v of None \<Rightarrow> g () | Some x \<Rightarrow> sbind (m x) g)"
  by (cases v) (auto simp: sbind_def sret_def)

lemma tab_cong: "ptab k' = ptab k \<Longrightarrow> next_pid k' = next_pid k \<Longrightarrow> tab k' = tab k"
  by (simp add: tab_def)

text \<open>Spawning never changes which process runs.\<close>

lemma drop_process_tab: "drop_process pr k = (r, k') \<Longrightarrow> tab k' = tab k"
  by (auto simp: drop_process_def split: prod.splits)

lemma on_km_tab: "on_km m k = (r, k') \<Longrightarrow> tab k' = tab k"
  by (auto simp: on_km_def split: prod.splits)

lemma with_space_tab: "with_space a f k = (r, k') \<Longrightarrow> tab k' = tab k"
  by (auto simp: with_space_def split: prod.splits result.splits)

locale table_rel =
  fixes T :: "process_table \<times> nat \<Rightarrow> process_table \<times> nat \<Rightarrow> bool"
  assumes T_refl: "T s s" and T_trans: "T s1 s2 \<Longrightarrow> T s2 s3 \<Longrightarrow> T s1 s3"
    and T_next: "T (t, n) (t, n')"
    and T_current: "bt_get (procs t) (current t) = Some pr \<Longrightarrow>
      T (t, n) (set_proc (current t) (pr \<lparr> aspace := a, trap := f \<rparr>) t, n)"
    and T_child: "pstate pr = Runnable \<Longrightarrow>
      (\<And>par. bt_get (procs t) (current t) = Some par \<Longrightarrow> uid pr = uid par \<and> euid pr = euid par) \<Longrightarrow>
      T (t, n) (set_proc (pid_of pr) pr (push_runnable (pid_of pr) t), n)"
    and T_signal: "bt_get (procs t) p = Some pr \<Longrightarrow> T (t, n) (set_proc p (pr \<lparr> signals := sigs \<rparr>) t, n)"
    and T_wake: "bt_get (procs t) p = Some pr \<Longrightarrow> pstate pr = Sleeping \<Longrightarrow>
      T (t, n) (push_runnable p (set_proc p (pr \<lparr> signals := sigs, pstate := Runnable \<rparr>) t), n)"
    and T_setuid: "keeps (on_tab T) (sys_setuid u)"
    and T_setgid: "keeps (on_tab T) (sys_setgid g)"

text \<open>A relation that only speaks about operations run while \<open>par\<close> is the current process.\<close>

definition while_current :: "(kernel \<Rightarrow> kernel \<Rightarrow> bool) \<Rightarrow> pid \<Rightarrow> kernel \<Rightarrow> kernel \<Rightarrow> bool" where
  "while_current R par k k' \<longleftrightarrow> (current (ptab k) = par \<longrightarrow> R k k' \<and> current (ptab k') = par)"

sublocale table_rel \<subseteq> step_rel "on_tab T"
  by unfold_locales (auto simp: on_tab_def intro: T_refl T_trans)

sublocale table_rel \<subseteq> running: step_rel "while_current (on_tab T) par" for par
  by unfold_locales (auto simp: while_current_def on_tab_def intro: T_refl T_trans)

context table_rel
begin

lemma R_same: "tab k' = tab k \<Longrightarrow> on_tab T k k'"
  by (simp add: on_tab_def T_refl)

lemma keeps_same: "(\<And>k r k'. m k = (r, k') \<Longrightarrow> tab k' = tab k) \<Longrightarrow> keeps (on_tab T) m"
  by (rule keepsI) (blast intro: R_same)

lemma keeps_on_km: "keeps (on_tab T) (on_km m)"
  by (rule keeps_same) (rule on_km_tab)

lemma keeps_supd_same: "(\<And>k. tab (f k) = tab k) \<Longrightarrow> keeps (on_tab T) (supd f)"
  by (rule keeps_supd) (blast intro: R_same)

lemma R_set_current_aspace:
  assumes "current_proc k = Some p"
  shows "on_tab T k (upd_ptab (set_proc (current (ptab k)) (p \<lparr> aspace := a \<rparr>)) k)"
  using T_current[of "ptab k" p "next_pid k" "trap p" a] assms
  by (simp add: on_tab_def current_proc_def proc_of_def) (simp add: tab_def)

lemma keeps_on_current_as:
  assumes "current_proc k = Some p"
  shows "on_current_as f p k = (r, k') \<Longrightarrow> on_tab T k k'"
  using R_set_current_aspace[of "k \<lparr> km := m \<rparr>" p for m] assms
  by (auto simp: on_current_as_def on_tab_def current_proc_def proc_of_def split: prod.splits)

lemma keeps_current_as:
  assumes "\<And>x. keeps (on_tab T) (g x)" "keeps (on_tab T) h"
  shows "keeps (on_tab T) (sbind (sget current_proc) (\<lambda>po. case po of None \<Rightarrow> h | Some p \<Rightarrow> sbind (on_current_as f p) g))"
proof (rule keepsI)
  fix k r k'
  assume run: "sbind (sget current_proc) (\<lambda>po. case po of None \<Rightarrow> h | Some p \<Rightarrow> sbind (on_current_as f p) g) k = (r, k')"
  show "on_tab T k k'"
  proof (cases "current_proc k")
    case None
    then show ?thesis using run assms(2) keepsD by (fastforce simp: sbind_def sget_def)
  next
    case (Some p)
    obtain q u where q: "on_current_as f p k = (q, u)" by (cases "on_current_as f p k")
    have ku: "on_tab T k u" by (rule keeps_on_current_as[OF Some q])
    have "sbind (on_current_as f p) g k = (r, k')" using run Some by (simp add: sbind_def sget_def)
    then consider x where "q = Ok x" "g x u = (r, k')" | "k' = u"
      using q by (cases q) (auto simp: sbind_def)
    then show ?thesis using ku keepsD[OF assms(1)] rel_trans by cases blast+
  qed
qed

lemmas keeps_basic = keeps_pure keeps_sbind keeps_stry keeps_sfor keeps_on_km keeps_supd_same

lemma keeps_fbind: "keeps (on_tab T) m \<Longrightarrow> (\<And>x. keeps (on_tab T) (f x)) \<Longrightarrow> keeps (on_tab T) (fbind m f)"
  unfolding fbind_def by (intro keeps_sbind) (auto intro: keeps_pure split: flow.split)

lemma keeps_flow: "keeps (on_tab T) (fret x)" "keeps (on_tab T) m \<Longrightarrow> keeps (on_tab T) (flift m)"
  "keeps (on_tab T) mo \<Longrightarrow> keeps (on_tab T) (leave mo)"
  by (auto simp: fret_def flift_def leave_def intro!: keeps_sbind keeps_pure)

subsection \<open>User memory\<close>

lemma keeps_resolve_cow: "keeps (on_tab T) (resolve_cow X addr)"
proof (rule keepsI)
  fix k r k' assume run: "resolve_cow X addr k = (r, k')"
  obtain q ao m where q: "try_resolve_cow X addr (map_option aspace (current_proc k), km k) = (q, (ao, m))"
    by (metis prod.exhaust)
  show "on_tab T k k'"
  proof (cases "current_proc k")
    case None
    then show ?thesis using run q by (auto simp: resolve_cow_def intro: R_same)
  next
    case (Some p)
    have "on_tab T k (upd_ptab (set_proc (current (ptab k)) (p \<lparr> aspace := a \<rparr>)) (k \<lparr> km := m \<rparr>))" for a
      using R_set_current_aspace[OF Some, of a] by (simp add: on_tab_def)
    then show ?thesis using run q Some by (auto simp: resolve_cow_def intro: R_same split: option.splits)
  qed
qed

lemma keeps_kernel_fault:
  assumes "keeps (on_tab T) again"
  shows "keeps (on_tab T) (kernel_fault X a wr prot again)"
proof -
  have "\<not> from_user KERNEL_CS" by (simp add: from_user_def)
  then have "keeps (on_tab T) (page_fault_handler X a KERNEL_CS wr prot)"
    by (auto simp: page_fault_handler_def intro!: keeps_sbind keeps_stry keeps_resolve_cow keeps_pure split: result.split)
  then show ?thesis
    unfolding kernel_fault_def by (intro keeps_sbind) (auto intro: assms keeps_pure split: trap_out.split)
qed

lemma keeps_load_user: "keeps (on_tab T) (load_user X M a n)"
  by (induction n arbitrary: a)
     (auto intro!: keeps_flow keeps_sbind keeps_fbind keeps_pure keeps_kernel_fault split: option.split)

lemma keeps_store_byte: "keeps (on_tab T) (store_byte X M n a b)"
  by (induction n)
     (auto intro!: keeps_flow keeps_sbind keeps_pure keeps_kernel_fault keeps_supd_same split: store_result.split)

lemma keeps_store_user: "keeps (on_tab T) (store_user X M a bs)"
  by (induction bs arbitrary: a) (auto intro!: keeps_flow keeps_fbind keeps_store_byte)

lemma keeps_with_user_bytes:
  "(\<And>bs. keeps (on_tab T) (f bs)) \<Longrightarrow> keeps (on_tab T) (with_user_bytes X M ptr len f)"
  by (auto simp: with_user_bytes_def intro!: keeps_flow keeps_fbind keeps_load_user split: option.split)

lemmas keeps_user = keeps_flow keeps_fbind keeps_load_user keeps_store_byte keeps_store_user keeps_with_user_bytes

subsection \<open>Handlers\<close>

lemma keeps_print: "keeps (on_tab T) (print s)" "keeps (on_tab T) (serial_print s)"
  by (simp_all add: print_def serial_print_def keeps_supd_same)

lemma keeps_try_read_char: "keeps (on_tab T) try_read_char"
  by (rule keeps_same) (auto simp: try_read_char_def split: list.splits)

lemma keeps_sys_write: "keeps (on_tab T) (sys_write X M fd buf len)"
  by (auto simp: sys_write_def intro!: keeps_user keeps_basic keeps_print)

lemma keeps_read_loop:
  assumes "\<And>k. on_tab T k (rest k)"
  shows "keeps (on_tab T) (read_loop X M rest n out len written)"
  by (induction n arbitrary: written)
     (auto simp: Let_def intro!: keeps_user keeps_pure keeps_sbind keeps_print keeps_try_read_char keeps_supd assms split: option.split)

lemma keeps_sys_read: "(\<And>k. on_tab T k (rest k)) \<Longrightarrow> keeps (on_tab T) (sys_read X M rest n fd buf len)"
  by (auto simp: sys_read_def intro!: keeps_flow keeps_read_loop split: option.split)

lemma keeps_sys_fs_read: "keeps (on_tab T) (sys_fs_read X M p pl o' om)"
  by (auto simp: sys_fs_read_def Let_def intro!: keeps_user keeps_pure keeps_sbind split: sum.split option.split)

lemma keeps_list_names: "keeps (on_tab T) (list_names X M out len written names)"
  by (induction names arbitrary: written) (auto intro!: keeps_user)

lemma keeps_sys_fs_list: "keeps (on_tab T) (sys_fs_list X M o' om)"
  by (auto simp: sys_fs_list_def intro!: keeps_user keeps_pure keeps_sbind keeps_list_names split: option.split)

lemma keeps_or_max: "keeps (on_tab T) m \<Longrightarrow> keeps (on_tab T) (or_max m)"
  by (auto simp: or_max_def intro!: keeps_sbind keeps_stry keeps_pure split: result.split)

lemma running_same: "(\<And>k r k'. m k = (r, k') \<Longrightarrow> tab k' = tab k) \<Longrightarrow> keeps (while_current (on_tab T) par) m"
  by (rule keepsI) (auto simp: while_current_def tab_def intro: R_same)

lemma running_kmem: "keeps (while_current (on_tab T) par) (on_km m)" "keeps (while_current (on_tab T) par) (with_space a f)"
  by (rule running_same, erule on_km_tab) (rule running_same, erule with_space_tab)

lemma running_alloc_pid: "keeps (while_current (on_tab T) par) alloc_pid"
  by (rule keepsI) (auto simp: while_current_def alloc_pid_def on_tab_def tab_def T_next)

lemma insert_process_run:
  assumes "insert_process pr k = (r, k')" "pstate pr = Runnable"
    "\<And>par. current_proc k = Some par \<Longrightarrow> uid pr = uid par \<and> euid pr = euid par"
  shows "on_tab T k k'" "current (ptab k') = current (ptab k)"
    "tab k' = (set_proc (pid_of pr) pr (push_runnable (pid_of pr) (ptab k)), next_pid k)"
proof -
  show t: "tab k' = (set_proc (pid_of pr) pr (push_runnable (pid_of pr) (ptab k)), next_pid k)"
    using assms(1,2) by (auto simp: insert_process_def Let_def upd_ptab_def tab_def dest!: drop_process_tab split: option.splits)
  then show "current (ptab k') = current (ptab k)" by (simp add: tab_def)
  have "T (ptab k, next_pid k) (set_proc (pid_of pr) pr (push_runnable (pid_of pr) (ptab k)), next_pid k)"
    by (rule T_child) (use assms in \<open>auto simp: current_proc_def proc_of_def\<close>)
  then show "on_tab T k k'" unfolding on_tab_def t by (simp add: tab_def)
qed

lemma keeps_fork: "keeps (on_tab T) (fork X)"
proof (rule keepsI)
  fix k r k' assume run: "fork X k = (r, k')"
  let ?cur = "current (ptab k)"
  show "on_tab T k k'"
  proof (cases "proc_of ?cur k")
    case None
    then show ?thesis using run by (auto simp: fork_def sbind_def sget_def slift_def intro: R_same)
  next
    case (Some pr)
    obtain q k1 where q: "on_km (clone_cow X (aspace pr)) k = (q, k1)" by (cases "on_km (clone_cow X (aspace pr)) k")
    note t1 = on_km_tab[OF q]
    show ?thesis
    proof (cases q)
      case (Ok space)
      define child where "child = next_pid k1 mod 2 ^ 32"
      define k2 where "k2 = k1 \<lparr> next_pid := (next_pid k1 + 1) mod 2 ^ 64 \<rparr>"
      define np where "np = \<lparr> pid_of = child, parent = ?cur, pname = pname pr, pstate = Runnable, aspace = space,
        trap = (trap pr) \<lparr> rax := 0 \<rparr>, signals = [], children_exited = [],
        uid = uid pr, gid = gid pr, euid = euid pr, egid = egid pr \<rparr>"
      obtain q3 k3 where q3: "insert_process np k2 = (q3, k3)" by (cases "insert_process np k2")
      have cp: "current_proc k2 = Some pr"
        using Some t1 by (simp add: k2_def current_proc_def proc_of_def tab_def)
      have "on_tab T k k2" using t1 T_next by (simp add: on_tab_def k2_def tab_def)
      moreover have "on_tab T k2 k3" by (rule insert_process_run(1)[OF q3]) (use cp in \<open>auto simp: np_def\<close>)
      moreover have cur3: "current (ptab k3) = ?cur"
        using insert_process_run(2)[OF q3] cp t1 by (simp add: np_def k2_def tab_def)
      moreover have "on_tab T k3 (fork_return ?cur child k3)"
      proof (cases "proc_of ?cur k3")
        case (Some p)
        then have "T (ptab k3, next_pid k3) (set_proc ?cur (p \<lparr> aspace := aspace p, trap := (trap p) \<lparr> rax := of_nat child \<rparr> \<rparr>) (ptab k3), next_pid k3)"
          using T_current[where a = "aspace p" and t = "ptab k3" and pr = p] cur3 by (simp add: proc_of_def)
        then show ?thesis using Some by (simp add: on_tab_def fork_return_def) (simp add: tab_def)
      qed (simp add: R_same fork_return_def)
      moreover have "k' = fork_return ?cur child k3 \<or> k' = k3"
        using run q q3 Ok Some unfolding np_def k2_def child_def
        by (cases q3) (auto simp: fork_def sbind_def sget_def slift_def alloc_pid_def supd_def sret_def)
      ultimately show ?thesis using rel_trans by metis
    qed (use run q Some t1 in \<open>auto simp: fork_def sbind_def sget_def slift_def intro: R_same\<close>)
  qed
qed

lemma running_spawn: "keeps (while_current (on_tab T) par) (spawn_from_elf X name elf par)"
proof -
  have ins: "keeps (while_current (on_tab T) par) (sbind (sget (inherited_ids par)) (\<lambda>(u, g, eu, eg).
      sbind alloc_pid (\<lambda>p. sbind (insert_process
      \<lparr> pid_of = p, parent = par, pname = name, pstate = Runnable, aspace = space, trap = tf,
        signals = [], children_exited = [], uid = u, gid = g, euid = eu, egid = eg \<rparr>) (\<lambda>_. sret p))))" for space tf
  proof (rule keepsI)
    fix k r k'
    assume run: "sbind (sget (inherited_ids par)) (\<lambda>(u, g, eu, eg).
      sbind alloc_pid (\<lambda>p. sbind (insert_process
      \<lparr> pid_of = p, parent = par, pname = name, pstate = Runnable, aspace = space, trap = tf,
        signals = [], children_exited = [], uid = u, gid = g, euid = eu, egid = eg \<rparr>) (\<lambda>_. sret p))) k = (r, k')"
    obtain u g eu eg where ids: "inherited_ids par k = (u, g, eu, eg)" by (metis prod_cases4)
    define k1 where "k1 = k \<lparr> next_pid := (next_pid k + 1) mod 2 ^ 64 \<rparr>"
    define np where "np = \<lparr> pid_of = next_pid k mod 2 ^ 32, parent = par, pname = name, pstate = Runnable, aspace = space, trap = tf,
        signals = [], children_exited = [], uid = u, gid = g, euid = eu, egid = eg \<rparr>"
    obtain q k2 where q: "insert_process np k1 = (q, k2)" by (cases "insert_process np k1")
    have k2: "k' = k2" using run ids q
      by (cases q) (auto simp: sbind_def sget_def alloc_pid_def sret_def k1_def np_def)
    have "on_tab T k k1" by (simp add: on_tab_def tab_def k1_def T_next)
    moreover have inh: "uid np = uid p \<and> euid np = euid p" if "current (ptab k) = par" "current_proc k1 = Some p" for p
      using ids that by (simp add: np_def k1_def inherited_ids_def current_proc_def proc_of_def)
    have "on_tab T k1 k2 \<and> current (ptab k2) = par" if par: "current (ptab k) = par"
      using insert_process_run(1,2)[OF q _ inh[OF par]] par by (simp add: np_def k1_def)
    moreover note this
    ultimately show "while_current (on_tab T) par k k'"
      unfolding while_current_def k2 using rel_trans by blast
  qed
  show ?thesis
    unfolding spawn_from_elf_def
    by (rule ins running.keeps_pure running_kmem keeps_case_prod running.keeps_sbind)+
qed

lemma keeps_kill: "keeps (on_tab T) (kill p sg)"
proof (rule keepsI)
  fix k r k' assume run: "kill p sg k = (r, k')"
  show "on_tab T k k'"
  proof (cases "proc_of p k")
    case (Some pr)
    then have g: "bt_get (procs (ptab k)) p = Some pr" by (simp add: proc_of_def)
    show ?thesis
      using run Some T_wake[OF g, of "next_pid k" "signals pr @ [sg]"] T_signal[OF g, of "next_pid k" "signals pr @ [sg]"]
      by (auto simp: kill_def Let_def on_tab_def tab_def upd_ptab_def split: if_splits)
  qed (use run in \<open>auto simp: kill_def intro: R_same\<close>)
qed

lemma running_exec_from_fs: "keeps (while_current (on_tab T) par) (exec_from_fs X path par)"
  unfolding exec_from_fs_def
  by (intro running.keeps_sbind running.keeps_pure) (auto intro: running_spawn running.keeps_pure split: sum.split)

lemma running_exec_from_fat: "keeps (while_current (on_tab T) par) (exec_from_fat X path par)"
  unfolding exec_from_fat_def
  by (intro running.keeps_sbind running.keeps_pure) (auto intro: running_spawn running.keeps_pure split: result.split)

lemma running_exec_from_any: "keeps (while_current (on_tab T) par) (exec_from_any X path par)"
  by (auto simp: exec_from_any_def intro!: running_exec_from_fat running.keeps_sbind running.keeps_stry
      running_exec_from_fs running.keeps_pure split: result.split)

lemma running_exec_from_search: "keeps (while_current (on_tab T) par) (exec_from_search X path par)"
proof -
  have "keeps (while_current (on_tab T) par) exec_paths"
    by (rule running_same) (auto simp: exec_paths_def Let_def)
  then have "keeps (while_current (on_tab T) par) (resolve_exec_path path)"
    by (auto simp: resolve_exec_path_def intro!: running.keeps_sbind running.keeps_pure)
  then show ?thesis
    by (auto simp: exec_from_search_def intro!: running_exec_from_any running.keeps_sbind running.keeps_pure)
qed

lemma keeps_at_current:
  assumes "\<And>par. keeps (while_current (on_tab T) par) (f par)"
  shows "keeps (on_tab T) (sbind (sget (\<lambda>k. current (ptab k))) f)"
proof (rule keepsI)
  fix k r k' assume "sbind (sget (\<lambda>k. current (ptab k))) f k = (r, k')"
  then have "f (current (ptab k)) k = (r, k')" by (simp add: sbind_def sget_def)
  then show "on_tab T k k'" using keepsD[OF assms] by (auto simp: while_current_def)
qed

lemma running_or_max:
  "keeps (while_current (on_tab T) par) m \<Longrightarrow> keeps (while_current (on_tab T) par) (or_max m)"
  by (auto simp: or_max_def intro!: running.keeps_sbind running.keeps_stry running.keeps_pure split: result.split)

lemma keeps_sys_exec: "keeps (on_tab T) (sys_exec X M p pl)"
  unfolding sys_exec_def
  by (auto intro!: keeps_user keeps_at_current running_or_max running_exec_from_search simp: flift_def
      intro!: running.keeps_sbind running.keeps_pure)

lemma keeps_sys_kill: "keeps (on_tab T) (sys_kill p n)"
  by (auto simp: sys_kill_def intro!: keeps_or_max keeps_sbind keeps_kill keeps_pure split: option.split)

lemma keeps_sys_sleep:
  assumes "\<And>k. on_tab T k (rest k)"
  shows "keeps (on_tab T) (sys_sleep_ms rest n ms)"
proof -
  have "keeps (on_tab T) (sleep_loop rest n start ms)" for start
    by (induction n) (auto intro!: keeps_pure keeps_sbind keeps_flow keeps_supd assms)
  then show ?thesis unfolding sys_sleep_ms_def by (intro keeps_sbind keeps_pure)
qed

lemma keeps_backbuf_frames: "keeps (on_tab T) (backbuf_frames len pages)"
  unfolding backbuf_frames_def
  by (auto intro!: keeps_basic split: option.split)

lemma keeps_cases:
  "keeps (on_tab T) a \<Longrightarrow> (\<And>x. keeps (on_tab T) (b x)) \<Longrightarrow> keeps (on_tab T) (case v of None \<Rightarrow> a | Some x \<Rightarrow> b x)"
  "keeps (on_tab T) a' \<Longrightarrow> keeps (on_tab T) b' \<Longrightarrow> keeps (on_tab T) (if c then a' else b')"
  "(\<And>x y. keeps (on_tab T) (h x y)) \<Longrightarrow> keeps (on_tab T) (case pq of (x, y) \<Rightarrow> h x y)"
  by (simp_all split: option.split prod.split)

lemmas keeps_rules = keeps_current_as keeps_cases keeps_pure keeps_flow keeps_on_km keeps_stry keeps_supd_same
  keeps_fbind keeps_load_user keeps_store_user keeps_sbind

lemma keeps_sys_fb_acquire: "keeps (on_tab T) (sys_fb_acquire X M out)"
  unfolding sys_fb_acquire_def Let_def by (rule keeps_rules keeps_backbuf_frames tab_updates)+

lemma keeps_blit: "keeps (on_tab T) (sbind (sget blit_backbuf) (\<lambda>r. sbind (slift r) (\<lambda>k'. sbind (supd (\<lambda>_. k')) (\<lambda>_. fret 0))))"
proof (rule keepsI)
  fix k r k' assume run: "sbind (sget blit_backbuf) (\<lambda>r. sbind (slift r) (\<lambda>k'. sbind (supd (\<lambda>_. k')) (\<lambda>_. fret 0))) k = (r, k')"
  show "on_tab T k k'"
  proof (cases "blit_backbuf k")
    case (Ok u)
    then have "tab u = tab k" by (auto simp: blit_backbuf_def split: option.splits)
    then show ?thesis using run Ok by (auto simp: sbind_def sget_def slift_def supd_def fret_def sret_def intro: R_same)
  qed (use run in \<open>auto simp: sbind_def sget_def slift_def intro: R_same\<close>)
qed

lemma keeps_sys_fb_present: "keeps (on_tab T) (sys_fb_present X M rect)"
  unfolding sys_fb_present_def Let_def
  by (rule keeps_cases keeps_pure keeps_flow keeps_blit keeps_with_user_bytes keeps_sbind)+

lemma keeps_poll_loop: "keeps (on_tab T) (poll_loop X M Q n dst mx written)"
proof (induction n arbitrary: written)
  case 0
  then show ?case by (simp add: keeps_pure)
next
  case (Suc n)
  show ?case unfolding poll_loop.simps by (rule Suc.IH keeps_rules tab_updates)+
qed

lemma keeps_sys_input_poll: "keeps (on_tab T) (sys_input_poll X M Q buf mx)"
  unfolding sys_input_poll_def by (rule keeps_poll_loop keeps_rules)+

lemma keeps_shm_unref: "keeps (on_tab T) (shm_unref h)"
  by (rule keeps_same) (auto simp: shm_unref_def set_region_def split: option.splits if_splits)

lemma keeps_sys_shm_create: "keeps (on_tab T) (sys_shm_create n)"
proof -
  have "keeps (on_tab T) (\<lambda>k. (Ok (f k), set_region (h k) (v k) (k \<lparr> next_handle := d k \<rparr>)))"
    for f h v and d :: "kernel \<Rightarrow> nat" by (rule keeps_same) (auto simp: set_region_def)
  then show ?thesis unfolding sys_shm_create_def by (auto intro!: keeps_basic split: option.split)
qed

lemma keeps_shm_take_va: "keeps (on_tab T) (shm_take_va p n)"
  unfolding shm_take_va_def by (rule keeps_rules tab_updates)+

lemma keeps_sys_shm_map: "keeps (on_tab T) (sys_shm_map X h mode)"
  unfolding sys_shm_map_def by (rule keeps_rules tab_updates tab_set_region keeps_shm_take_va keeps_shm_unref)+

lemma keeps_shm_release: "keeps (on_tab T) (shm_release h)"
  unfolding shm_release_def Let_def by (rule keeps_rules tab_updates tab_set_region)+

lemma keeps_sys_shm_unmap: "keeps (on_tab T) (sys_shm_unmap X ptr)"
  unfolding sys_shm_unmap_def sbind_option_case by (rule keeps_rules tab_updates keeps_shm_release)+

lemma keeps_mailbox: "keeps (on_tab T) (mailbox_push p f)" "keeps (on_tab T) (mailbox_pop p)"
  by (rule keeps_same; auto simp: mailbox_push_def mailbox_pop_def Let_def split: option.splits list.splits if_splits)+

lemma keeps_sys_ipc_send: "keeps (on_tab T) (sys_ipc_send X M t p n)"
  unfolding sys_ipc_send_def by (rule keeps_rules keeps_mailbox)+

lemma keeps_recv_loop:
  assumes "\<And>k. on_tab T k (rest k)"
  shows "keeps (on_tab T) (recv_loop X M rest i me buf mx out)"
proof (induction i)
  case 0
  then show ?case by (simp add: keeps_pure)
next
  case (Suc i)
  show ?case unfolding recv_loop.simps Let_def
    by (rule Suc.IH keeps_cases keeps_pure keeps_flow keeps_supd[OF assms] keeps_fbind keeps_store_user keeps_mailbox keeps_sbind)+
qed

lemma keeps_sys_ipc_recv:
  "(\<And>k. on_tab T k (rest k)) \<Longrightarrow> keeps (on_tab T) (sys_ipc_recv X M rest i buf mx out)"
  unfolding sys_ipc_recv_def by (intro keeps_cases keeps_flow keeps_sbind keeps_pure keeps_recv_loop)

text \<open>Every system call but \<open>exit\<close> and \<open>wait\<close> respects the relation.\<close>

lemma dispatch_keeps:
  assumes "\<And>k. on_tab T k (rest k)" "nr \<noteq> 3" "nr \<noteq> 22"
  shows "keeps (on_tab T) (syscall_dispatch X M Q rest fuel nr a1 a2 a3 a4)"
proof -
  have pure: "keeps (on_tab T) sys_getpid" "keeps (on_tab T) sys_getuid" "keeps (on_tab T) sys_geteuid"
    "keeps (on_tab T) sys_getgid" "keeps (on_tab T) sys_getegid" "keeps (on_tab T) (sys_brk a1)"
    by (simp_all add: sys_getpid_def sys_getuid_def sys_geteuid_def sys_getgid_def sys_getegid_def sys_brk_def
        current_field_def keeps_pure)
  have fork: "keeps (on_tab T) (sys_fork X)" unfolding sys_fork_def by (rule keeps_or_max[OF keeps_fork])
  have yield: "keeps (on_tab T) (sbind (supd rest) (\<lambda>_. sret (0 :: nat)))"
    by (intro keeps_sbind keeps_supd keeps_pure assms)
  have exit: "keeps (on_tab T) n \<Longrightarrow> keeps (on_tab T) (if nr = 3 then m else n)"
    "keeps (on_tab T) n \<Longrightarrow> keeps (on_tab T) (if nr = 22 then m else n)" for m n :: "(kernel, nat flow) op"
    using assms(2,3) by simp_all
  show ?thesis
    unfolding syscall_dispatch_def
    by (rule keeps_sbind, rule keeps_supd_same, rule tab_updates)
       (rule exit keeps_cases keeps_flow keeps_sys_write keeps_sys_read keeps_sys_fs_read keeps_sys_fs_list
         keeps_sys_exec keeps_sys_kill keeps_sys_sleep keeps_sys_fb_acquire keeps_sys_fb_present
         keeps_sys_input_poll keeps_sys_shm_create keeps_sys_shm_map keeps_sys_shm_unmap keeps_sys_ipc_send
         keeps_sys_ipc_recv T_setuid T_setgid pure fork yield keeps_pure assms(1))+
qed

end

end
