(* ===== verification/Scheduling.thy ===== *)
theory Scheduling
  imports Step_Relations
begin

text \<open>
  The run queue.  \<open>queue_grows\<close> and \<open>keeps_queued\<close> are instances of the table contract: every system call
  but \<open>exit\<close> only appends to the queue, and none loses a runnable process.  \<open>picks\<close> is a scheduling
  decision: the first runnable process of the queue becomes current.  \<open>quiet_step\<close> and \<open>sched_step\<close>
  split the transitions of the machine into those without and those with such a decision.
\<close>

section \<open>Invariant and order of the queue\<close>

definition runs :: "process_table \<Rightarrow> pid \<Rightarrow> bool" where
  "runs t p \<longleftrightarrow> (\<exists>pr. bt_get (procs t) p = Some pr \<and> pstate pr = Runnable)"

text \<open>Identifier 0 stands for the kernel itself.\<close>

definition queued :: "process_table \<Rightarrow> bool" where
  "queued t \<longleftrightarrow> (\<forall>p. runs t p \<and> p \<noteq> 0 \<longrightarrow> p = current t \<or> p \<in> set (runnable t))"

fun queue_grows :: "process_table \<times> nat \<Rightarrow> process_table \<times> nat \<Rightarrow> bool" where
  "queue_grows (t, _) (t', _) \<longleftrightarrow> current t' = current t \<and> (\<exists>new. runnable t' = runnable t @ new)"

fun keeps_queued :: "process_table \<times> nat \<Rightarrow> process_table \<times> nat \<Rightarrow> bool" where
  "keeps_queued (t, _) (t', _) \<longleftrightarrow> current t' = current t \<and> (queued t \<longrightarrow> queued t')"

lemma runs_set_proc: "runs (set_proc q pr t) p \<longleftrightarrow> (if p = q then pstate pr = Runnable else runs t p)"
  by (auto simp: runs_def)

lemma runs_push [simp]: "runs (push_runnable q t) p = runs t p"
  by (simp add: runs_def)

lemma runs_get: "bt_get (procs t) p = Some pr \<Longrightarrow> runs t p \<longleftrightarrow> pstate pr = Runnable"
  by (simp add: runs_def)

lemma set_current_simps [simp]:
  "ptab (set_current p k) = set_proc (current (ptab k)) p (ptab k)" "next_pid (set_current p k) = next_pid k"
  by (simp_all add: set_current_def upd_ptab_def)

lemmas set_id_defs = sys_setuid_def sys_setgid_def on_tab_def tab_def current_proc_def proc_of_def

interpretation grow: table_rel queue_grows
proof (unfold_locales, goal_cases)
  case (8 u)
  show ?case by (rule keepsI) (auto simp: set_id_defs split: option.splits if_splits)
next
  case (9 g)
  show ?case by (rule keepsI) (auto simp: set_id_defs split: option.splits if_splits)
qed (force)+

interpretation qinv: table_rel keeps_queued
proof (unfold_locales, goal_cases)
  case (1 s)
  then show ?case by (cases s) simp
next
  case (2 s1 s2 s3)
  then show ?case by (cases s1; cases s2; cases s3) simp
next
  case (4 t pr n a f)
  then show ?case by (auto simp: queued_def runs_set_proc runs_get)
next
  case (5 pr t n)
  then show ?case by (auto simp: queued_def runs_set_proc)
next
  case (6 t p pr n sigs)
  then show ?case by (auto simp: queued_def runs_set_proc runs_get)
next
  case (7 t p pr n sigs)
  then show ?case by (auto simp: queued_def runs_set_proc)
next
  case (8 u)
  show ?case
    by (rule keepsI)
       (auto simp: set_id_defs queued_def runs_set_proc runs_get split: option.splits if_splits)
next
  case (9 g)
  show ?case
    by (rule keepsI)
       (auto simp: set_id_defs queued_def runs_set_proc runs_get split: option.splits if_splits)
qed simp

section \<open>Scheduling decisions\<close>

definition picks :: "process_table \<Rightarrow> process_table \<Rightarrow> bool" where
  "picks t t' \<longleftrightarrow>
    (\<exists>pre p post. runnable t = pre @ p # post \<and> (\<forall>x \<in> set pre. \<not> runs t x) \<and> runs t p \<and>
       t' = t \<lparr> runnable := post, current := p \<rparr>) \<or>
    ((\<forall>x \<in> set (runnable t). \<not> runs t x) \<and> t' = t \<lparr> runnable := [] \<rparr>)"

lemma pick_from_spec:
  "case pick_from (procs t) q of
     (Some p, post) \<Rightarrow> \<exists>pre. q = pre @ p # post \<and> (\<forall>x \<in> set pre. \<not> runs t x) \<and> runs t p
   | (None, post) \<Rightarrow> post = [] \<and> (\<forall>x \<in> set q. \<not> runs t x)"
proof (induction q)
  case (Cons x q)
  show ?case
  proof (cases "runs t x")
    case True
    then have "pick_from (procs t) (x # q) = (Some x, q)" by (auto simp: runs_def)
    then show ?thesis using True by simp
  next
    case False
    then have eq: "pick_from (procs t) (x # q) = pick_from (procs t) q"
      by (auto simp: runs_def split: option.splits)
    obtain r post where r: "pick_from (procs t) q = (r, post)" by (cases "pick_from (procs t) q")
    show ?thesis
    proof (cases r)
      case None
      then show ?thesis using Cons r eq False by simp
    next
      case (Some p)
      then obtain pre where "q = pre @ p # post" "\<forall>x \<in> set pre. \<not> runs t x" "runs t p"
        using Cons r by auto
      then have "x # q = (x # pre) @ p # post \<and> (\<forall>y \<in> set (x # pre). \<not> runs t y) \<and> runs t p"
        using False by simp
      then have "\<exists>pre. x # q = pre @ p # post \<and> (\<forall>y \<in> set pre. \<not> runs t y) \<and> runs t p" by blast
      then show ?thesis using r eq Some by simp
    qed
  qed
qed simp

lemma pick_next_picks:
  assumes "pick_next t = (r, t')"
  shows "picks t (case r of None \<Rightarrow> t' | Some p \<Rightarrow> t' \<lparr> current := p \<rparr>)" "procs t' = procs t" "current t' = current t"
proof -
  obtain q where q: "pick_from (procs t) (runnable t) = (r, q)" "t' = t \<lparr> runnable := q \<rparr>"
    using assms by (auto simp: pick_next_def split: prod.splits)
  then show "procs t' = procs t" "current t' = current t" by simp_all
  show "picks t (case r of None \<Rightarrow> t' | Some p \<Rightarrow> t' \<lparr> current := p \<rparr>)"
    using pick_from_spec[where t = t and q = "runnable t"] q by (cases r) (auto simp: picks_def)
qed

lemma schedule_next_picks:
  assumes "schedule_next k = (Ok out, k')"
  shows "picks (ptab k) (ptab k')"
proof -
  obtain r t where t: "pick_next (ptab k) = (r, t)" by (cases "pick_next (ptab k)")
  show ?thesis
    using assms t pick_next_picks(1)[OF t]
    by (cases r) (auto simp: schedule_next_def Let_def split: if_splits option.splits)
qed

lemma picks_queued:
  assumes "picks t t'" "queued t" "current t = 0 \<or> \<not> runs t (current t) \<or> current t \<in> set (runnable t)"
  shows "queued t'"
  using assms(1) unfolding picks_def
proof (elim disjE exE conjE)
  fix pre p post
  assume *: "runnable t = pre @ p # post" "\<forall>x \<in> set pre. \<not> runs t x" "runs t p"
    "t' = t \<lparr> runnable := post, current := p \<rparr>"
  have "q \<in> set (runnable t)" if "runs t q" "q \<noteq> 0" for q
    using assms(2,3) that by (auto simp: queued_def)
  then show "queued t'" using * by (fastforce simp: queued_def runs_def)
next
  assume "\<forall>x \<in> set (runnable t). \<not> runs t x" "t' = t \<lparr> runnable := [] \<rparr>"
  then show "queued t'" using assms(2) by (auto simp: queued_def runs_def)
qed

section \<open>Exit and preemption\<close>

interpretation same: step_rel "\<lambda>k k'. tab k' = tab k"
  by unfold_locales simp_all

lemma cleanup_pid_tab: "cleanup_pid p k = (r, k') \<Longrightarrow> tab k' = tab k"
proof -
  have rel: "keeps (\<lambda>k k'. tab k' = tab k) (shm_release h)" for h
    unfolding shm_release_def Let_def
    by (intro same.keeps_sbind same.keeps_pure)
       (auto intro!: same.keeps_sbind same.keeps_pure same.keeps_supd keepsI[of "on_km m" for m] dest: on_km_tab
         split: option.split)
  have "keeps (\<lambda>k k'. tab k' = tab k) (cleanup_pid p)"
    unfolding cleanup_pid_def by (intro same.keeps_sbind same.keeps_pure same.keeps_supd same.keeps_sfor rel) simp_all
  then show "cleanup_pid p k = (r, k') \<Longrightarrow> tab k' = tab k" by (rule keepsD)
qed

lemma bury_tab:
  fixes code :: u32
  assumes "proc_of p k = Some pr" "p = current (ptab k)"
  defines "t \<equiv> ptab (bury p code pr k)"
  shows "current t = current (ptab k)" "\<exists>new. runnable t = runnable (ptab k) @ new" "\<not> runs t p"
    "queued (ptab k) \<Longrightarrow> queued t"
  using assms
  by (auto simp: bury_def Let_def proc_of_def runs_set_proc queued_def runs_def split: option.splits if_splits)

text \<open>An exit appends the parent it wakes, then decides.\<close>

lemma exit_current_decides:
  assumes "exit_current c k = (Ok out, k')"
  obtains t where "current t = current (ptab k)" "\<exists>new. runnable t = runnable (ptab k) @ new"
    "\<not> runs t (current t)" "queued (ptab k) \<Longrightarrow> queued t" "picks t (ptab k')"
proof -
  let ?p = "current (ptab k)"
  have rel: "tab (release_if_owner ?p k) = tab k" by (simp add: release_if_owner_def)
  obtain q k1 where q: "cleanup_pid ?p (release_if_owner ?p k) = (q, k1)" by (metis prod.exhaust)
  then have tab1: "ptab k1 = ptab k" using cleanup_pid_tab[OF q] rel by (simp add: tab_def)
  have run: "sbind (cleanup_pid ?p) (\<lambda>_. sbind (sget (proc_of ?p)) (\<lambda>po. case po of
        None \<Rightarrow> slift Panic | Some pr \<Rightarrow> sbind (supd (bury ?p c pr)) (\<lambda>_. schedule_next)))
      (release_if_owner ?p k) = (Ok out, k')"
    using assms unfolding exit_current_def sbind_pure .
  then have "sbind (sget (proc_of ?p)) (\<lambda>po. case po of
        None \<Rightarrow> slift Panic | Some pr \<Rightarrow> sbind (supd (bury ?p c pr)) (\<lambda>_. schedule_next)) k1 = (Ok out, k')"
    by (rule sbind_OkE) (use q in simp)
  then obtain pr where pr: "proc_of ?p k1 = Some pr" "schedule_next (bury ?p c pr k1) = (Ok out, k')"
    by (cases "proc_of ?p k1") (simp_all add: sbind_pure slift_def)
  have cur: "?p = current (ptab k1)" by (simp add: tab1)
  note b = bury_tab[OF pr(1) cur, where code = c]
  show ?thesis
    by (rule that[of "ptab (bury ?p c pr k1)"])
       (use b schedule_next_picks[OF pr(2)] in \<open>simp_all add: tab1\<close>)
qed

lemma save_current_tab:
  shows "current (ptab (save_current frame k)) = current (ptab k)"
    "\<exists>new. runnable (ptab (save_current frame k)) = runnable (ptab k) @ new"
    "runs (ptab (save_current frame k)) p = runs (ptab k) p"
    "queued (ptab k) \<Longrightarrow> queued (ptab (save_current frame k))"
    "let t = ptab (save_current frame k) in current t = 0 \<or> \<not> runs t (current t) \<or> current t \<in> set (runnable t)"
  by (auto simp: save_current_def Let_def runs_set_proc proc_of_def queued_def runs_def split: option.splits)

lemma reschedule_decides:
  assumes "reschedule frame k = (Ok f, k')"
  shows "picks (ptab (save_current frame k)) (ptab k')"
proof -
  let ?k = "save_current frame k"
  obtain r t where t: "pick_next (ptab ?k) = (r, t)" by (cases "pick_next (ptab ?k)")
  have "t \<lparr> current := current t \<rparr> = t" by simp
  then show ?thesis
    using assms t pick_next_picks(1)[OF t]
    by (cases r) (auto simp: reschedule_def Let_def split: if_splits option.splits)
qed

section \<open>Transitions\<close>

text \<open>A transition with a scheduling decision: something may be appended to the queue, then the
  first runnable process is picked.\<close>

definition decides :: "kernel \<Rightarrow> kernel \<Rightarrow> bool" where
  "decides k k' \<longleftrightarrow> (\<exists>t. current t = current (ptab k) \<and> (\<exists>new. runnable t = runnable (ptab k) @ new) \<and>
     (queued (ptab k) \<longrightarrow> queued t) \<and>
     (current t = 0 \<or> \<not> runs t (current t) \<or> current t \<in> set (runnable t)) \<and> picks t (ptab k'))"

lemma decides_queued: "decides k k' \<Longrightarrow> queued (ptab k) \<Longrightarrow> queued (ptab k')"
  unfolding decides_def using picks_queued by blast

lemma exit_decides: "exit_current c k = (Ok out, k') \<Longrightarrow> decides k k'"
  by (elim exit_current_decides) (auto simp: decides_def)

lemma reschedule_is_decision: "reschedule frame k = (Ok f, k') \<Longrightarrow> decides k k'"
  using save_current_tab[where k = k and frame = frame] reschedule_decides[of frame k f k']
  unfolding decides_def Let_def by blast

lemma decides_same_tab:
  assumes "decides k1 k'" "queue_grows (tab k) (tab k1)" "queued (ptab k) \<Longrightarrow> queued (ptab k1)"
  shows "decides k k'"
  using assms unfolding decides_def by (auto simp: tab_def)

lemma deliver_pending_decides:
  assumes "deliver_pending k = (Ok r, k')"
  shows "case r of None \<Rightarrow> k' = k | Some out \<Rightarrow> decides k k'"
proof (cases "current (ptab k) = 0 \<or> current_proc k = None \<or> (\<exists>p. current_proc k = Some p \<and> signals p = [])")
  case True
  then show ?thesis using assms by (auto simp: deliver_pending_def split: if_splits)
next
  case False
  then obtain p s rest where p: "current_proc k = Some p" "signals p = s # rest" "current (ptab k) \<noteq> 0"
    by (metis list.exhaust option.exhaust)
  let ?k = "upd_ptab (set_proc (current (ptab k)) (p \<lparr> signals := rest \<rparr>)) k"
  have "sbind (exit_current (exit_code s)) (\<lambda>r. sret (Some r)) ?k = (Ok r, k')"
    using assms p by (simp add: deliver_pending_def)
  then obtain out where out: "exit_current (exit_code s) ?k = (Ok out, k')" "r = Some out"
    by (rule sbind_OkE) (simp add: sret_def)
  have g: "bt_get (procs (ptab k)) (current (ptab k)) = Some p" using p(1) by (simp add: current_proc_def proc_of_def)
  have "on_tab queue_grows k ?k" "on_tab keeps_queued k ?k"
    using grow.T_signal[OF g] qinv.T_signal[OF g] by (simp_all add: on_tab_def tab_def)
  then show ?thesis
    using decides_same_tab[OF exit_decides[OF out(1)]] out(2) by (simp add: on_tab_def tab_def)
qed

text \<open>The transitions of the machine while processes run: a system call other than \<open>exit\<close>, a resolved
  page fault and a timer interrupt of the kernel itself leave the processor with the current process; an
  exit, a fault or a signal that kills and a timer interrupt of a process decide.  While a call waits, the
  interrupts may change the devices (\<open>rest\<close>) but not the table.\<close>

inductive quiet_step :: "x86_ops \<Rightarrow> mmu \<Rightarrow> input_event array_queue \<Rightarrow> kernel \<Rightarrow> kernel \<Rightarrow> bool" for X M Q where
  quiet_call: "syscall_dispatch X M Q rest fuel nr a1 a2 a3 a4 k = (Ok r, k') \<Longrightarrow> nr \<noteq> 3 \<Longrightarrow>
    (\<And>s. tab (rest s) = tab s) \<Longrightarrow> quiet_step X M Q k k'"
| quiet_timer: "on_timer frame k = (Ok (Resume f), k') \<Longrightarrow> \<not> from_user (cs frame) \<Longrightarrow> quiet_step X M Q k k'"
| quiet_fault: "page_fault_handler X addr sel w pr k = (Ok TrapReturn, k') \<Longrightarrow> quiet_step X M Q k k'"

inductive sched_step :: "x86_ops \<Rightarrow> mmu \<Rightarrow> input_event array_queue \<Rightarrow> kernel \<Rightarrow> kernel \<Rightarrow> bool" for X M Q where
  sched_exit: "syscall_dispatch X M Q rest fuel 3 a1 a2 a3 a4 k = (Ok r, k') \<Longrightarrow> sched_step X M Q k k'"
| sched_timer: "on_timer frame k = (Ok (Resume f), k') \<Longrightarrow> from_user (cs frame) \<Longrightarrow> sched_step X M Q k k'"
| sched_signal: "on_timer frame k = (Ok (Leave out), k') \<Longrightarrow> sched_step X M Q k k'"
| sched_fault: "page_fault_handler X addr sel w pr k = (Ok (TrapLeave out), k') \<Longrightarrow> from_user sel \<Longrightarrow> sched_step X M Q k k'"
| sched_fatal: "fatal_fault sel k = (Ok (TrapLeave out), k') \<Longrightarrow> sched_step X M Q k k'"

inductive_cases quiet_stepE: "quiet_step X M Q k k'"
inductive_cases sched_stepE: "sched_step X M Q k k'"

lemma wait_any_table:
  assumes "wait_any p k = (r, k')"
  shows "current (ptab k') = current (ptab k)" "runnable (ptab k') = runnable (ptab k)"
    "runs (ptab k') q \<Longrightarrow> runs (ptab k) q"
proof -
  have "current (ptab k') = current (ptab k) \<and> runnable (ptab k') = runnable (ptab k) \<and> (runs (ptab k') q \<longrightarrow> runs (ptab k) q)"
    using assms
    by (auto simp: wait_any_def Let_def proc_of_def runs_def tab_def dest!: drop_process_tab
        split: option.splits list.splits prod.splits if_splits)
  then show "current (ptab k') = current (ptab k)" "runnable (ptab k') = runnable (ptab k)"
    "runs (ptab k') q \<Longrightarrow> runs (ptab k) q" by auto
qed

lemma dispatch_wait:
  assumes "syscall_dispatch X M Q rest fuel 22 a1 a2 a3 a4 k = (r, k')"
  obtains q where "wait_any (current (ptab k)) (k \<lparr> syscall_count := (syscall_count k + 1) mod 2 ^ 64 \<rparr>) = (q, k')"
proof -
  let ?k = "k \<lparr> syscall_count := (syscall_count k + 1) mod 2 ^ 64 \<rparr>"
  obtain q u where q: "wait_any (current (ptab k)) ?k = (q, u)" by (cases "wait_any (current (ptab k)) ?k")
  have "flift sys_wait ?k = (r, k')" using assms by (simp add: syscall_dispatch_def sbind_pure)
  then have "k' = u" using q
    by (cases q) (auto simp: flift_def sys_wait_def sbind_def sget_def sret_def split: option.splits)
  then show ?thesis using q that by blast
qed

lemma quiet_step_table:
  assumes "quiet_step X M Q k k'"
  shows "queue_grows (tab k) (tab k')" "queued (ptab k) \<Longrightarrow> queued (ptab k')"
proof -
  have "queue_grows (tab k) (tab k') \<and> (queued (ptab k) \<longrightarrow> queued (ptab k'))"
    using assms
  proof (cases rule: quiet_step.cases)
    case (quiet_call rest fuel nr a1 a2 a3 a4 r)
    show ?thesis
    proof (cases "nr = 22")
      case True
      then obtain q where "wait_any (current (ptab k)) (k \<lparr> syscall_count := (syscall_count k + 1) mod 2 ^ 64 \<rparr>) = (q, k')"
        using quiet_call dispatch_wait by blast
      from wait_any_table[OF this] show ?thesis by (auto simp: tab_def queued_def)
    next
      case False
      note call = quiet_call(1)
      have kp: "keeps (on_tab queue_grows) (syscall_dispatch X M Q rest fuel nr a1 a2 a3 a4)"
        "keeps (on_tab keeps_queued) (syscall_dispatch X M Q rest fuel nr a1 a2 a3 a4)"
        using grow.dispatch_keeps[OF grow.R_same[OF quiet_call(3)] quiet_call(2) False]
          qinv.dispatch_keeps[OF qinv.R_same[OF quiet_call(3)] quiet_call(2) False] by auto
      then have "on_tab queue_grows k k'" "on_tab keeps_queued k k'" using keepsD[OF kp(1) call] keepsD[OF kp(2) call] by simp_all
      then show ?thesis by (simp add: on_tab_def tab_def)
    qed
  next
    case (quiet_timer frame f)
    obtain r k1 where r: "deliver_pending k = (Ok r, k1)"
      "(case r of Some out \<Rightarrow> sret (Leave out) | None \<Rightarrow> sret (Resume frame)) k1 = (Ok (Resume f), k')"
      using quiet_timer unfolding on_timer_def by (auto elim!: sbind_OkE)
    have "r = None" "k' = k1" using r(2) by (auto simp: sret_def split: option.splits)
    then have "k' = k" using deliver_pending_decides[OF r(1)] by simp
    then show ?thesis by (simp add: tab_def)
  next
    case (quiet_fault addr sel w pr)
    have "resolve_cow X addr k = (Ok (), k')"
    proof -
      obtain q u where q: "resolve_cow X addr k = (q, u)" by (cases "resolve_cow X addr k")
      show ?thesis using quiet_fault q
        by (cases q) (auto simp: page_fault_handler_def stry_def sbind_def sret_def current_fault_kill_def
            split: if_splits prod.splits result.splits)
    qed
    then have "on_tab queue_grows k k'" "on_tab keeps_queued k k'"
      using keepsD[OF grow.keeps_resolve_cow] keepsD[OF qinv.keeps_resolve_cow] by blast+
    then show ?thesis by (simp add: on_tab_def tab_def)
  qed
  then show "queue_grows (tab k) (tab k')" "queued (ptab k) \<Longrightarrow> queued (ptab k')" by auto
qed

lemma sched_step_decides:
  assumes "sched_step X M Q k k'"
  shows "decides k k'"
  using assms
proof (cases rule: sched_step.cases)
  case (sched_exit rest fuel a1 a2 a3 a4 r)
  let ?k = "k \<lparr> syscall_count := (syscall_count k + 1) mod 2 ^ 64 \<rparr>"
  have "leave (exit_current (of_nat a1)) ?k = (Ok r, k')"
    using sched_exit by (simp add: syscall_dispatch_def sbind_pure)
  then obtain out where "exit_current (of_nat a1) ?k = (Ok out, k')"
    unfolding leave_def by (rule sbind_OkE) (simp add: sret_def)
  then have "decides ?k k'" by (rule exit_decides)
  then show ?thesis by (rule decides_same_tab) (simp_all add: tab_def)
next
  case (sched_timer frame f)
  obtain r k1 where r: "deliver_pending k = (Ok r, k1)"
    "(case r of Some out \<Rightarrow> sret (Leave out) | None \<Rightarrow> sbind (reschedule frame) (\<lambda>f. sret (Resume f))) k1 = (Ok (Resume f), k')"
    using sched_timer unfolding on_timer_def by (auto elim!: sbind_OkE)
  then have "r = None" by (auto simp: sret_def split: option.splits)
  then have "k1 = k" using deliver_pending_decides[OF r(1)] by simp
  moreover obtain f' where "reschedule frame k1 = (Ok f', k')"
    using r(2) \<open>r = None\<close> by (auto simp: sret_def elim: sbind_OkE)
  ultimately show ?thesis using reschedule_is_decision by blast
next
  case (sched_signal frame out)
  obtain r k1 where r: "deliver_pending k = (Ok r, k1)"
    "(case r of Some out \<Rightarrow> sret (Leave out) | None \<Rightarrow>
        if from_user (cs frame) then sbind (reschedule frame) (\<lambda>f. sret (Resume f)) else sret (Resume frame)) k1 = (Ok (Leave out), k')"
    using sched_signal unfolding on_timer_def by (rule sbind_OkE)
  have "\<exists>o'. r = Some o'" using r(2) by (auto simp: sret_def elim!: sbind_OkE split: option.splits if_splits)
  then show ?thesis using deliver_pending_decides[OF r(1)] r(2) by (auto simp: sret_def)
next
  case (sched_fault addr sel w pr out)
  obtain r k1 where r: "(if w \<and> pr then stry (resolve_cow X addr) else sret (Err ''not a write'')) k = (Ok r, k1)"
    "(case r of Ok _ \<Rightarrow> sret TrapReturn | _ \<Rightarrow>
       if from_user sel then sbind current_fault_kill (\<lambda>out. sret (TrapLeave out)) else sret (TrapLeave HltLoop)) k1 = (Ok (TrapLeave out), k')"
    using sched_fault(1) unfolding page_fault_handler_def by (rule sbind_OkE)
  have st: "keeps (on_tab queue_grows) (if w \<and> pr then stry (resolve_cow X addr) else sret (Err ''not a write''))"
    "keeps (on_tab keeps_queued) (if w \<and> pr then stry (resolve_cow X addr) else sret (Err ''not a write''))"
    by (simp_all add: grow.keeps_stry grow.keeps_resolve_cow grow.keeps_pure qinv.keeps_stry qinv.keeps_resolve_cow qinv.keeps_pure)
  have k1: "on_tab queue_grows k k1" "on_tab keeps_queued k k1" using keepsD[OF st(1) r(1)] keepsD[OF st(2) r(1)] by simp_all
  have "\<exists>o'. exit_current (- 1) k1 = (Ok o', k')"
    using r(2) sched_fault(2) by (cases r) (auto simp: sret_def current_fault_kill_def elim: sbind_OkE)
  then have "decides k1 k'" using exit_decides by blast
  then show ?thesis by (rule decides_same_tab) (use k1 in \<open>auto simp: on_tab_def tab_def\<close>)
next
  case (sched_fatal sel out)
  then have "\<exists>o'. exit_current (- 1) k = (Ok o', k')"
    by (auto simp: fatal_fault_def current_fault_kill_def sret_def slift_def split: if_splits elim!: sbind_OkE)
  then show ?thesis using exit_decides by blast
qed

section \<open>Waiting for the processor\<close>

text \<open>\<open>waits X M Q p n k k'\<close>: a run of the machine with \<open>n\<close> scheduling decisions, in which \<open>p\<close> stays
  runnable and no decision chooses it.\<close>

inductive waits :: "x86_ops \<Rightarrow> mmu \<Rightarrow> input_event array_queue \<Rightarrow> pid \<Rightarrow> nat \<Rightarrow> kernel \<Rightarrow> kernel \<Rightarrow> bool" for X M Q p where
  waits_start: "waits X M Q p 0 k k"
| waits_quiet: "waits X M Q p n k k1 \<Longrightarrow> quiet_step X M Q k1 k2 \<Longrightarrow> waits X M Q p n k k2"
| waits_sched: "waits X M Q p n k k1 \<Longrightarrow> sched_step X M Q k1 k2 \<Longrightarrow> runs (ptab k2) p \<Longrightarrow> current (ptab k2) \<noteq> p \<Longrightarrow>
    waits X M Q p (Suc n) k k2"

definition place :: "pid \<Rightarrow> pid list \<Rightarrow> nat" where
  "place p q = length (takeWhile (\<lambda>x. x \<noteq> p) q)"

lemma place_less: "p \<in> set q \<Longrightarrow> place p q < length q"
  by (induction q) (auto simp: place_def)

lemma place_append: "p \<in> set q \<Longrightarrow> place p (q @ r) = place p q"
  by (induction q) (auto simp: place_def)

lemma place_drop:
  assumes "p \<in> set (pre @ x # post)" "p \<notin> set pre" "p \<noteq> x"
  shows "p \<in> set post" "place p post < place p (pre @ x # post)"
proof -
  show "p \<in> set post" using assms by simp
  have "takeWhile (\<lambda>x. x \<noteq> p) (pre @ x # post) = pre @ x # takeWhile (\<lambda>x. x \<noteq> p) post"
    using assms(2,3) by (auto simp: takeWhile_append)
  then show "place p post < place p (pre @ x # post)" by (simp add: place_def)
qed

lemma decides_moves_up:
  assumes "decides k k'" "p \<in> set (runnable (ptab k))" "runs (ptab k') p" "current (ptab k') \<noteq> p"
  shows "p \<in> set (runnable (ptab k')) \<and> place p (runnable (ptab k')) < place p (runnable (ptab k))"
proof -
  obtain t new where t: "runnable t = runnable (ptab k) @ new" "picks t (ptab k')"
    using assms(1) by (auto simp: decides_def)
  have r: "runs t p = runs (ptab k') p" using t(2) by (auto simp: picks_def runs_def)
  have pt: "p \<in> set (runnable t)" "place p (runnable t) = place p (runnable (ptab k))"
    using assms(2) t(1) by (simp_all add: place_append)
  then obtain pre x post where x: "runnable t = pre @ x # post" "\<forall>y \<in> set pre. \<not> runs t y"
    "ptab k' = t \<lparr> runnable := post, current := x \<rparr>"
    using t(2) r assms(3) unfolding picks_def by blast
  have "p \<notin> set pre" "p \<noteq> x" using x r assms(3,4) by auto
  then show ?thesis using place_drop[of p pre x post] pt x by simp
qed

lemma waits_place:
  assumes "waits X M Q p n k k'" "p \<in> set (runnable (ptab k))"
  shows "p \<in> set (runnable (ptab k')) \<and> place p (runnable (ptab k')) + n \<le> place p (runnable (ptab k))"
  using assms
proof (induction rule: waits.induct)
  case (waits_quiet n k k1 k2)
  then show ?case using quiet_step_table(1)[OF waits_quiet(2)] by (auto simp: tab_def place_append)
next
  case (waits_sched n k k1 k2)
  then show ?case using decides_moves_up[OF sched_step_decides[OF waits_sched(2)], of p] by auto
qed simp

end
