(* ===== verification/Process_Memory.thy ===== *)
theory Process_Memory
  imports Scheduling
begin

text \<open>
  The memory of the processes.  \<open>kernel_frames R k\<close> extends the accounting of frames to the process
  table: the live address spaces are those of the processes in it.  A fork adds one, an exit changes
  none, a \<open>wait\<close> that reaps a child removes its.
\<close>

section \<open>Accounting\<close>

lemma mset_as_frames:
  assumes "mset as = mset bs"
  shows "mset (as_frames as) = mset (as_frames bs)"
proof -
  have sum: "mset (as_frames xs) = (\<Sum>a \<in># mset xs. mset (bt_values (mapped_pages a)))" for xs
    by (induction xs) (simp_all add: as_frames_def)
  show ?thesis unfolding sum assms ..
qed

lemma frames_inv_mset:
  assumes "mset as = mset bs"
  shows "frames_inv R as k = frames_inv R bs k"
proof -
  note fr = mset_as_frames[OF assms]
  have s: "set (as_frames as) = set (as_frames bs)" using fr by (rule mset_eq_setD)
  have c: "count_list (as_frames as) f = count_list (as_frames bs) f" for f using fr by (metis count_mset)
  have "mset (map p4 as) = mset (map p4 bs)" using assms by simp
  then have "distinct (map p4 as) = distinct (map p4 bs)" by (rule mset_eq_imp_distinct_iff)
  then show ?thesis
    unfolding frames_inv_def refs_inv_cong[OF s c] s mset_eq_setD[OF assms] by simp
qed

definition spaces :: "process_table \<Rightarrow> address_space list" where
  "spaces t = map aspace (bt_values (procs t))"

definition kernel_frames :: "nat set \<Rightarrow> kernel \<Rightarrow> bool" where
  "kernel_frames R k \<longleftrightarrow> bt_ok (procs (ptab k)) \<and> frames_inv R (spaces (ptab k)) (km k)"

text \<open>The address spaces of the others.\<close>

definition other_spaces :: "pid \<Rightarrow> process_table \<Rightarrow> address_space list" where
  "other_spaces p t = map aspace (bt_values (bt_remove p (procs t)))"

lemma spaces_split:
  assumes "bt_ok (procs t)" "bt_get (procs t) p = Some pr"
  shows "mset (spaces t) = mset (aspace pr # other_spaces p t)"
  using mset_bt_remove[OF assms] unfolding spaces_def other_spaces_def
  by (metis image_mset_add_mset mset.simps(2) mset_map)

lemma spaces_set_same:
  "bt_ok (procs t) \<Longrightarrow> bt_get (procs t) p = Some pr \<Longrightarrow> aspace pr' = aspace pr \<Longrightarrow> spaces (set_proc p pr' t) = spaces t"
  unfolding spaces_def set_proc_simps by (rule bt_insert_map_same)

lemma spaces_set_new:
  "bt_get (procs t) p = None \<Longrightarrow> mset (spaces (set_proc p pr t)) = add_mset (aspace pr) (mset (spaces t))"
  unfolding spaces_def set_proc_simps by (metis image_mset_add_mset mset.simps(2) mset_bt_insert_new mset_map)

lemma spaces_push [simp]: "spaces (push_runnable p t) = spaces t"
  by (simp add: spaces_def)

lemma kernel_frames_split:
  assumes "kernel_frames R k" "proc_of p k = Some pr"
  shows "frames_inv R (aspace pr # other_spaces p (ptab k)) (km k)"
  using assms frames_inv_mset[OF spaces_split] by (auto simp: kernel_frames_def proc_of_def)

lemma frames_inv_cr3 [simp]: "frames_inv R as (switch_cr3 f k) = frames_inv R as k"
  by (simp add: frames_inv_def refs_inv_def switch_cr3_def kmem_inv_def kfree_def kmanaged_def)

section \<open>Fork\<close>

definition forked :: "kernel \<Rightarrow> pid \<Rightarrow> process \<Rightarrow> address_space \<Rightarrow> process" where
  "forked k child pr space = \<lparr> pid_of = child, parent = current (ptab k), pname = pname pr, pstate = Runnable,
     aspace = space, trap = (trap pr) \<lparr> rax := 0 \<rparr>, signals = [], children_exited = [],
     uid = uid pr, gid = gid pr, euid = euid pr, egid = egid pr \<rparr>"

lemma fork_result:
  assumes X: "mapper_frames_ok X R" and inv: "kernel_frames R k" and cur: "current_proc k = Some pr"
    and two: "2 \<le> card (kfree (km k))" and canon: "\<forall>vf \<in> set (mapped_pages (aspace pr)). virt_ok X (fst vf)"
    and sat: "\<forall>f. count_list (bt_values (mapped_pages (aspace pr)) @ as_frames (spaces (ptab k))) f \<le> 255"
    and fresh: "proc_of (next_pid k mod 2 ^ 32) k = None"
  obtains space k' where "fork X k = (Ok (next_pid k mod 2 ^ 32), k')" "kernel_frames R k'"
    "mapped_pages space = mapped_pages (aspace pr)" "p4 space \<noteq> p4 (aspace pr)"
    "ptab k' = set_proc (current (ptab k)) (pr \<lparr> trap := (trap pr) \<lparr> rax := of_nat (next_pid k mod 2 ^ 32) \<rparr> \<rparr>)
       (set_proc (next_pid k mod 2 ^ 32) (forked k (next_pid k mod 2 ^ 32) pr space)
         (push_runnable (next_pid k mod 2 ^ 32) (ptab k)))"
proof -
  let ?cur = "current (ptab k)" and ?c = "next_pid k mod 2 ^ 32" and ?a = "aspace pr"
  have p: "proc_of ?cur k = Some pr" using cur by (simp add: current_proc_def)
  let ?o = "other_spaces ?cur (ptab k)"
  have ms: "mset (spaces (ptab k)) = mset (?a # ?o)"
    using spaces_split inv p by (auto simp: kernel_frames_def proc_of_def)
  have cnt: "count_list (as_frames (spaces (ptab k))) f = count_list (as_frames (?a # ?o)) f" for f
    using mset_as_frames[OF ms] by (metis count_mset)
  then have sat': "\<forall>f. count_list (bt_values (mapped_pages ?a) @ as_frames (?a # ?o)) f \<le> 255"
    using sat by (simp del: as_frames_Cons)
  obtain space m where sp: "clone_cow X ?a (km k) = (Ok space, m)" "mapped_pages space = mapped_pages ?a"
    "frames_inv R (space # ?a # ?o) m"
    using clone_cow_props[OF X kernel_frames_split[OF inv p] two canon sat'] by blast
  define k1 where "k1 = k \<lparr> km := m, next_pid := (next_pid k + 1) mod 2 ^ 64 \<rparr>"
  define t where "t = set_proc ?c (forked k ?c pr space) (push_runnable ?c (ptab k))"
  define pr' where "pr' = pr \<lparr> trap := (trap pr) \<lparr> rax := of_nat ?c \<rparr> \<rparr>"
  have ne: "?cur \<noteq> ?c" using p fresh by auto
  have t: "bt_ok (procs t)" "bt_get (procs t) ?cur = Some pr" "aspace pr' = ?a"
    using inv p ne by (simp_all add: t_def kernel_frames_def proc_of_def pr'_def)
  have "mset (spaces (set_proc ?cur pr' t)) = mset (space # ?a # ?o)"
    using spaces_set_same[OF t] spaces_set_new[of "push_runnable ?c (ptab k)" ?c] fresh ms
    by (simp add: t_def proc_of_def forked_def)
  from frames_inv_mset[OF this] have kf: "kernel_frames R (k1 \<lparr> ptab := set_proc ?cur pr' t \<rparr>)"
    using sp(3) t(1) by (simp add: kernel_frames_def k1_def)
  have "fork X k = (Ok ?c, k1 \<lparr> ptab := set_proc ?cur pr' t \<rparr>)"
    using p sp(1) fresh ne
    by (simp add: fork_def sbind_def sget_def slift_def on_km_def alloc_pid_def insert_process_def Let_def
        proc_of_def supd_def sret_def fork_return_def upd_ptab_def forked_def k1_def t_def pr'_def)
  moreover have "p4 space \<noteq> p4 ?a" using sp(3) by (auto simp: frames_inv_def)
  ultimately show ?thesis using that[of "k1 \<lparr> ptab := set_proc ?cur pr' t \<rparr>" space] kf sp(2) by (simp add: t_def pr'_def)
qed

section \<open>Exit and wait\<close>

lemma cleanup_pid_unmapped:
  assumes "\<forall>m \<in> set (shm_mappings k). map_pid m \<noteq> p"
  obtains k' where "cleanup_pid p k = (Ok (), k')" "ptab k' = ptab k" "km k' = km k"
proof -
  have f: "filter (\<lambda>m. map_pid m = p) (shm_mappings k) = []" using assms by (simp add: filter_empty_conv)
  have "cleanup_pid p k = (Ok (), k \<lparr> mailboxes := bt_remove p (mailboxes k),
      shm_mappings := filter (\<lambda>m. map_pid m \<noteq> p) (shm_mappings k), shm_va_next := bt_remove p (shm_va_next k) \<rparr>)"
    unfolding cleanup_pid_def sbind_pure by (simp add: f sbind_pure) (simp add: supd_def)
  then show ?thesis by (rule that) simp_all
qed

text \<open>What \<open>bury\<close> leaves in the table.\<close>

lemma bury_result:
  fixes code :: u32
  assumes "bt_ok (procs (ptab k))" "proc_of p k = Some pr" "proc_of (parent pr) k = Some par" "parent pr \<noteq> p"
  defines "k' \<equiv> bury p code pr k"
  shows "proc_of p k' = Some (pr \<lparr> pstate := Zombie code \<rparr>)"
    "\<exists>st. proc_of (parent pr) k' = Some (par \<lparr> children_exited := children_exited par @ [(p, code)], pstate := st \<rparr>) \<and>
       st = (if pstate par = Sleeping then Runnable else pstate par)"
    "spaces (ptab k') = spaces (ptab k)" "bt_ok (procs (ptab k'))" "km k' = km k"
    "q \<noteq> p \<Longrightarrow> q \<noteq> parent pr \<Longrightarrow> proc_of q k' = proc_of q k"
proof -
  let ?z = "pr \<lparr> pstate := Zombie code \<rparr>" and ?t = "set_proc p (pr \<lparr> pstate := Zombie code \<rparr>) (ptab k)"
  have t: "bt_ok (procs ?t)" "bt_get (procs ?t) (parent pr) = Some par" "spaces ?t = spaces (ptab k)"
    using assms(1-4) spaces_set_same[of "ptab k" p pr ?z] by (simp_all add: proc_of_def)
  note sp = spaces_set_same[OF t(1,2)]
  show "spaces (ptab k') = spaces (ptab k)" "bt_ok (procs (ptab k'))" "km k' = km k"
    using assms sp t by (auto simp: bury_def Let_def proc_of_def split: option.splits if_splits)
  show "proc_of p k' = Some ?z"
    "\<exists>st. proc_of (parent pr) k' = Some (par \<lparr> children_exited := children_exited par @ [(p, code)], pstate := st \<rparr>) \<and>
       st = (if pstate par = Sleeping then Runnable else pstate par)"
    "q \<noteq> p \<Longrightarrow> q \<noteq> parent pr \<Longrightarrow> proc_of q k' = proc_of q k"
    using assms by (auto simp: bury_def Let_def)
qed

lemma schedule_next_frame:
  assumes "schedule_next k = (Ok out, k')"
  shows "procs (ptab k') = procs (ptab k)" "\<exists>f. km k' = km k \<or> km k' = switch_cr3 f (km k)"
proof -
  obtain q t where t: "pick_next (ptab k) = (q, t)" by (cases "pick_next (ptab k)")
  show "procs (ptab k') = procs (ptab k)" "\<exists>f. km k' = km k \<or> km k' = switch_cr3 f (km k)"
    using assms t pick_next_picks(2)[OF t]
    by (cases q; auto simp: schedule_next_def Let_def split: if_splits option.splits)+
qed

lemma exit_result:
  assumes inv: "kernel_frames R k" and cur: "current_proc k = Some pr"
    and par: "proc_of (parent pr) k = Some par" "parent pr \<noteq> current (ptab k)"
    and shm: "\<forall>m \<in> set (shm_mappings k). map_pid m \<noteq> current (ptab k)"
    and run: "exit_current code k = (Ok out, k')"
  shows "kernel_frames R k'" "kfree (km k') = kfree (km k)" "spaces (ptab k') = spaces (ptab k)"
    "proc_of (current (ptab k)) k' = Some (pr \<lparr> pstate := Zombie code \<rparr>)"
    "proc_of (parent pr) k' = Some (par \<lparr> children_exited := children_exited par @ [(current (ptab k), code)],
       pstate := (if pstate par = Sleeping then Runnable else pstate par) \<rparr>)"
    "q \<noteq> current (ptab k) \<Longrightarrow> q \<noteq> parent pr \<Longrightarrow> proc_of q k' = proc_of q k"
proof -
  let ?p = "current (ptab k)"
  have rel: "ptab (release_if_owner ?p k) = ptab k" "km (release_if_owner ?p k) = km k"
    "shm_mappings (release_if_owner ?p k) = shm_mappings k"
    by (simp_all add: release_if_owner_def)
  obtain k1 where k1: "cleanup_pid ?p (release_if_owner ?p k) = (Ok (), k1)" "ptab k1 = ptab k" "km k1 = km k"
    by (rule cleanup_pid_unmapped[of "release_if_owner ?p k" ?p]) (use shm rel in auto)
  have same: "proc_of r k1 = proc_of r k" for r by (simp add: proc_of_def k1(2))
  have pr: "proc_of ?p k1 = Some pr" using cur by (simp add: current_proc_def same)
  have sched: "schedule_next (bury ?p code pr k1) = (Ok out, k')"
    using run k1(1) pr by (simp add: exit_current_def sbind_pure) (simp add: sbind_def sget_def supd_def)
  have ok: "bt_ok (procs (ptab k1))" using inv by (simp add: kernel_frames_def k1(2))
  note b = bury_result[OF ok pr par(1)[folded same] par(2), where code = code]
  note f = schedule_next_frame[OF sched]
  have same': "proc_of r k' = proc_of r (bury ?p code pr k1)" for r using f(1) by (simp add: proc_of_def)
  show sp: "spaces (ptab k') = spaces (ptab k)" using b(3) f(1) by (simp add: spaces_def k1(2))
  obtain g where g: "km k' = km k \<or> km k' = switch_cr3 g (km k)" using f(2) b(5) k1(3) by auto
  then show "kfree (km k') = kfree (km k)" by (auto simp: switch_cr3_def kfree_def)
  show "kernel_frames R k'" using inv b(4) f(1) sp g by (auto simp: kernel_frames_def)
  show "proc_of ?p k' = Some (pr \<lparr> pstate := Zombie code \<rparr>)" using b(1) same' by simp
  show "proc_of (parent pr) k' = Some (par \<lparr> children_exited := children_exited par @ [(?p, code)],
       pstate := (if pstate par = Sleeping then Runnable else pstate par) \<rparr>)"
    using b(2) same' by auto
  show "q \<noteq> ?p \<Longrightarrow> q \<noteq> parent pr \<Longrightarrow> proc_of q k' = proc_of q k" using b(6) same' same by simp
qed

lemma wait_result:
  assumes inv: "kernel_frames R k" and p: "proc_of p k = Some pr" "children_exited pr = (c, code) # rest" "c \<noteq> p"
    and z: "proc_of c k = Some z" "mapped_pages (aspace z) \<noteq> []"
  obtains k' where "wait_any p k = (Ok (Some (c, code)), k')" "kernel_frames R k'" "proc_of c k' = None"
    "proc_of p k' = Some (pr \<lparr> children_exited := rest \<rparr>)"
    "kfree (km k') = kfree (km k) \<union> (set (bt_values (mapped_pages (aspace z))) - set (as_frames (other_spaces c (ptab k)))) \<union> {p4 (aspace z)}"
proof -
  let ?t = "set_proc p (pr \<lparr> children_exited := rest \<rparr>) (ptab k)"
  let ?k2 = "upd_ptab (\<lambda>t. t \<lparr> procs := bt_remove c (procs t) \<rparr>) (upd_ptab (set_proc p (pr \<lparr> children_exited := rest \<rparr>)) k)"
  have ok: "bt_ok (procs (ptab k))" using inv by (simp add: kernel_frames_def)
  obtain m where m: "destroy (aspace z, km k) = (Ok (), (aspace z \<lparr> mapped_pages := [] \<rparr>, m))"
    "frames_inv R (other_spaces c (ptab k)) m"
    "kfree m = kfree (km k) \<union> (set (bt_values (mapped_pages (aspace z))) - set (as_frames (other_spaces c (ptab k)))) \<union> {p4 (aspace z)}"
    using destroy_props[OF kernel_frames_split[OF inv z(1)]] by blast
  have "wait_any p k = (Ok (Some (c, code)), ?k2 \<lparr> km := m \<rparr>)"
    using p z m(1) by (simp add: wait_any_def Let_def drop_process_def drop_address_space_def)
  moreover have "kernel_frames R (?k2 \<lparr> km := m \<rparr>)"
  proof -
    have t: "bt_ok (procs ?t)" "bt_get (procs ?t) c = Some z" using ok p z by (simp_all add: proc_of_def)
    have "mset (aspace z # map aspace (bt_values (bt_remove c (procs ?t)))) = mset (spaces ?t)"
      using spaces_split[OF t] by (simp add: other_spaces_def)
    also have "spaces ?t = spaces (ptab k)" by (rule spaces_set_same) (use ok p in \<open>auto simp: proc_of_def\<close>)
    also have "mset (spaces (ptab k)) = mset (aspace z # other_spaces c (ptab k))"
      using spaces_split ok z(1) by (simp add: proc_of_def)
    finally have "mset (map aspace (bt_values (bt_remove c (procs ?t)))) = mset (other_spaces c (ptab k))" by simp
    from frames_inv_mset[OF this] show ?thesis
      using m(2) ok unfolding kernel_frames_def spaces_def by (simp del: map_map)
  qed
  moreover have "proc_of c (?k2 \<lparr> km := m \<rparr>) = None" "proc_of p (?k2 \<lparr> km := m \<rparr>) = Some (pr \<lparr> children_exited := rest \<rparr>)"
    using p(3) by (simp_all add: proc_of_def)
  ultimately show ?thesis using that m(3) by simp
qed

end
