(* ===== verification/Sample_Kernel.thy ===== *)
theory Sample_Kernel
  imports Scheduling Sample_Machine
begin

text \<open>
  Concrete kernels on which the witnesses run: a given list of processes on the sample machine, a paging
  unit that maps every address to itself, an input queue as the crate documents it.
\<close>

definition sample_proc :: "pid \<Rightarrow> pid \<Rightarrow> process" where
  "sample_proc p par = \<lparr> pid_of = p, parent = par, pname = [], pstate = Runnable, aspace = sample_as,
     trap = default_trap_frame, signals = [], children_exited = [], uid = 1000, gid = 1000, euid = 1000, egid = 1000 \<rparr>"

definition sample_kernel :: "process list \<Rightarrow> pid list \<Rightarrow> pid \<Rightarrow> kernel" where
  "sample_kernel ps q cur = \<lparr> km = sample_kmem,
     ptab = \<lparr> procs = map (\<lambda>p. (pid_of p, p)) ps, runnable = q, current = cur \<rparr>, next_pid = 7, exec_dirs = [],
     return_ctx = False, shm_table = [], shm_mappings = [], shm_va_next = [], next_handle = 1, mailboxes = [],
     fb_owner = 0, fb_frames = [], fb_va = 0, fb_len = 0, fbdev = None, gpu = None, input_q = [], fsys = ramfs_new,
     dks = None, fat = None, user_cs = 0x23, user_ss = 0x1B, uptime = 0, keyboard_q = [], screen = [], serial = [],
     syscall_count = 0 \<rparr>"

definition sample_mmu :: mmu where
  "sample_mmu = \<lparr> mmu_load = (\<lambda>m a. Some (pm m a)), mmu_store = (\<lambda>m a b. Stored (m \<lparr> pm := (pm m)(a := b) \<rparr>)) \<rparr>"

definition sample_queue :: "input_event array_queue" where
  "sample_queue = \<lparr> aq_push = (\<lambda>x q. if length q < 256 then (True, q @ [x]) else (False, q)),
     aq_pop = (\<lambda>q. case q of [] \<Rightarrow> (None, []) | x # r \<Rightarrow> (Some x, r)) \<rparr>"

definition user_frame :: trap_frame where
  "user_frame = default_trap_frame \<lparr> cs := 0x23 \<rparr>"

lemmas sample_defs = sample_kernel_def sample_proc_def user_frame_def default_trap_frame_def

lemma sample_timer:
  "\<exists>f k'. on_timer user_frame (sample_kernel [sample_proc 1 0, sample_proc 2 1, sample_proc 3 1] [2, 3] 1) = (Ok (Resume f), k') \<and>
     current (ptab k') = 2 \<and> runnable (ptab k') = [3, 1] \<and> runs (ptab k') 3"
  by (simp add: sample_defs on_timer_def deliver_pending_def current_proc_def proc_of_def sbind_def sret_def
      from_user_def reschedule_def save_current_def pick_next_def upd_ptab_def set_proc_def push_runnable_def Let_def runs_def)

end
