(* ===== verification/Process_Theorems.thy ===== *)
theory Process_Theorems
  imports Process_Memory Sample_Kernel
begin

text \<open>
  Properties of the processes: which of them run, what a system call may change of their
  identities, and what becomes of their memory.
\<close>

section \<open>Runs of the machine\<close>

inductive machine :: "x86_ops \<Rightarrow> mmu \<Rightarrow> input_event array_queue \<Rightarrow> kernel \<Rightarrow> kernel \<Rightarrow> bool" for X M Q where
  machine_start: "machine X M Q k k"
| machine_quiet: "machine X M Q k k1 \<Longrightarrow> quiet_step X M Q k1 k2 \<Longrightarrow> machine X M Q k k2"
| machine_sched: "machine X M Q k k1 \<Longrightarrow> sched_step X M Q k1 k2 \<Longrightarrow> machine X M Q k k2"

lemma machine_queued:
  assumes "machine X M Q k k'" "queued (ptab k)"
  shows "queued (ptab k')"
  using assms
proof (induction rule: machine.induct)
  case (machine_quiet k k1 k2)
  show ?case by (rule quiet_step_table(2)[OF machine_quiet(2) machine_quiet.IH[OF machine_quiet.prems]])
next
  case (machine_sched k k1 k2)
  show ?case by (rule decides_queued[OF sched_step_decides[OF machine_sched(2)] machine_sched.IH[OF machine_sched.prems]])
qed

lemma picks_busy:
  assumes "picks t t'" "queued t" "runs t' p" "p \<noteq> 0"
  shows "runs t' (current t')"
  using assms(1) unfolding picks_def
proof (elim disjE exE conjE)
  fix pre q post assume "runs t q" "t' = t \<lparr> runnable := post, current := q \<rparr>"
  then show ?thesis by (simp add: runs_def)
next
  assume none: "\<forall>x \<in> set (runnable t). \<not> runs t x" and t': "t' = t \<lparr> runnable := [] \<rparr>"
  then have "runs t p" using assms(3) by (simp add: runs_def)
  then have "p = current t" using assms(2,4) none by (auto simp: queued_def)
  then show ?thesis using assms(3) t' by simp
qed

lemma decides_busy:
  assumes "decides k k'" "queued (ptab k)" "runs (ptab k') p" "p \<noteq> 0"
  shows "runs (ptab k') (current (ptab k'))"
proof -
  obtain t where "queued t" "picks t (ptab k')" using assms(1,2) unfolding decides_def by blast
  then show ?thesis using picks_busy assms(3,4) by blast
qed

text \<open>C14: No runnable process is lost.  From a table where every runnable process is current or queued,
  whatever system calls, page faults, signals and timer interrupts follow, every runnable process is
  current or queued; and whenever a transition leaves a scheduling decision behind, the processor is
  with a runnable process unless none is left.\<close>

theorem no_runnable_process_lost:
  assumes "machine X M Q k k'" "queued (ptab k)"
  shows "queued (ptab k') \<and>
    (\<forall>k'' p. sched_step X M Q k' k'' \<and> runs (ptab k'') p \<and> p \<noteq> 0 \<longrightarrow> runs (ptab k'') (current (ptab k'')))"
  using machine_queued[OF assms] decides_busy[OF sched_step_decides] by blast

theorem no_runnable_process_lost_witness:
  "\<exists>k'. machine sample_x86 sample_mmu sample_queue (sample_kernel [sample_proc 1 0, sample_proc 2 1, sample_proc 3 1] [2, 3] 1) k' \<and>
     queued (ptab k') \<and> current (ptab k') = 2"
proof -
  let ?k = "sample_kernel [sample_proc 1 0, sample_proc 2 1, sample_proc 3 1] [2, 3] 1"
  obtain f k' where k': "on_timer user_frame ?k = (Ok (Resume f), k')" "current (ptab k') = 2" using sample_timer by blast
  have "from_user (cs user_frame)" by (simp add: user_frame_def from_user_def)
  then have m: "machine sample_x86 sample_mmu sample_queue ?k k'"
    using k'(1) by (blast intro: machine.intros sched_step.intros)
  have "queued (ptab ?k)" by (auto simp: queued_def runs_def sample_defs split: if_splits)
  then show ?thesis using no_runnable_process_lost[OF m] k'(2) m by blast
qed

text \<open>C15: No starvation.  A runnable process that is queued is passed over by fewer consecutive scheduling
  decisions than the queue is long, whatever the other processes do in between (they may fork, wake
  others and be woken, which only appends to the queue), and it keeps its place in the queue.\<close>

theorem no_starvation:
  assumes "waits X M Q p n k k'" "p \<in> set (runnable (ptab k))"
  shows "n < length (runnable (ptab k)) \<and> p \<in> set (runnable (ptab k'))"
  using waits_place[OF assms] place_less[OF assms(2)] by auto

theorem no_starvation_witness:
  "\<exists>k'. waits sample_x86 sample_mmu sample_queue 3 1 (sample_kernel [sample_proc 1 0, sample_proc 2 1, sample_proc 3 1] [2, 3] 1) k' \<and>
     3 \<in> set (runnable (ptab k'))"
proof -
  let ?k = "sample_kernel [sample_proc 1 0, sample_proc 2 1, sample_proc 3 1] [2, 3] 1"
  obtain f k' where k': "on_timer user_frame ?k = (Ok (Resume f), k')" "current (ptab k') = 2" "runs (ptab k') 3"
    using sample_timer by blast
  have "from_user (cs user_frame)" by (simp add: user_frame_def from_user_def)
  then have "sched_step sample_x86 sample_mmu sample_queue ?k k'" using k'(1) by (blast intro: sched_step.intros)
  then have w: "waits sample_x86 sample_mmu sample_queue 3 (Suc 0) ?k k'"
    using k'(2,3) by (auto intro: waits.intros)
  have "3 \<in> set (runnable (ptab ?k))" by (simp add: sample_kernel_def)
  then show ?thesis using no_starvation[OF w] w by auto
qed

section \<open>Privileges\<close>

definition privileged :: "process_table \<Rightarrow> pid \<Rightarrow> bool" where
  "privileged t p \<longleftrightarrow> (\<exists>pr. bt_get (procs t) p = Some pr \<and> (uid pr = ROOT_UID \<or> euid pr = ROOT_UID))"

definition unprivileged :: "process_table \<Rightarrow> pid \<Rightarrow> bool" where
  "unprivileged t p \<longleftrightarrow> (\<exists>pr. bt_get (procs t) p = Some pr \<and> uid pr \<noteq> ROOT_UID \<and> euid pr \<noteq> ROOT_UID)"

fun no_gain :: "process_table \<times> nat \<Rightarrow> process_table \<times> nat \<Rightarrow> bool" where
  "no_gain (t, _) (t', _) \<longleftrightarrow> current t' = current t \<and>
     (unprivileged t (current t) \<longrightarrow> unprivileged t' (current t) \<and> (\<forall>p. privileged t' p \<longrightarrow> privileged t p))"

lemma privileged_set: "privileged (set_proc q pr t) p \<longleftrightarrow>
    (if p = q then uid pr = ROOT_UID \<or> euid pr = ROOT_UID else privileged t p)"
  by (auto simp: privileged_def)

lemma unprivileged_set: "unprivileged (set_proc q pr t) p \<longleftrightarrow>
    (if p = q then uid pr \<noteq> ROOT_UID \<and> euid pr \<noteq> ROOT_UID else unprivileged t p)"
  by (auto simp: unprivileged_def)

lemma privileged_push [simp]:
  "privileged (push_runnable q t) p = privileged t p" "unprivileged (push_runnable q t) p = unprivileged t p"
  by (simp_all add: privileged_def unprivileged_def)

lemmas priv_simps = privileged_set unprivileged_set

interpretation gain: table_rel no_gain
proof (unfold_locales, goal_cases)
  case (1 s)
  then show ?case by (cases s) simp
next
  case (2 s1 s2 s3)
  then show ?case by (cases s1; cases s2; cases s3) auto
next
  case (4 t pr n a f)
  then show ?case by (auto simp: priv_simps privileged_def unprivileged_def)
next
  case (5 pr t n)
  then show ?case by (auto simp: priv_simps) (auto simp: unprivileged_def)
next
  case (6 t p pr n sigs)
  then show ?case by (auto simp: priv_simps) (auto simp: privileged_def unprivileged_def)
next
  case (7 t p pr n sigs)
  then show ?case by (auto simp: priv_simps) (auto simp: privileged_def unprivileged_def)
next
  case (8 u)
  show ?case
    by (rule keepsI)
       (auto simp: set_id_defs priv_simps split: option.splits if_splits, auto simp: unprivileged_def privileged_def)
next
  case (9 g)
  show ?case
    by (rule keepsI)
       (auto simp: set_id_defs priv_simps split: option.splits if_splits, auto simp: unprivileged_def privileged_def)
qed simp

definition fewer_privileged :: "kernel \<Rightarrow> kernel \<Rightarrow> bool" where
  "fewer_privileged k k' \<longleftrightarrow> (\<forall>p. privileged (ptab k') p \<longrightarrow> privileged (ptab k) p)"

interpretation fewer: step_rel fewer_privileged
  by unfold_locales (auto simp: fewer_privileged_def)

lemma fewer_same: "tab k' = tab k \<Longrightarrow> fewer_privileged k k'"
  by (simp add: fewer_privileged_def tab_def)

lemma fewer_bury: "proc_of p k = Some pr \<Longrightarrow> fewer_privileged k (bury p c pr k)"
  by (auto simp: fewer_privileged_def bury_def Let_def proc_of_def privileged_set split: option.splits if_splits)
     (auto simp: privileged_def)

lemma schedule_next_procs:
  assumes "schedule_next k = (r, k')"
  shows "procs (ptab k') = procs (ptab k)"
proof -
  obtain q t where t: "pick_next (ptab k) = (q, t)" by (cases "pick_next (ptab k)")
  show ?thesis
    using assms t pick_next_picks(2)[OF t]
    by (cases q) (auto simp: schedule_next_def Let_def split: if_splits option.splits)
qed

lemma fewer_exit: "keeps fewer_privileged (exit_current c)"
proof -
  have clean: "keeps fewer_privileged (cleanup_pid p)" for p
    by (rule keepsI) (blast intro: fewer_same cleanup_pid_tab)
  have sched: "keeps fewer_privileged schedule_next"
    by (rule keepsI) (simp add: fewer_privileged_def privileged_def schedule_next_procs)
  have rest: "keeps fewer_privileged (sbind (sget (proc_of p)) (\<lambda>po. case po of None \<Rightarrow> slift Panic
      | Some pr \<Rightarrow> sbind (supd (bury p c pr)) (\<lambda>_. schedule_next)))" for p
  proof (rule keepsI)
    fix k r k'
    assume run: "sbind (sget (proc_of p)) (\<lambda>po. case po of None \<Rightarrow> slift Panic
      | Some pr \<Rightarrow> sbind (supd (bury p c pr)) (\<lambda>_. schedule_next)) k = (r, k')"
    show "fewer_privileged k k'"
    proof (cases "proc_of p k")
      case None
      then show ?thesis using run by (auto simp: sbind_pure slift_def fewer.rel_refl)
    next
      case (Some pr)
      then have "schedule_next (bury p c pr k) = (r, k')" using run by (simp add: sbind_pure)
      then show ?thesis using keepsD[OF sched] fewer_bury[OF Some] fewer.rel_trans by blast
    qed
  qed
  have "fewer_privileged k (release_if_owner p k)" for p k
    by (rule fewer_same) (simp add: release_if_owner_def)
  then show ?thesis
    unfolding exit_current_def by (intro fewer.keeps_sbind fewer.keeps_pure fewer.keeps_supd clean rest)
qed

lemma fewer_wait: "wait_any p k = (r, k') \<Longrightarrow> fewer_privileged k k'"
  by (auto simp: wait_any_def Let_def fewer_privileged_def proc_of_def privileged_def tab_def dest!: drop_process_tab
      split: option.splits list.splits prod.splits if_splits)



section \<open>Memory\<close>

text \<open>C17: Fork duplicates the current process.  When frames are left for a root table, the pages are
  canonical, no frame is mapped 255 times and the next identifier is free, \<open>fork\<close> returns that
  identifier: the child is a runnable, queued copy with the same pages on a root table of its own, the
  same identities and registers but 0 as its result, the parent's result is the child, no other
  process changes, and the reference count of every frame is again the number of processes that map it.\<close>

theorem fork_duplicates:
  assumes "mapper_frames_ok X R" "kernel_frames R k" "current_proc k = Some pr" "2 \<le> card (kfree (km k))"
    "\<forall>vf \<in> set (mapped_pages (aspace pr)). virt_ok X (fst vf)"
    "\<forall>f. count_list (bt_values (mapped_pages (aspace pr)) @ as_frames (spaces (ptab k))) f \<le> 255"
    "proc_of (next_pid k mod 2 ^ 32) k = None"
  shows "let child = next_pid k mod 2 ^ 32 in \<exists>k' c. fork X k = (Ok child, k') \<and> kernel_frames R k' \<and> proc_of child k' = Some c \<and>
    parent c = current (ptab k) \<and> pstate c = Runnable \<and> child \<in> set (runnable (ptab k')) \<and>
    mapped_pages (aspace c) = mapped_pages (aspace pr) \<and> p4 (aspace c) \<noteq> p4 (aspace pr) \<and>
    trap c = (trap pr) \<lparr> rax := 0 \<rparr> \<and> (uid c, gid c, euid c, egid c) = (uid pr, gid pr, euid pr, egid pr) \<and>
    current_proc k' = Some (pr \<lparr> trap := (trap pr) \<lparr> rax := of_nat child \<rparr> \<rparr>) \<and>
    (\<forall>q. q \<noteq> child \<and> q \<noteq> current (ptab k) \<longrightarrow> proc_of q k' = proc_of q k)"
proof -
  let ?c = "next_pid k mod 2 ^ 32"
  obtain space k' where f: "fork X k = (Ok ?c, k')" "kernel_frames R k'"
    "mapped_pages space = mapped_pages (aspace pr)" "p4 space \<noteq> p4 (aspace pr)"
    "ptab k' = set_proc (current (ptab k)) (pr \<lparr> trap := (trap pr) \<lparr> rax := of_nat ?c \<rparr> \<rparr>)
       (set_proc ?c (forked k ?c pr space) (push_runnable ?c (ptab k)))"
    using fork_result[OF assms] .
  have "current (ptab k) \<noteq> ?c" using assms(3,7) by (auto simp: current_proc_def)
  then show ?thesis unfolding Let_def using f
    by (intro exI[of _ k'] exI[of _ "forked k ?c pr space"])
       (simp add: proc_of_def current_proc_def forked_def)
qed

lemma sample_kernel_frames: "kernel_frames {} (sample_kernel [sample_proc 1 0] [] 1)"
  using sample_frames_inv by (simp add: kernel_frames_def spaces_def sample_defs bt_ok_Cons)

theorem fork_duplicates_witness:
  "\<exists>k'. fork sample_x86 (sample_kernel [sample_proc 1 0] [] 1) = (Ok 7, k') \<and> kernel_frames {} k'"
proof -
  let ?k = "sample_kernel [sample_proc 1 0] [] 1"
  have pr: "current_proc ?k = Some (sample_proc 1 0)" "km ?k = sample_kmem" "next_pid ?k mod 2 ^ 32 = 7"
    "proc_of 7 ?k = None" "aspace (sample_proc 1 0) = sample_as" "spaces (ptab ?k) = [sample_as]"
    by (simp_all add: sample_defs current_proc_def proc_of_def spaces_def)
  have "\<forall>vf \<in> set (mapped_pages sample_as). virt_ok sample_x86 (fst vf)" by (simp add: sample_x86_def)
  moreover have "\<forall>f. count_list (bt_values (mapped_pages sample_as) @ as_frames [sample_as]) f \<le> 255"
    by (simp add: sample_as_def as_frames_def)
  moreover have "2 \<le> card (kfree sample_kmem)" by (simp add: sample_kfree)
  ultimately show ?thesis
    using fork_duplicates[OF sample_mapper(1) sample_kernel_frames pr(1)] pr by (auto simp: Let_def simp del: as_frames_Cons)
qed


definition sample_family :: kernel where
  "sample_family = (sample_kernel [(sample_proc 1 0) \<lparr> pstate := Sleeping \<rparr>, (sample_proc 2 1) \<lparr> aspace := sharing_as \<rparr>] [] 2)
     \<lparr> km := shared_kmem \<rparr>"


end
