(* ===== verification/Shared_Memory.thy ===== *)
theory Shared_Memory
  imports Sample_Kernel
begin

text \<open>
  Shared regions.  \<open>shm_counts k ms\<close>: the reference count of every region is its number of mappings in
  \<open>ms\<close>, and every mapping is of a region that exists.  With \<open>ms\<close> the recorded mappings this is the
  invariant of the table; while a process is cleaned up, \<open>ms\<close> also has the mappings still to release.
\<close>

section \<open>The invariant\<close>

definition mappings_of :: "nat \<Rightarrow> shm_mapping list \<Rightarrow> nat" where
  "mappings_of h ms = length (filter (\<lambda>m. map_handle m = h) ms)"

definition shm_counts :: "kernel \<Rightarrow> shm_mapping list \<Rightarrow> bool" where
  "shm_counts k ms \<longleftrightarrow>
    (\<forall>h r. bt_get (shm_table k) h = Some r \<longrightarrow> shm_refs r = mappings_of h ms \<and> h < next_handle k) \<and>
    (\<forall>m \<in> set ms. bt_get (shm_table k) (map_handle m) \<noteq> None)"

definition shm_inv :: "kernel \<Rightarrow> bool" where
  "shm_inv k \<longleftrightarrow> shm_counts k (shm_mappings k)"

lemma mappings_of_simps [simp]:
  "mappings_of h [] = 0"
  "mappings_of h (m # ms) = (if map_handle m = h then Suc (mappings_of h ms) else mappings_of h ms)"
  "mappings_of h (ms @ ms') = mappings_of h ms + mappings_of h ms'"
  by (simp_all add: mappings_of_def)

lemma mappings_of_0: "mappings_of h ms = 0 \<longleftrightarrow> (\<forall>m \<in> set ms. map_handle m \<noteq> h)"
  by (auto simp: mappings_of_def filter_empty_conv)

lemma shm_counts_mset:
  assumes "mset ms = mset ms'"
  shows "shm_counts k ms = shm_counts k ms'"
proof -
  have "mset (filter P ms) = mset (filter P ms')" for P using assms by simp
  then have "mappings_of h ms = mappings_of h ms'" for h
    unfolding mappings_of_def by (metis size_mset)
  moreover have "set ms = set ms'" using assms by (rule mset_eq_setD)
  ultimately show ?thesis by (simp add: shm_counts_def)
qed

lemma shm_counts_cong:
  "shm_table k' = shm_table k \<Longrightarrow> next_handle k' = next_handle k \<Longrightarrow> shm_counts k' ms = shm_counts k ms"
  by (simp add: shm_counts_def)

lemma mset_swap_remove:
  assumes "i < length xs"
  shows "mset (xs ! i # swap_remove i xs) = mset xs"
proof -
  define ys z where "ys = butlast xs" and "z = last xs"
  have xs: "xs = ys @ [z]" using assms by (cases xs rule: rev_cases) (auto simp: ys_def z_def)
  show ?thesis
  proof (cases "i = length ys")
    case True
    then show ?thesis by (simp add: xs swap_remove_def)
  next
    case False
    then have i: "i < length ys" using assms xs by simp
    then have "mset ys = add_mset (ys ! i) (mset ys - {# ys ! i #})" by (simp add: nth_mem_mset)
    moreover have "mset (ys[i := z]) = add_mset z (mset ys - {# ys ! i #})" using i by (rule mset_update)
    ultimately show ?thesis using i False by (simp add: xs swap_remove_def nth_append)
  qed
qed

section \<open>The operations\<close>

lemma shm_release_counts:
  assumes "shm_counts k (m # ms)" "shm_release (map_handle m) k = (Ok (), k')"
  shows "shm_counts k' ms" "shm_mappings k' = shm_mappings k"
    "mappings_of h ms \<noteq> 0 \<Longrightarrow> map_option shm_frames (bt_get (shm_table k') h) = map_option shm_frames (bt_get (shm_table k) h)"
proof -
  let ?h = "map_handle m"
  obtain r where r: "bt_get (shm_table k) ?h = Some r" "shm_refs r = Suc (mappings_of ?h ms)"
    using assms(1) by (auto simp: shm_counts_def)
  define k1 where "k1 = set_region ?h (r \<lparr> shm_refs := mappings_of ?h ms \<rparr>) k"
  have tab: "bt_get (shm_table k1) = (bt_get (shm_table k))(?h \<mapsto> r \<lparr> shm_refs := mappings_of ?h ms \<rparr>)"
    "next_handle k1 = next_handle k" "shm_mappings k1 = shm_mappings k" by (simp_all add: k1_def set_region_def)
  have run: "(if mappings_of ?h ms = 0 then
        sbind (on_km (sfor free_frame (shm_frames r))) (\<lambda>_. supd (\<lambda>k. k \<lparr> shm_table := bt_remove ?h (shm_table k) \<rparr>))
      else sret ()) k1 = (Ok (), k')"
    using assms(2) r unfolding shm_release_def sbind_pure by (simp add: Let_def sbind_pure k1_def)
  have "shm_counts k' ms \<and> shm_mappings k' = shm_mappings k \<and>
    (mappings_of h ms \<noteq> 0 \<longrightarrow> map_option shm_frames (bt_get (shm_table k') h) = map_option shm_frames (bt_get (shm_table k) h))"
  proof (cases "mappings_of ?h ms = 0")
    case True
    then have none: "\<forall>x \<in> set ms. map_handle x \<noteq> ?h" by (simp add: mappings_of_0)
    obtain k2 where k2: "on_km (sfor free_frame (shm_frames r)) k1 = (Ok (), k2)"
      "k' = k2 \<lparr> shm_table := bt_remove ?h (shm_table k2) \<rparr>"
      using run True by (auto simp: supd_def elim!: sbind_OkE)
    then have "shm_table k2 = shm_table k1" "next_handle k2 = next_handle k1" "shm_mappings k2 = shm_mappings k1"
      by (auto simp: on_km_def split: prod.splits)
    then have k': "bt_get (shm_table k') = (bt_get (shm_table k))(?h := None)" "next_handle k' = next_handle k"
      "shm_mappings k' = shm_mappings k" using k2(2) tab by simp_all
    then show ?thesis using assms(1) none True unfolding shm_counts_def by auto
  next
    case False
    then have "k' = k1" using run by (simp add: sret_def)
    then show ?thesis using assms(1) r tab unfolding shm_counts_def by auto
  qed
  then show "shm_counts k' ms" "shm_mappings k' = shm_mappings k"
    "mappings_of h ms \<noteq> 0 \<Longrightarrow> map_option shm_frames (bt_get (shm_table k') h) = map_option shm_frames (bt_get (shm_table k) h)"
    by auto
qed

definition shm_part :: "kernel \<Rightarrow> (nat, shm_region) btree_map \<times> nat \<times> shm_mapping list" where
  "shm_part k = (shm_table k, next_handle k, shm_mappings k)"

lemma ptab_set_region [simp]: "ptab (set_region h r k) = ptab k"
  by (simp add: set_region_def)

lemma shm_inv_part: "shm_part k' = shm_part k \<Longrightarrow> shm_inv k' = shm_inv k"
  by (simp add: shm_part_def shm_inv_def shm_counts_def)

lemma on_km_part: "on_km m k = (r, k') \<Longrightarrow> shm_part k' = shm_part k"
  by (auto simp: on_km_def shm_part_def split: prod.splits)

lemma on_current_as_part: "on_current_as f pr k = (r, k') \<Longrightarrow> shm_part k' = shm_part k"
  by (auto simp: on_current_as_def shm_part_def upd_ptab_def split: prod.splits)

lemma shm_take_va_part: "shm_take_va p n k = (r, k') \<Longrightarrow> shm_part k' = shm_part k"
  unfolding shm_take_va_def sbind_pure
  by (auto simp: sbind_def slift_def supd_def sret_def shm_part_def split: result.splits)

lemma shm_create_inv:
  assumes "shm_inv k" "next_handle k + 1 < 2 ^ 64" "sys_shm_create n k = (Ok r, k')"
  shows "shm_inv k'"
proof (cases "n = 0 \<or> SHM_MAX_SIZE < n")
  case True
  then show ?thesis using assms by (auto simp: sys_shm_create_def sret_def)
next
  case False
  obtain q k1 where q: "on_km (alloc_or_rollback alloc_zeroed_frame free_frame ((n + 4096 - 1) div 4096) []) k = (Ok q, k1)"
    "(case q of None \<Rightarrow> sret U64_MAX | Some frames \<Rightarrow> (\<lambda>k. (Ok (next_handle k),
           set_region (next_handle k)
             \<lparr> shm_frames = frames, shm_size = n, shm_creator = current (ptab k), shm_refs = 0 \<rparr>
             (k \<lparr> next_handle := (next_handle k + 1) mod 2 ^ 64 \<rparr>)))) k1 = (Ok r, k')"
    using assms(3) unfolding sys_shm_create_def if_not_P[OF False] by (rule sbind_OkE)
  note part = on_km_part[OF q(1)]
  have inv1: "shm_inv k1" using assms(1) shm_inv_part[OF part] by simp
  show ?thesis
  proof (cases q)
    case None
    then show ?thesis using q(2) inv1 by (auto simp: sret_def)
  next
    case (Some fs)
    have "\<forall>m \<in> set (shm_mappings k1). map_handle m < next_handle k1"
      using inv1 by (fastforce simp: shm_inv_def shm_counts_def)
    then have "mappings_of (next_handle k1) (shm_mappings k1) = 0" by (auto simp: mappings_of_0)
    moreover have "\<forall>h r. bt_get (shm_table k1) h = Some r \<longrightarrow> h < Suc (next_handle k1)"
      using inv1 by (fastforce simp: shm_inv_def shm_counts_def)
    ultimately show ?thesis using q(2) Some inv1 assms(2) part
      by (auto simp: shm_inv_def shm_counts_def set_region_def shm_part_def split: if_splits)
  qed
qed

lemma shm_unref_undoes:
  assumes "shm_inv k" "bt_get (shm_table k) h = Some r"
    and "shm_part k1 = (bt_insert h (r \<lparr> shm_refs := shm_refs r + 1 \<rparr>) (shm_table k), next_handle k, shm_mappings k)"
    and "shm_unref h k1 = (Ok u, k')"
  shows "shm_inv k'"
  using assms by (auto simp: shm_unref_def shm_part_def shm_inv_def shm_counts_def set_region_def split: option.splits if_splits)

lemma shm_map_inv:
  assumes inv: "shm_inv k" and run: "sys_shm_map X h mode k = (Ok r, k')"
  shows "shm_inv k'"
proof (cases "bt_get (shm_table k) h")
  case None
  then show ?thesis using run inv by (auto simp: sys_shm_map_def sbind_pure sret_def)
next
  case (Some g)
  let ?g = "g \<lparr> shm_refs := shm_refs g + 1 \<rparr>" and ?p = "current (ptab k)"
  have lt: "shm_refs g + 1 < 2 ^ 32"
    using run Some by (auto simp: sys_shm_map_def sbind_pure cadd_def split: if_splits)
  have run1: "sbind (shm_take_va ?p (length (shm_frames g))) (\<lambda>base_va. sbind (sget current_proc) (\<lambda>pr. case pr of
        None \<Rightarrow> sbind (shm_unref h) (\<lambda>_. sret U64_MAX)
      | Some pr \<Rightarrow>
          sbind (on_current_as (shm_map_pages X (shm_flags mode) base_va 0 (shm_frames g)) pr) (\<lambda>ok.
          if \<not> ok then sbind (shm_unref h) (\<lambda>_. sret U64_MAX)
          else sbind (supd (\<lambda>k. k \<lparr> shm_mappings := shm_mappings k @
                 [\<lparr> map_pid = ?p, map_handle = h, map_base = base_va, map_pages = length (shm_frames g) \<rparr>] \<rparr>))
               (\<lambda>_. sret base_va)))) (set_region h ?g k) = (Ok r, k')"
    using run Some lt unfolding sys_shm_map_def sbind_pure
    by (simp add: cadd_def sbind_pure cong: if_cong option.case_cong)
  have undo: "shm_inv k''" if "shm_part k1 = (bt_insert h ?g (shm_table k), next_handle k, shm_mappings k)"
    "sbind (shm_unref h) (\<lambda>_. sret U64_MAX) k1 = (Ok r, k'')" for k1 k''
    using that(2) by (rule sbind_OkE) (use shm_unref_undoes[OF inv Some that(1)] in \<open>auto simp: sret_def\<close>)
  have part0: "shm_part (set_region h ?g k) = (bt_insert h ?g (shm_table k), next_handle k, shm_mappings k)"
    by (simp add: shm_part_def set_region_def)
  obtain va k1 where k1: "shm_take_va ?p (length (shm_frames g)) (set_region h ?g k) = (Ok va, k1)"
    and run2: "(case current_proc k1 of
        None \<Rightarrow> sbind (shm_unref h) (\<lambda>_. sret U64_MAX)
      | Some pr \<Rightarrow>
          sbind (on_current_as (shm_map_pages X (shm_flags mode) va 0 (shm_frames g)) pr) (\<lambda>ok.
          if \<not> ok then sbind (shm_unref h) (\<lambda>_. sret U64_MAX)
          else sbind (supd (\<lambda>k. k \<lparr> shm_mappings := shm_mappings k @
                 [\<lparr> map_pid = ?p, map_handle = h, map_base = va, map_pages = length (shm_frames g) \<rparr>] \<rparr>))
               (\<lambda>_. sret va))) k1 = (Ok r, k')"
    using run1 by (rule sbind_OkE) (simp add: sbind_pure)
  note part1 = shm_take_va_part[OF k1, unfolded part0]
  show ?thesis
  proof (cases "current_proc k1")
    case None
    then show ?thesis using undo[OF part1] run2 by simp
  next
    case (Some pr)
    then obtain ok k2 where k2: "on_current_as (shm_map_pages X (shm_flags mode) va 0 (shm_frames g)) pr k1 = (Ok ok, k2)"
      "(if \<not> ok then sbind (shm_unref h) (\<lambda>_. sret U64_MAX)
        else sbind (supd (\<lambda>k. k \<lparr> shm_mappings := shm_mappings k @
               [\<lparr> map_pid = ?p, map_handle = h, map_base = va, map_pages = length (shm_frames g) \<rparr>] \<rparr>))
             (\<lambda>_. sret va)) k2 = (Ok r, k')"
      using run2 by (auto elim!: sbind_OkE)
    note part2 = on_current_as_part[OF k2(1), unfolded part1]
    show ?thesis
    proof (cases ok)
      case True
      then show ?thesis using k2(2) part2 inv \<open>bt_get (shm_table k) h = Some g\<close>
        by (auto simp: sbind_pure sret_def shm_part_def shm_inv_def shm_counts_def split: if_splits)
    qed (use undo[OF part2] k2(2) in simp)
  qed
qed

lemma mapping_index_SomeD:
  "mapping_index p base ms = Some i \<Longrightarrow> i < length ms \<and> map_pid (ms ! i) = p \<and> map_base (ms ! i) = base"
  unfolding mapping_index_def by (auto simp: find_Some_iff)

lemma shm_unmap_inv:
  assumes inv: "shm_inv k" and run: "sys_shm_unmap X ptr k = (Ok r, k')"
  shows "shm_inv k'"
proof (cases "mapping_index (current (ptab k)) ptr (shm_mappings k)")
  case None
  then show ?thesis using run inv by (auto simp: sys_shm_unmap_def sbind_pure sret_def)
next
  case (Some i)
  let ?m = "shm_mappings k ! i" and ?ms = "swap_remove i (shm_mappings k)"
  let ?k1 = "k \<lparr> shm_mappings := ?ms \<rparr>"
  have i: "i < length (shm_mappings k)" using mapping_index_SomeD[OF Some] by simp
  have c: "shm_counts k (?m # ?ms)"
    using inv shm_counts_mset[OF mset_swap_remove[OF i]] by (simp add: shm_inv_def)
  have run1: "sbind (case current_proc ?k1 of None \<Rightarrow> sret ()
                 | Some pr \<Rightarrow> on_current_as (unmap_pages X (map_base ?m) (map_pages ?m)) pr) (\<lambda>_.
          sbind (shm_release (map_handle ?m)) (\<lambda>_. sret 0)) ?k1 = (Ok r, k')"
    using run Some unfolding sys_shm_unmap_def sbind_pure by (simp add: sbind_pure)
  then obtain k2 where k2: "(case current_proc ?k1 of None \<Rightarrow> sret ()
                 | Some pr \<Rightarrow> on_current_as (unmap_pages X (map_base ?m) (map_pages ?m)) pr) ?k1 = (Ok (), k2)"
    "sbind (shm_release (map_handle ?m)) (\<lambda>_. sret 0) k2 = (Ok r, k')" by (rule sbind_OkE) simp
  have "shm_part k2 = shm_part ?k1"
    using k2(1) on_current_as_part by (auto simp: sret_def split: option.splits)
  then have k2': "shm_counts k2 (?m # ?ms)" "shm_mappings k2 = ?ms"
    using c shm_counts_cong[of k2 k] by (simp_all add: shm_part_def)
  obtain k3 where "shm_release (map_handle ?m) k2 = (Ok (), k3)" "k' = k3"
    using k2(2) by (auto simp: sret_def elim!: sbind_OkE)
  then show ?thesis using shm_release_counts(1,2)[OF k2'(1)] k2'(2) by (simp add: shm_inv_def)
qed

lemma shm_release_all:
  assumes "shm_counts k (ms @ shm_mappings k)" "sfor (\<lambda>m. shm_release (map_handle m)) ms k = (Ok u, k')"
  shows "shm_inv k'"
  using assms
proof (induction ms arbitrary: k)
  case Nil
  then show ?case by (simp add: sret_def shm_inv_def)
next
  case (Cons m ms)
  obtain k1 where k1: "shm_release (map_handle m) k = (Ok (), k1)" "sfor (\<lambda>m. shm_release (map_handle m)) ms k1 = (Ok u, k')"
    using Cons.prems(2) by (auto elim!: sbind_OkE)
  have c: "shm_counts k (m # ms @ shm_mappings k)" using Cons.prems(1) by simp
  show ?case using Cons.IH[OF _ k1(2)] shm_release_counts(1,2)[OF c k1(1)] by simp
qed

lemma shm_cleanup_inv:
  assumes inv: "shm_inv k" and run: "cleanup_pid p k = (Ok u, k')"
  shows "shm_inv k'"
proof -
  let ?own = "filter (\<lambda>m. map_pid m = p) (shm_mappings k)" and ?rest = "filter (\<lambda>m. map_pid m \<noteq> p) (shm_mappings k)"
  let ?k = "k \<lparr> mailboxes := bt_remove p (mailboxes k), shm_mappings := ?rest \<rparr>"
  have run1: "sbind (sfor (\<lambda>m. shm_release (map_handle m)) ?own)
      (\<lambda>_. supd (\<lambda>k. k \<lparr> shm_va_next := bt_remove p (shm_va_next k) \<rparr>)) ?k = (Ok u, k')"
    using run unfolding cleanup_pid_def sbind_pure by simp
  then obtain u' k1 where k1: "sfor (\<lambda>m. shm_release (map_handle m)) ?own ?k = (Ok u', k1)"
    "k' = k1 \<lparr> shm_va_next := bt_remove p (shm_va_next k1) \<rparr>" by (auto simp: supd_def elim!: sbind_OkE)
  have "mset (?own @ ?rest) = mset (shm_mappings k)"
    using multiset_partition[of "mset (shm_mappings k)" "\<lambda>m. map_pid m = p"] by simp
  then have "shm_counts k (?own @ ?rest)" using inv shm_counts_mset unfolding shm_inv_def by blast
  then have "shm_counts ?k (?own @ shm_mappings ?k)" using shm_counts_cong[of ?k k] by simp
  then have "shm_inv k1" by (rule shm_release_all[OF _ k1(1)])
  then show ?thesis using k1(2) by (simp add: shm_inv_def shm_counts_def)
qed

section \<open>Property\<close>

text \<open>The operations on shared regions: the three system calls and the clean-up of a process that ends.\<close>

inductive shm_step :: "x86_ops \<Rightarrow> kernel \<Rightarrow> kernel \<Rightarrow> bool" for X where
  shm_create: "sys_shm_create n k = (Ok r, k') \<Longrightarrow> next_handle k + 1 < 2 ^ 64 \<Longrightarrow> shm_step X k k'"
| shm_map: "sys_shm_map X h mode k = (Ok r, k') \<Longrightarrow> shm_step X k k'"
| shm_unmap: "sys_shm_unmap X ptr k = (Ok r, k') \<Longrightarrow> shm_step X k k'"
| shm_cleanup: "cleanup_pid p k = (Ok u, k') \<Longrightarrow> shm_step X k k'"
| shm_other: "shm_part k' = shm_part k \<Longrightarrow> shm_step X k k'"

lemma shm_step_inv:
  assumes "shm_step X k k'" "shm_inv k"
  shows "shm_inv k'"
  using assms(1)
proof cases
  case shm_create
  show ?thesis by (rule shm_create_inv[OF assms(2) shm_create(2,1)])
next
  case shm_map
  show ?thesis by (rule shm_map_inv[OF assms(2) shm_map])
next
  case shm_unmap
  show ?thesis by (rule shm_unmap_inv[OF assms(2) shm_unmap])
next
  case shm_cleanup
  show ?thesis by (rule shm_cleanup_inv[OF assms(2) shm_cleanup])
next
  case shm_other
  show ?thesis using shm_inv_part[OF shm_other] assms(2) by simp
qed

text \<open>C21: Shared regions live as long as they are mapped.  From a kernel without regions, along every
  sequence of creations, mappings, unmappings and process exits (in between, anything that does not
  touch the tables), the reference count of every region is exactly its number of mappings, and every
  mapping is of a region that still exists.\<close>

theorem shm_refs_exact:
  assumes "(shm_step X)\<^sup>*\<^sup>* k k'" "shm_table k = []" "shm_mappings k = []"
  shows "(\<forall>h r. bt_get (shm_table k') h = Some r \<longrightarrow>
      shm_refs r = length (filter (\<lambda>m. map_handle m = h) (shm_mappings k'))) \<and>
    (\<forall>m \<in> set (shm_mappings k'). \<exists>r. bt_get (shm_table k') (map_handle m) = Some r)"
proof -
  have "shm_inv k" using assms(2,3) by (simp add: shm_inv_def shm_counts_def)
  with assms(1) have "shm_inv k'" by induction (auto intro: shm_step_inv)
  then show ?thesis by (auto simp: shm_inv_def shm_counts_def mappings_of_def)
qed

theorem shm_refs_exact_witness:
  "\<exists>k1 r. sys_shm_create 100 (sample_kernel [sample_proc 1 0] [] 1) = (Ok 1, k1) \<and>
     bt_get (shm_table k1) 1 = Some r \<and> shm_refs r = 0"
proof -
  let ?k = "sample_kernel [sample_proc 1 0] [] 1"
  obtain m where m: "alloc_zeroed_frame sample_kmem = (Ok (Min (kfree sample_kmem)), m)"
    using alloc_zeroed_frame_some[OF frames_inv_kmem[OF sample_frames_inv]] by (auto simp: sample_kfree)
  obtain k1 r where c: "sys_shm_create 100 ?k = (Ok 1, k1)" "shm_mappings k1 = []" "bt_get (shm_table k1) 1 = Some r"
    using m by (simp add: sys_shm_create_def sbind_def on_km_def sample_kernel_def set_region_def stry_def sret_def)
  have "(shm_step sample_x86)\<^sup>*\<^sup>* ?k k1"
    using shm_create[OF c(1)] by (auto simp: sample_kernel_def)
  then show ?thesis using shm_refs_exact[of sample_x86 ?k k1] c by (auto simp: sample_kernel_def)
qed

end
