(* ===== verification/User_Calls.thy ===== *)
theory User_Calls
  imports Sample_Kernel
begin

text \<open>
  System calls that move user memory: messages between processes and reading a line from the keyboard.

  The paging unit is a parameter.  \<open>readable M m a bs\<close>: the bytes \<open>bs\<close> can be loaded from address \<open>a\<close>.
  \<open>writable M A K\<close>: in the memories \<open>K\<close> the addresses \<open>A\<close> are mapped writable and to distinct bytes, so
  that a store is seen by later loads and by nothing else in \<open>A\<close>.
\<close>

section \<open>User buffers\<close>

definition readable :: "mmu \<Rightarrow> kmem \<Rightarrow> nat \<Rightarrow> bytes \<Rightarrow> bool" where
  "readable M m a bs \<longleftrightarrow> (\<forall>i < length bs. mmu_load M m (a + i) = Some (bs ! i))"

definition writable :: "mmu \<Rightarrow> nat set \<Rightarrow> kmem set \<Rightarrow> bool" where
  "writable M A K \<longleftrightarrow> (\<forall>m \<in> K. \<forall>a \<in> A. \<forall>b. \<exists>m' \<in> K. mmu_store M m a b = Stored m' \<and>
     (\<forall>a' \<in> A. mmu_load M m' a' = (if a' = a then Some b else mmu_load M m a')))"

lemma readable_Cons: "readable M m a (b # bs) \<longleftrightarrow> mmu_load M m a = Some b \<and> readable M m (a + 1) bs"
  unfolding readable_def by (auto simp: less_Suc_eq_0_disj)

lemma load_user_reads: "readable M (km k) a bs \<Longrightarrow> load_user X M a (length bs) k = (Ok (Go bs), k)"
proof (induction bs arbitrary: a)
  case (Cons b bs)
  then show ?case by (simp add: readable_Cons sbind_pure fbind_def) (simp add: sbind_def fret_def sret_def)
qed (simp add: fret_def sret_def)

lemma writableE:
  assumes "writable M A K" "m \<in> K" "a \<in> A"
  obtains m' where "m' \<in> K" "mmu_store M m a b = Stored m'" "mmu_load M m' a = Some b"
    "\<And>a'. a' \<in> A \<Longrightarrow> a' \<noteq> a \<Longrightarrow> mmu_load M m' a' = mmu_load M m a'"
proof -
  have "\<exists>m' \<in> K. mmu_store M m a b = Stored m' \<and> (\<forall>a' \<in> A. mmu_load M m' a' = (if a' = a then Some b else mmu_load M m a'))"
    using assms(1)[unfolded writable_def, rule_format, OF assms(2,3), of b] .
  then show ?thesis using that assms(3) by (metis (full_types))
qed

lemma store_byte_writes:
  assumes "writable M A K" "km k \<in> K" "a \<in> A"
  obtains m' where "store_byte X M 3 a b k = (Ok (Go ()), k \<lparr> km := m' \<rparr>)" "m' \<in> K" "mmu_load M m' a = Some b"
    "\<And>a'. a' \<in> A \<Longrightarrow> a' \<noteq> a \<Longrightarrow> mmu_load M m' a' = mmu_load M (km k) a'"
proof -
  obtain m' where m': "m' \<in> K" "mmu_store M (km k) a b = Stored m'" "mmu_load M m' a = Some b"
    "\<And>a'. a' \<in> A \<Longrightarrow> a' \<noteq> a \<Longrightarrow> mmu_load M m' a' = mmu_load M (km k) a'"
    using writableE[OF assms, of b] by metis
  have "store_byte X M 3 a b k = (Ok (Go ()), k \<lparr> km := m' \<rparr>)"
    using m'(2) by (simp add: numeral_3_eq_3 sbind_pure) (simp add: fret_def sret_def)
  then show ?thesis using that m' by blast
qed

lemma store_user_writes:
  assumes "writable M A K" "km k \<in> K" "{a..<a + length bs} \<subseteq> A"
  shows "\<exists>m'. store_user X M a bs k = (Ok (Go ()), k \<lparr> km := m' \<rparr>) \<and> m' \<in> K \<and> readable M m' a bs \<and>
    (\<forall>a' \<in> A - {a..<a + length bs}. mmu_load M m' a' = mmu_load M (km k) a')"
  using assms(2,3)
proof (induction bs arbitrary: a k)
  case Nil
  then show ?case by (auto simp: fret_def sret_def readable_def intro!: exI[of _ "km k"])
next
  case (Cons b bs)
  have "a \<in> A" using Cons.prems(2) by auto
  then obtain m1 where m1: "store_byte X M 3 a b k = (Ok (Go ()), k \<lparr> km := m1 \<rparr>)" "m1 \<in> K" "mmu_load M m1 a = Some b"
    "\<And>a'. a' \<in> A \<Longrightarrow> a' \<noteq> a \<Longrightarrow> mmu_load M m1 a' = mmu_load M (km k) a'"
    using store_byte_writes[OF assms(1) Cons.prems(1)] by metis
  let ?k = "k \<lparr> km := m1 \<rparr>"
  have "km ?k \<in> K" "{a + 1..<a + 1 + length bs} \<subseteq> A" using m1(2) Cons.prems(2) by auto
  from Cons.IH[OF this] obtain m2 where m2: "store_user X M (a + 1) bs ?k = (Ok (Go ()), ?k \<lparr> km := m2 \<rparr>)" "m2 \<in> K"
    "readable M m2 (a + 1) bs" "\<forall>a' \<in> A - {a + 1..<a + 1 + length bs}. mmu_load M m2 a' = mmu_load M m1 a'" by auto
  have "store_user X M a (b # bs) k = (Ok (Go ()), k \<lparr> km := m2 \<rparr>)"
    using m1(1) m2(1) by (simp add: fbind_def sbind_def)
  moreover have "readable M m2 a (b # bs)" using m2(3,4) m1(3) \<open>a \<in> A\<close> by (simp add: readable_Cons)
  moreover have "\<forall>a' \<in> A - {a..<a + length (b # bs)}. mmu_load M m2 a' = mmu_load M (km k) a'"
    using m2(4) m1(4) by auto
  ultimately show ?case using m2(2) by blast
qed

section \<open>Messages\<close>

lemma user_slice_ok: "0 < a \<Longrightarrow> 0 < n \<Longrightarrow> a + n < USER_SPACE_MAX \<Longrightarrow> user_slice a n = Some (a, n)"
  by (simp add: user_slice_def)

lemma mailbox_push_room:
  assumes "length (mailbox k t) < MAX_QUEUED_PER_PID"
  obtains k' where "mailbox_push t f k = (Ok 0, k')" "mailbox k' t = mailbox k t @ [f]" "km k' = km k"
    "\<And>p. p \<noteq> t \<Longrightarrow> mailbox k' p = mailbox k p"
proof -
  let ?k' = "snd (mailbox_push t f k)"
  show ?thesis by (rule that[of ?k']) (use assms in \<open>auto simp: mailbox_push_def Let_def mailbox_def\<close>)
qed

lemma ipc_send_queues:
  assumes "bs \<noteq> []" "length bs \<le> MAX_MSG" "0 < a" "a + length bs < USER_SPACE_MAX" "t < 2 ^ 32"
    and "readable M (km k) a bs" "length (mailbox k t) < MAX_QUEUED_PER_PID"
  obtains k' where "sys_ipc_send X M t a (length bs) k = (Ok (Go 0), k')"
    "mailbox k' t = mailbox k t @ [\<lparr> sender = current (ptab k), payload = bs \<rparr>]" "km k' = km k"
    "\<And>p. p \<noteq> t \<Longrightarrow> mailbox k' p = mailbox k p"
proof -
  obtain k' where k': "mailbox_push t \<lparr> sender = current (ptab k), payload = bs \<rparr> k = (Ok 0, k')"
    "mailbox k' t = mailbox k t @ [\<lparr> sender = current (ptab k), payload = bs \<rparr>]" "km k' = km k"
    "\<And>p. p \<noteq> t \<Longrightarrow> mailbox k' p = mailbox k p"
    using mailbox_push_room[OF assms(7)] by metis
  have s: "user_slice a (length bs) = Some (a, length bs)" using assms(1,3,4) by (simp add: user_slice_ok)
  have "sys_ipc_send X M t a (length bs) k = (Ok (Go 0), k')"
    using assms(1,2,5,7) s k'(1) load_user_reads[OF assms(6), of X]
    by (simp add: sys_ipc_send_def sbind_pure) (simp add: fbind_def flift_def sbind_def sret_def)
  then show ?thesis using that k' by blast
qed

lemma ipc_recv_delivers:
  assumes w: "writable M A K" "km k \<in> K" "{a..<a + length bs} \<subseteq> A" "{o'..<o' + 8} \<subseteq> A" "{a..<a + length bs} \<inter> {o'..<o' + 8} = {}"
    and box: "mailbox k (current (ptab k)) = \<lparr> sender = s, payload = bs \<rparr> # q" "bs \<noteq> []" "length bs \<le> mx"
    and addr: "0 < a" "a + length bs < USER_SPACE_MAX" "0 < o'" "o' + 8 < USER_SPACE_MAX"
  obtains k' where "sys_ipc_recv X M rest (Suc fuel) a mx o' k = (Ok (Go (length bs)), k')"
    "readable M (km k') a bs" "readable M (km k') o' (le_bytes 8 s)" "mailbox k' (current (ptab k)) = q"
proof -
  let ?p = "current (ptab k)"
  have "bt_get (mailboxes k) ?p = Some (\<lparr> sender = s, payload = bs \<rparr> # q)"
    using box(1) by (simp add: mailbox_def split: option.splits)
  then have pop: "mailbox_pop ?p k = (Ok (Some \<lparr> sender = s, payload = bs \<rparr>), k \<lparr> mailboxes := bt_insert ?p q (mailboxes k) \<rparr>)"
    by (simp add: mailbox_pop_def)
  let ?k = "k \<lparr> mailboxes := bt_insert ?p q (mailboxes k) \<rparr>"
  have "km ?k \<in> K" using w(2) by simp
  from store_user_writes[OF w(1) this w(3)] obtain m1 where m1: "store_user X M a bs ?k = (Ok (Go ()), ?k \<lparr> km := m1 \<rparr>)"
    "m1 \<in> K" "readable M m1 a bs" by blast
  have "km (?k \<lparr> km := m1 \<rparr>) \<in> K" "{o'..<o' + length (le_bytes 8 s)} \<subseteq> A" using m1(2) w(4) by simp_all
  from store_user_writes[OF w(1) this] obtain m2 where
    m2: "store_user X M o' (le_bytes 8 s) (?k \<lparr> km := m1 \<rparr>) = (Ok (Go ()), ?k \<lparr> km := m2 \<rparr>)"
    "readable M m2 o' (le_bytes 8 s)" "\<forall>a' \<in> A - {o'..<o' + 8}. mmu_load M m2 a' = mmu_load M m1 a'" by auto
  have "readable M m2 a bs"
    unfolding readable_def
  proof (intro allI impI)
    fix i assume i: "i < length bs"
    then have "a + i \<in> A - {o'..<o' + 8}" using w(3,5) by (auto simp: subset_iff disjoint_iff)
    then show "mmu_load M m2 (a + i) = Some (bs ! i)" using m2(3) m1(3) i by (simp add: readable_def)
  qed
  moreover have "0 < mx" using box(2,3) by (cases bs) auto
  then have "sys_ipc_recv X M rest (Suc fuel) a mx o' k = (Ok (Go (length bs)), ?k \<lparr> km := m2 \<rparr>)"
    using pop box(2,3) addr m1(1) m2(1)
    by (simp add: sys_ipc_recv_def sbind_pure min_absorb1) (simp add: sbind_def user_slice_ok fbind_def fret_def sret_def Let_def min_absorb1)
  moreover have "mailbox (?k \<lparr> km := m2 \<rparr>) ?p = q" by (simp add: mailbox_def)
  ultimately show ?thesis using that m2(2) by simp
qed


lemma sample_mmu_writable: "writable sample_mmu UNIV UNIV"
  by (simp add: writable_def sample_mmu_def)


section \<open>Reading a line\<close>

text \<open>The line editor \<open>sys_read\<close> is: characters are collected until a line end or a full buffer, a backspace
  takes the last one back.  It answers the line and the rest of the queue, or nothing while the line
  is not complete.\<close>

fun edit_line :: "nat \<Rightarrow> bytes \<Rightarrow> nat option list \<Rightarrow> (bytes \<times> nat option list) option" where
  "edit_line len acc [] = None"
| "edit_line len acc (None # q) = edit_line len acc q"
| "edit_line len acc (Some ch # q) =
    (if ch = 0x08 \<or> ch = 0x7f then edit_line len (butlast acc) q
     else let b = (if ch = 0x0D then NEWLINE else of_nat ch); acc' = acc @ [b]
       in if b = NEWLINE \<or> len \<le> length acc' then Some (acc', q) else edit_line len acc' q)"

lemma try_read_char_head: "keyboard_q k = c # q \<Longrightarrow> try_read_char k = (Ok c, k \<lparr> keyboard_q := q \<rparr>)"
  by (simp add: try_read_char_def)

lemma readable_snoc: "readable M m a (bs @ [b]) \<longleftrightarrow> readable M m a bs \<and> mmu_load M m (a + length bs) = Some b"
  unfolding readable_def by (auto simp: nth_append less_Suc_eq)

lemma readable_butlast: "readable M m a bs \<Longrightarrow> readable M m a (butlast bs)"
  unfolding readable_def by (simp add: nth_butlast)

lemma readable_cong: "(\<And>i. i < length bs \<Longrightarrow> mmu_load M m' (a + i) = mmu_load M m (a + i)) \<Longrightarrow> readable M m a bs \<Longrightarrow> readable M m' a bs"
  by (simp add: readable_def)

lemma read_loop_edits:
  assumes w: "writable M A K"
  shows "edit_line len acc q = Some (line, q') \<Longrightarrow> {a..<a + len} \<subseteq> A \<Longrightarrow> keyboard_q k = q \<Longrightarrow> length q \<le> n \<Longrightarrow> km k \<in> K \<Longrightarrow>
    length acc < len \<Longrightarrow> readable M (km k) a acc \<Longrightarrow>
    \<exists>k'. read_loop X M (\<lambda>k. k) n a len (length acc) k = (Ok (Go (length line)), k') \<and> readable M (km k') a line \<and>
      length line \<le> len \<and> keyboard_q k' = q' \<and>
      (\<forall>a' \<in> A - {a..<a + len}. mmu_load M (km k') a' = mmu_load M (km k) a')"
proof (induction len acc q arbitrary: k n rule: edit_line.induct)
  case (2 len acc q)
  then obtain n' where n: "n = Suc n'" by (cases n) auto
  let ?k = "k \<lparr> keyboard_q := q \<rparr>"
  have "read_loop X M (\<lambda>k. k) n a len (length acc) k = read_loop X M (\<lambda>k. k) n' a len (length acc) ?k"
    using try_read_char_head[OF 2(4)] by (simp add: n sbind_def supd_def)
  moreover have "edit_line len acc q = Some (line, q')" using 2(2) by simp
  note 2(1)[OF this, of ?k n']
  ultimately show ?case using 2 n by simp
next
  case (3 len acc ch q)
  then obtain n' where n: "n = Suc n'" by (cases n) auto
  let ?k = "k \<lparr> keyboard_q := q \<rparr>"
  show ?case
  proof (cases "ch = 0x08 \<or> ch = 0x7f")
    case True
    let ?k1 = "?k \<lparr> screen := screen ?k @ (if acc = [] then [] else [0x08, 0x20, 0x08]) \<rparr>"
    have run: "read_loop X M (\<lambda>k. k) n a len (length acc) k = read_loop X M (\<lambda>k. k) n' a len (length (butlast acc)) ?k1"
      using try_read_char_head[OF 3(5)] True by (cases "acc = []") (auto simp: n sbind_def print_def supd_def)
    have "length (butlast acc) < len" using 3(8) by simp
    then show ?thesis
      unfolding run using 3(1)[OF True, of ?k1 n'] 3(3-) True n readable_butlast by simp
  next
    case False
    let ?b = "if ch = 0x0D then NEWLINE else of_nat ch"
    let ?k1 = "?k \<lparr> screen := screen ?k @ utf8_encode ch \<rparr>"
    have aA: "a + length acc \<in> A" using 3(4,8) by auto
    have "km ?k1 \<in> K" using 3(7) by simp
    then obtain m where m: "store_byte X M 3 (a + length acc) ?b ?k1 = (Ok (Go ()), ?k1 \<lparr> km := m \<rparr>)" "m \<in> K"
      "mmu_load M m (a + length acc) = Some ?b"
      "\<And>a'. a' \<in> A \<Longrightarrow> a' \<noteq> a + length acc \<Longrightarrow> mmu_load M m a' = mmu_load M (km k) a'"
      using store_byte_writes[OF w _ aA, of ?k1 X ?b] by (auto cong: if_cong)
    have acc: "readable M m a acc"
      by (rule readable_cong[OF _ 3(9)]) (use m(4) 3(4,8) in \<open>auto simp: subset_iff\<close>)
    then have acc': "readable M m a (acc @ [?b])" using m(3) by (simp add: readable_snoc)
    let ?k2 = "?k1 \<lparr> km := m \<rparr>"
    have run: "read_loop X M (\<lambda>k. k) n a len (length acc) k =
        (if ?b = NEWLINE \<or> len \<le> length acc + 1 then fret (length acc + 1)
         else read_loop X M (\<lambda>k. k) n' a len (length acc + 1)) ?k2"
      using try_read_char_head[OF 3(5)] False m(1) 3(8)
      by (simp add: n sbind_def print_def supd_def Let_def fbind_def cong: if_cong)
    have out: "\<forall>a' \<in> A - {a..<a + len}. mmu_load M m a' = mmu_load M (km k) a'" using m(4) 3(8) by auto
    show ?thesis
    proof (cases "?b = NEWLINE \<or> len \<le> length (acc @ [?b])")
      case True
      then have "line = acc @ [?b]" "q' = q" using 3(3) False by (auto simp: Let_def)
      then show ?thesis unfolding run using True acc' 3(8) out by (auto simp: fret_def sret_def)
    next
      case more: False
      then have e: "edit_line len (acc @ [?b]) q = Some (line, q')" using 3(3) False by (simp add: Let_def)
      have l: "length (acc @ [?b]) < len" "keyboard_q ?k2 = q" "length q \<le> n'" "km ?k2 \<in> K"
        using more 3(6) n m(2) by auto
      have "\<exists>k'. read_loop X M (\<lambda>k. k) n' a len (length (acc @ [?b])) ?k2 = (Ok (Go (length line)), k') \<and> readable M (km k') a line \<and>
          length line \<le> len \<and> keyboard_q k' = q' \<and> (\<forall>a' \<in> A - {a..<a + len}. mmu_load M (km k') a' = mmu_load M (km ?k2) a')"
        by (rule 3(2)[OF False refl refl more e 3(4) l(2,3,4,1)]) (use acc' in simp)
      then show ?thesis unfolding run using more out by auto
    qed
  qed
qed simp

text \<open>C20: Reading from the keyboard is a line editor.  When the queued keys complete a line (control keys
  that decode to no character are skipped, backspaces take characters back, also at the start of the
  line), \<open>read\<close> returns its length, the user's buffer starts with exactly that line, the remaining keys
  stay queued, and no byte outside the buffer changes; the line never exceeds the buffer.\<close>

theorem sys_read_edits_line:
  assumes "writable M A K" "km k \<in> K" "{buf..<buf + len} \<subseteq> A" "0 < buf" "0 < len" "buf + len < USER_SPACE_MAX"
    and "edit_line len [] (keyboard_q k) = Some (line, q')" "length (keyboard_q k) \<le> fuel"
  shows "\<exists>k'. sys_read X M (\<lambda>k. k) fuel 0 buf len k = (Ok (Go (length line)), k') \<and> readable M (km k') buf line \<and>
    length line \<le> len \<and> keyboard_q k' = q' \<and>
    (\<forall>a \<in> A - {buf..<buf + len}. mmu_load M (km k') a = mmu_load M (km k) a)"
proof -
  have "sys_read X M (\<lambda>k. k) fuel 0 buf len k = read_loop X M (\<lambda>k. k) fuel buf len (length ([] :: bytes)) k"
    using assms(4-6) by (simp add: sys_read_def user_slice_ok)
  then show ?thesis
    using read_loop_edits[OF assms(1,7,3) refl assms(8,2)] assms(5) by (simp add: readable_def)
qed

theorem sys_read_edits_line_witness:
  "\<exists>k'. sys_read sample_x86 sample_mmu (\<lambda>k. k) 9 0 200 16
       ((sample_kernel [sample_proc 1 0] [] 1) \<lparr> keyboard_q := [Some 8, Some 104, None, Some 120, Some 127, Some 105, Some 13, Some 99] \<rparr>) =
       (Ok (Go 3), k') \<and> readable sample_mmu (km k') 200 [104, 105, 10] \<and> keyboard_q k' = [Some 99]"
proof -
  let ?k = "(sample_kernel [sample_proc 1 0] [] 1) \<lparr> keyboard_q := [Some 8, Some 104, None, Some 120, Some 127, Some 105, Some 13, Some 99] \<rparr>"
  have e: "edit_line 16 [] (keyboard_q ?k) = Some ([104, 105, 10], [Some 99])" by (simp add: Let_def)
  have "\<exists>k'. sys_read sample_x86 sample_mmu (\<lambda>k. k) 9 0 200 16 ?k = (Ok (Go (length ([104, 105, 10] :: bytes))), k') \<and>
      readable sample_mmu (km k') 200 [104, 105, 10] \<and> length ([104, 105, 10] :: bytes) \<le> 16 \<and> keyboard_q k' = [Some 99] \<and>
      (\<forall>a \<in> UNIV - {200..<200 + 16}. mmu_load sample_mmu (km k') a = mmu_load sample_mmu (km ?k) a)"
    by (rule sys_read_edits_line[OF sample_mmu_writable _ _ _ _ _ e]) simp_all
  then show ?thesis by (auto simp: numeral_3_eq_3)
qed

end
