(* ===== verification/Persist.thy ===== *)
theory Persist
  imports Kernel_State
begin

text \<open>
  The persistent state (\<open>persist.rs\<close>): a fixed area of the first disk holds an archive of a few files of
  the RAM file system.  \<open>blob_serialize\<close> and \<open>blob_deserialize\<close> are the archive format, \<open>save_from_ramfs\<close>
  and \<open>load_into_ramfs\<close> the two entry points.
\<close>

abbreviation PERSIST_LBA :: nat where "PERSIST_LBA \<equiv> 2048"
abbreviation PERSIST_SECTORS :: nat where "PERSIST_SECTORS \<equiv> 64"
abbreviation PERSIST_BYTES :: nat where "PERSIST_BYTES \<equiv> 32768"

definition PERSIST_MAGIC :: bytes where
  "PERSIST_MAGIC = str ''DOSSTATE''"

definition PERSISTED_PATHS :: "bytes list" where
  "PERSISTED_PATHS = [str ''/etc/passwd'', str ''/etc/settings'']"

section \<open>The format\<close>

definition blob_entry :: "bytes \<times> bytes \<Rightarrow> bytes" where
  "blob_entry e = le_bytes 2 (length (fst e)) @ fst e @ le_bytes 4 (length (snd e)) @ snd e"

definition blob_serialize :: "(bytes \<times> bytes) list \<Rightarrow> bytes" where
  "blob_serialize es =
    (let buf = PERSIST_MAGIC @ le_bytes 4 1 @ le_bytes 4 (length es) @ concat (map blob_entry es)
     in if length buf < PERSIST_BYTES then buf @ replicate (PERSIST_BYTES - length buf) 0 else buf)"

fun blob_entries :: "nat \<Rightarrow> bytes \<Rightarrow> nat \<Rightarrow> (bytes \<times> bytes) list option result" where
  "blob_entries 0 raw off = Ok (Some [])"
| "blob_entries (Suc n) raw off =
    rbind (cadd 64 off 2) (\<lambda>e1.
    if length raw < e1 then Ok None
    else rbind (rslice raw off (off + 2)) (\<lambda>pb.
      let plen = le_nat pb; off1 = off + 2 in
      rbind (cadd 64 off1 plen) (\<lambda>e2.
      if length raw < e2 then Ok None
      else rbind (rslice raw off1 (off1 + plen)) (\<lambda>path.
        if \<not> utf8_valid path then Ok None
        else let off2 = off1 + plen in
          rbind (cadd 64 off2 4) (\<lambda>e3.
          if length raw < e3 then Ok None
          else rbind (rslice raw off2 (off2 + 4)) (\<lambda>db.
            let dlen = le_nat db; off3 = off2 + 4 in
            rbind (cadd 64 off3 dlen) (\<lambda>e4.
            if length raw < e4 then Ok None
            else rbind (rslice raw off3 (off3 + dlen)) (\<lambda>data.
              rbind (blob_entries n raw (off3 + dlen)) (\<lambda>r.
              Ok (map_option (\<lambda>es. (path, data) # es) r))))))))))"

definition blob_deserialize :: "bytes \<Rightarrow> (bytes \<times> bytes) list option result" where
  "blob_deserialize raw =
    (if length raw < 16 then Ok None
     else if take 8 raw \<noteq> PERSIST_MAGIC then Ok None
     else if le_nat (take 4 (drop 8 raw)) \<noteq> 1 then Ok None
     else let n = le_nat (take 4 (drop 12 raw)) in
       if 1024 < n then Ok None else blob_entries n raw 16)"

section \<open>Loading and saving\<close>

definition on_disks :: "(disks, 'a) op \<Rightarrow> (kernel, 'a) op" where
  "on_disks m k = (case m (dks k) of (r, ds) \<Rightarrow> (r, k \<lparr> dks := ds \<rparr>))"

definition load_into_ramfs :: "(kernel, bool) op" where
  "load_into_ramfs k =
    (case ata_read (dks k) 0 PERSIST_LBA PERSIST_SECTORS (replicate PERSIST_BYTES 0) of
       Err _ \<Rightarrow> (Ok False, k)
     | Panic \<Rightarrow> (Panic, k)
     | Ok buf \<Rightarrow>
         (case blob_deserialize buf of
            Err e \<Rightarrow> (Err e, k)
          | Panic \<Rightarrow> (Panic, k)
          | Ok None \<Rightarrow> (Ok False, k)
          | Ok (Some es) \<Rightarrow> (Ok True, k \<lparr> fsys := fold (\<lambda>e. ramfs_create (fst e) (snd e)) es (fsys k) \<rparr>)))"

definition persisted :: "ramfs \<Rightarrow> (bytes \<times> bytes) list" where
  "persisted fs = List.map_filter (\<lambda>path. case ramfs_read fs path of Inr data \<Rightarrow> Some (path, data) | Inl _ \<Rightarrow> None) PERSISTED_PATHS"

definition save_from_ramfs :: "(kernel, unit) op" where
  "save_from_ramfs =
    sbind (sget (\<lambda>k. blob_serialize (persisted (fsys k)))) (\<lambda>buf.
    if PERSIST_BYTES < length buf then serr ''persist: blob trop gros (>32 KiB)''
    else on_disks (ata_write 0 PERSIST_LBA PERSIST_SECTORS buf))"

section \<open>The format is read back\<close>

lemma blob_entry_encode: "blob_entry = encode_entry"
  by (simp add: fun_eq_iff blob_entry_def encode_entry_def)

lemma blob_entries_step:
  assumes len: "length raw < 2 ^ 63" "off + 2 + pl + 4 + dl \<le> length raw"
    and p: "rslice raw off (off + 2) = Ok pb" "le_nat pb = pl" "rslice raw (off + 2) (off + 2 + pl) = Ok path" "utf8_valid path"
    and d: "rslice raw (off + 2 + pl) (off + 2 + pl + 4) = Ok db" "le_nat db = dl"
      "rslice raw (off + 2 + pl + 4) (off + 2 + pl + 4 + dl) = Ok data"
  shows "blob_entries (Suc n) raw off = rbind (blob_entries n raw (off + 2 + pl + 4 + dl)) (\<lambda>r. Ok (map_option (\<lambda>es. (path, data) # es) r))"
proof -
  have b: "off + 2 \<le> length raw" "off + 2 + pl \<le> length raw" "off + 2 + pl + 4 \<le> length raw" using len by auto
  have c: "cadd 64 off 2 = Ok (off + 2)" "cadd 64 (off + 2) pl = Ok (off + 2 + pl)"
      "cadd 64 (off + 2 + pl) 4 = Ok (off + 2 + pl + 4)" "cadd 64 (off + 2 + pl + 4) dl = Ok (off + 2 + pl + 4 + dl)"
    using len by (simp_all add: cadd_def)
  show ?thesis unfolding blob_entries.simps using b len p d c by (simp add: Let_def del: le_nat.simps)
qed

lemma blob_entries_encode:
  assumes "\<forall>e \<in> set es. entry_ok e" "length (pre @ concat (map encode_entry es) @ post) < 2 ^ 63"
  shows "blob_entries (length es) (pre @ concat (map encode_entry es) @ post) (length pre) = Ok (Some es)"
  using assms
proof (induction es arbitrary: pre)
  case (Cons e es)
  obtain nm d where e: "e = (nm, d)" by (cases e)
  let ?rest = "concat (map encode_entry es) @ post"
  define data where "data = pre @ concat (map encode_entry (e # es)) @ post"
  let ?p1 = "pre @ le_bytes 2 (length nm)"
  let ?p2 = "?p1 @ nm"
  let ?p3 = "?p2 @ le_bytes 4 (length d)"
  have data: "data = ?p3 @ d @ ?rest" by (simp add: data_def e encode_entry_def)
  have ok: "utf8_valid nm" "length nm < 65536" "length d < 4294967296"
    using Cons.prems(1) by (auto simp: e entry_ok_def)
  have len: "length data < 2 ^ 63" using Cons.prems(2) by (simp add: data_def)
  have fits: "length pre + 2 + length nm + 4 + length d \<le> length data" unfolding data by simp
  have n2: "le_nat (le_bytes 2 (length nm)) = length nm" "le_nat (le_bytes 4 (length d)) = length d"
    using ok by (simp_all add: le_nat_le_bytes)
  have s0: "rslice data (length pre) (length pre + 2) = Ok (le_bytes 2 (length nm))"
    unfolding data using rslice_append[of pre "le_bytes 2 (length nm)" "nm @ le_bytes 4 (length d) @ d @ ?rest"] by simp
  have s1: "rslice data (length pre + 2) (length pre + 2 + length nm) = Ok nm"
    unfolding data using rslice_append[of ?p1 nm "le_bytes 4 (length d) @ d @ ?rest"] by simp
  have s2: "rslice data (length pre + 2 + length nm) (length pre + 2 + length nm + 4) = Ok (le_bytes 4 (length d))"
    unfolding data using rslice_append[of ?p2 "le_bytes 4 (length d)" "d @ ?rest"] by (simp add: add.assoc)
  have s3: "rslice data (length pre + 2 + length nm + 4) (length pre + 2 + length nm + 4 + length d) = Ok d"
    unfolding data using rslice_append[of ?p3 d ?rest] by (simp add: ac_simps)
  have "blob_entries (length es) data (length (?p3 @ d)) = Ok (Some es)"
    using Cons.IH[of "?p3 @ d"] Cons.prems(1) len unfolding data by simp
  moreover have "length pre + 2 + length nm + 4 + length d = length (?p3 @ d)" by simp
  ultimately have rec: "blob_entries (length es) data (length pre + 2 + length nm + 4 + length d) = Ok (Some es)" by (simp only:)
  have "blob_entries (length (e # es)) data (length pre) = Ok (Some (e # es))"
    unfolding length_Cons blob_entries_step[OF len fits s0 n2(1) s1 ok(1) s2 n2(2) s3] rec using e by simp
  then show ?case by (simp add: data_def)
qed simp

lemma blob_round_trip:
  assumes "\<forall>e \<in> set es. entry_ok e" "length es \<le> 1024" "length (blob_serialize es) < 2 ^ 63"
  shows "blob_deserialize (blob_serialize es) = Ok (Some es)"
proof -
  let ?pre = "PERSIST_MAGIC @ le_bytes 4 1 @ le_bytes 4 (length es)"
  let ?b = "PERSIST_MAGIC @ le_bytes 4 1 @ le_bytes 4 (length es) @ concat (map encode_entry es)"
  define post :: bytes where "post = (if length ?b < PERSIST_BYTES then replicate (PERSIST_BYTES - length ?b) 0 else [])"
  have "blob_serialize es = ?b @ post"
    unfolding blob_serialize_def Let_def blob_entry_encode post_def by (cases "length ?b < PERSIST_BYTES") (simp_all only: if_True if_False append_Nil2)
  then have s: "blob_serialize es = ?pre @ concat (map encode_entry es) @ post" by (simp only: append.assoc)
  have m: "length PERSIST_MAGIC = 8" by (simp add: PERSIST_MAGIC_def str_def)
  have n: "le_nat (le_bytes 4 (length es)) = length es" "le_nat (le_bytes 4 1) = 1"
    using assms(2) by (simp_all add: le_nat_le_bytes)
  have "blob_entries (length es) (blob_serialize es) 16 = Ok (Some es)"
    using blob_entries_encode[OF assms(1), of ?pre post] assms(3) m unfolding s by simp
  moreover have "take 8 (blob_serialize es) = PERSIST_MAGIC" "take 4 (drop 8 (blob_serialize es)) = le_bytes 4 1"
    "take 4 (drop 12 (blob_serialize es)) = le_bytes 4 (length es)" "16 \<le> length (blob_serialize es)"
    unfolding s using m by simp_all
  ultimately show ?thesis using n assms(2) by (simp add: blob_deserialize_def del: le_bytes.simps One_nat_def)
qed

section \<open>Saving, then loading\<close>

lemma persisted_entry: "e \<in> set (persisted fs) \<longleftrightarrow> fst e \<in> set PERSISTED_PATHS \<and> ramfs_read fs (fst e) = Inr (snd e)"
proof -
  have "set (List.map_filter f xs) = {y. \<exists>x \<in> set xs. f x = Some y}" for f :: "bytes \<Rightarrow> (bytes \<times> bytes) option" and xs
    by (induction xs) (auto simp: List.map_filter_simps split: option.splits)
  moreover have "(case ramfs_read fs p of Inr data \<Rightarrow> Some (p, data) | Inl _ \<Rightarrow> None) = Some e \<longleftrightarrow>
      p = fst e \<and> ramfs_read fs (fst e) = Inr (snd e)" for p
    by (cases e; cases "ramfs_read fs p") auto
  ultimately show ?thesis unfolding persisted_def by auto
qed

lemma persisted_paths: "map fst (persisted fs) = filter (\<lambda>p. \<exists>d. ramfs_read fs p = Inr d) PERSISTED_PATHS"
proof -
  have "map fst (List.map_filter (\<lambda>p. case ramfs_read fs p of Inr d \<Rightarrow> Some (p, d) | Inl _ \<Rightarrow> None) ps) =
      filter (\<lambda>p. \<exists>d. ramfs_read fs p = Inr d) ps" for ps
    by (induction ps) (auto simp: List.map_filter_def split: sum.splits)
  then show ?thesis by (simp add: persisted_def)
qed

lemma persisted_lookup:
  "map_of (rev (persisted fs)) p = (if p \<in> set PERSISTED_PATHS then (case ramfs_read fs p of Inr d \<Rightarrow> Some d | Inl _ \<Rightarrow> None) else None)"
proof -
  have "distinct PERSISTED_PATHS" by (simp add: PERSISTED_PATHS_def str_def)
  then have d: "distinct (map fst (rev (persisted fs)))"
    unfolding rev_map[symmetric] persisted_paths by simp
  show ?thesis
  proof (cases "p \<in> set PERSISTED_PATHS \<and> (\<exists>d. ramfs_read fs p = Inr d)")
    case True
    then obtain d' where "ramfs_read fs p = Inr d'" "(p, d') \<in> set (rev (persisted fs))"
      by (auto simp: persisted_entry)
    then show ?thesis using map_of_is_SomeI[OF d] True by simp
  next
    case False
    then have "p \<notin> fst ` set (rev (persisted fs))" by (auto simp: persisted_entry)
    then show ?thesis using False by (auto simp: map_of_eq_None_iff split: sum.split)
  qed
qed

lemma length_blob: "length (blob_serialize es) \<ge> PERSIST_BYTES" "e \<in> set es \<Longrightarrow> length (snd e) \<le> length (blob_serialize es)"
proof -
  show "length (blob_serialize es) \<ge> PERSIST_BYTES" by (simp add: blob_serialize_def Let_def)
  assume "e \<in> set es"
  then have "length (blob_entry e) \<le> length (concat (map blob_entry es))"
    by (metis in_set_conv_decomp length_append le_add1 le_add2 le_trans map_append list.map(2) concat_append concat.simps(2))
  moreover have "length (snd e) \<le> length (blob_entry e)" by (simp add: blob_entry_def)
  ultimately show "length (snd e) \<le> length (blob_serialize es)" by (simp add: blob_serialize_def Let_def)
qed

lemma persisted_entry_ok:
  assumes "length (blob_serialize (persisted fs)) \<le> PERSIST_BYTES"
  shows "\<forall>e \<in> set (persisted fs). entry_ok e"
proof
  fix e assume e: "e \<in> set (persisted fs)"
  then have "fst e \<in> set PERSISTED_PATHS" by (simp add: persisted_entry)
  then have "utf8_valid (fst e) \<and> length (fst e) < 2 ^ 16" by (auto simp: PERSISTED_PATHS_def str_def)
  then show "entry_ok e" using length_blob(2)[OF e] assms by (simp add: entry_ok_def)
qed

lemma read_after_create:
  "ramfs_read (fold (\<lambda>e. ramfs_create (fst e) (snd e)) es fs) p =
    (case map_of (rev es) p of Some d \<Rightarrow> Inr d | None \<Rightarrow> ramfs_read fs p)"
  by (simp add: ramfs_read_def fs.lookup_fold_update split: option.split)

lemma save_from_ramfs_fsys: "fsys (snd (save_from_ramfs k)) = fsys k"
  by (auto simp: save_from_ramfs_def on_disks_def op_simps split: prod.splits)

lemma save_healthy:
  assumes "healthy (dks k) 0 d" "length (blob_serialize (persisted (fsys k))) \<le> PERSIST_BYTES"
  shows "save_from_ramfs k = (Ok (), k \<lparr> dks := with_platter (dks k) 0
    (write_bytes (platter d) (PERSIST_LBA * 512) (blob_serialize (persisted (fsys k)))) \<rparr>)"
proof -
  let ?buf = "blob_serialize (persisted (fsys k))"
  have len: "length ?buf = PERSIST_BYTES" using assms(2) length_blob(1) le_antisym by blast
  then have "ata_write 0 PERSIST_LBA PERSIST_SECTORS ?buf (dks k) =
      (Ok (), with_platter (dks k) 0 (write_bytes (platter d) (PERSIST_LBA * 512) ?buf))"
    using ata_write_healthy[OF assms(1), of PERSIST_SECTORS ?buf PERSIST_LBA] by simp
  then show ?thesis using len by (simp add: save_from_ramfs_def sbind_pure on_disks_def)
qed

end
