(* ===== verification/Storage_Theorems.thy ===== *)
theory Storage_Theorems
  imports Persist Sample_Kernel
begin

text \<open>
  Properties of the storage: the boot archive, the partition table, the persistent state.
\<close>

section \<open>The boot archive\<close>



section \<open>The partition table\<close>


definition sample_partitions :: "partition option list" where
  "sample_partitions =
    [Some \<lparr> part_disk = 0, part_index = 0, part_type = PtFat32Lba, start_lba = 2048, part_sectors = 65536, bootable = True \<rparr>,
     None, Some \<lparr> part_disk = 0, part_index = 2, part_type = Linux, start_lba = 67584, part_sectors = 100, bootable = False \<rparr>, None]"

definition sample_disk :: "bytes \<Rightarrow> disk" where
  "sample_disk first = \<lparr> platter = write_bytes (\<lambda>_. 0) 0 first, bad = (\<lambda>_. False) \<rparr>"

lemma sample_disk_healthy: "healthy (Some [sample_disk first]) 0 (sample_disk first)"
  by (simp add: healthy_def disk_at_def sample_disk_def)

definition sample_mbr :: bytes where
  "sample_mbr = encode_mbr (replicate 446 0) sample_partitions"


section \<open>The persistent state\<close>

text \<open>C25: The persistent state survives a reboot.  On a disk without bad sectors, saving files that fit the
  reserved area succeeds; whatever the RAM file system holds at the next boot, loading from the
  same disk succeeds and every saved file has its saved contents again, while all other files are
  as they were.\<close>

theorem persist_round_trip:
  assumes "healthy (dks k) 0 d" "length (blob_serialize (persisted (fsys k))) \<le> PERSIST_BYTES"
  shows "\<exists>k1. save_from_ramfs k = (Ok (), k1) \<and> fsys k1 = fsys k \<and>
    (\<forall>k2. dks k2 = dks k1 \<longrightarrow> (\<exists>k3. load_into_ramfs k2 = (Ok True, k3) \<and>
       (\<forall>p. ramfs_read (fsys k3) p =
          (if p \<in> set PERSISTED_PATHS \<and> (\<exists>x. ramfs_read (fsys k) p = Inr x) then ramfs_read (fsys k) p
           else ramfs_read (fsys k2) p))))"
proof -
  let ?es = "persisted (fsys k)" and ?buf = "blob_serialize (persisted (fsys k))"
  have len: "length ?buf = PERSIST_BYTES" using assms(2) length_blob(1) le_antisym by blast
  let ?m = "write_bytes (platter d) (PERSIST_LBA * 512) ?buf"
  let ?k1 = "k \<lparr> dks := with_platter (dks k) 0 ?m \<rparr>"
  have save: "save_from_ramfs k = (Ok (), ?k1)" by (rule save_healthy[OF assms])
  have "length ?es \<le> 1024"
  proof -
    have "length (map fst ?es) \<le> length PERSISTED_PATHS" unfolding persisted_paths by simp
    then show ?thesis by (simp add: PERSISTED_PATHS_def)
  qed
  then have de: "blob_deserialize ?buf = Ok (Some ?es)"
    by (rule blob_round_trip[OF persisted_entry_ok[OF assms(2)]]) (use len in simp)
  have load: "\<exists>k3. load_into_ramfs k2 = (Ok True, k3) \<and> (\<forall>p. ramfs_read (fsys k3) p =
          (if p \<in> set PERSISTED_PATHS \<and> (\<exists>x. ramfs_read (fsys k) p = Inr x) then ramfs_read (fsys k) p
           else ramfs_read (fsys k2) p))" if k2: "dks k2 = dks ?k1" for k2
  proof -
    have h: "healthy (dks k2) 0 (d \<lparr> platter := ?m \<rparr>)" using healthy_with_platter[OF assms(1)] k2 by simp
    have "read_bytes ?m (PERSIST_LBA * 512) (PERSIST_SECTORS * 512) = ?buf"
      using read_write_bytes_same[of "platter d" "PERSIST_LBA * 512" ?buf] len by simp
    then have "ata_read (dks k2) 0 PERSIST_LBA PERSIST_SECTORS (replicate PERSIST_BYTES 0) = Ok ?buf"
      using ata_read_healthy[OF h, of PERSIST_SECTORS "replicate PERSIST_BYTES 0" PERSIST_LBA] by simp
    then have "load_into_ramfs k2 = (Ok True, k2 \<lparr> fsys := fold (\<lambda>e. ramfs_create (fst e) (snd e)) ?es (fsys k2) \<rparr>)"
      using de by (simp add: load_into_ramfs_def)
    then show ?thesis by (auto simp: read_after_create persisted_lookup split: sum.splits)
  qed
  show ?thesis using save load by (intro exI[of _ ?k1]) simp
qed

theorem persist_round_trip_witness:
  "\<exists>k1 k3. save_from_ramfs ((sample_kernel [] [] 0) \<lparr> dks := Some [sample_disk []], fsys := ramfs_create (str ''/etc/settings'') [7] ramfs_new \<rparr>) = (Ok (), k1) \<and>
     load_into_ramfs (k1 \<lparr> fsys := ramfs_new \<rparr>) = (Ok True, k3) \<and> ramfs_read (fsys k3) (str ''/etc/settings'') = Inr [7]"
proof -
  let ?k = "(sample_kernel [] [] 0) \<lparr> dks := Some [sample_disk []], fsys := ramfs_create (str ''/etc/settings'') [7] ramfs_new \<rparr>"
  have h: "healthy (dks ?k) 0 (sample_disk [])" using sample_disk_healthy by simp
  have r: "ramfs_read (fsys ?k) (str ''/etc/settings'') = Inr [7]" "ramfs_read (fsys ?k) (str ''/etc/passwd'') = Inl NotFound"
    by (simp_all add: ramfs_read_def ramfs_create_def ramfs_new_def str_def)
  then have "persisted (fsys ?k) = [(str ''/etc/settings'', [7])]"
    by (simp add: persisted_def PERSISTED_PATHS_def List.map_filter_simps)
  then have "length (blob_serialize (persisted (fsys ?k))) \<le> PERSIST_BYTES"
    by (simp add: blob_serialize_def blob_entry_def Let_def PERSIST_MAGIC_def str_def)
  from persist_round_trip[OF h this] obtain k1 where k1: "save_from_ramfs ?k = (Ok (), k1)"
    and load: "\<forall>k2. dks k2 = dks k1 \<longrightarrow> (\<exists>k3. load_into_ramfs k2 = (Ok True, k3) \<and>
       (\<forall>p. ramfs_read (fsys k3) p = (if p \<in> set PERSISTED_PATHS \<and> (\<exists>x. ramfs_read (fsys ?k) p = Inr x)
          then ramfs_read (fsys ?k) p else ramfs_read (fsys k2) p)))" by blast
  have "dks (k1 \<lparr> fsys := ramfs_new \<rparr>) = dks k1" by simp
  from load[rule_format, OF this] obtain k3 where "load_into_ramfs (k1 \<lparr> fsys := ramfs_new \<rparr>) = (Ok True, k3)"
    "ramfs_read (fsys k3) (str ''/etc/settings'') = Inr [7]"
    using r(1) by (auto simp: PERSISTED_PATHS_def)
  then show ?thesis using k1 by blast
qed

end
