(* ===== verification/Sha256.thy ===== *)
theory Sha256
  imports Prelude
begin

text \<open>
  SHA-256 (\<open>crypto/sha256.rs\<close>): the streaming hash, as it is written (a 64-byte buffer that is filled,
  compressed and emptied), and the digest of a whole message as the standard defines it (padding,
  blocks, compression in order).  The two agree however the message is cut into pieces.
\<close>

unbundle bit_operations_syntax

section \<open>The compression function\<close>

definition H_INIT :: "u32 list" where
  "H_INIT = [0x6a09e667, 0xbb67ae85, 0x3c6ef372, 0xa54ff53a, 0x510e527f, 0x9b05688c, 0x1f83d9ab, 0x5be0cd19]"

definition K256 :: "u32 list" where
  "K256 = concat [
    [0x428a2f98, 0x71374491, 0xb5c0fbcf, 0xe9b5dba5, 0x3956c25b, 0x59f111f1, 0x923f82a4, 0xab1c5ed5],
    [0xd807aa98, 0x12835b01, 0x243185be, 0x550c7dc3, 0x72be5d74, 0x80deb1fe, 0x9bdc06a7, 0xc19bf174],
    [0xe49b69c1, 0xefbe4786, 0x0fc19dc6, 0x240ca1cc, 0x2de92c6f, 0x4a7484aa, 0x5cb0a9dc, 0x76f988da],
    [0x983e5152, 0xa831c66d, 0xb00327c8, 0xbf597fc7, 0xc6e00bf3, 0xd5a79147, 0x06ca6351, 0x14292967],
    [0x27b70a85, 0x2e1b2138, 0x4d2c6dfc, 0x53380d13, 0x650a7354, 0x766a0abb, 0x81c2c92e, 0x92722c85],
    [0xa2bfe8a1, 0xa81a664b, 0xc24b8b70, 0xc76c51a3, 0xd192e819, 0xd6990624, 0xf40e3585, 0x106aa070],
    [0x19a4c116, 0x1e376c08, 0x2748774c, 0x34b0bcb5, 0x391c0cb3, 0x4ed8aa4a, 0x5b9cca4f, 0x682e6ff3],
    [0x748f82ee, 0x78a5636f, 0x84c87814, 0x8cc70208, 0x90befffa, 0xa4506ceb, 0xbef9a3f7, 0xc67178f2]]"

definition ch :: "u32 \<Rightarrow> u32 \<Rightarrow> u32 \<Rightarrow> u32" where
  "ch x y z = (x AND y) XOR (NOT x AND z)"

definition maj :: "u32 \<Rightarrow> u32 \<Rightarrow> u32 \<Rightarrow> u32" where
  "maj x y z = (x AND y) XOR (x AND z) XOR (y AND z)"

definition big_sig0 :: "u32 \<Rightarrow> u32" where
  "big_sig0 x = word_rotr 2 x XOR word_rotr 13 x XOR word_rotr 22 x"

definition big_sig1 :: "u32 \<Rightarrow> u32" where
  "big_sig1 x = word_rotr 6 x XOR word_rotr 11 x XOR word_rotr 25 x"

definition small_sig0 :: "u32 \<Rightarrow> u32" where
  "small_sig0 x = word_rotr 7 x XOR word_rotr 18 x XOR drop_bit 3 x"

definition small_sig1 :: "u32 \<Rightarrow> u32" where
  "small_sig1 x = word_rotr 17 x XOR word_rotr 19 x XOR drop_bit 10 x"

definition schedule :: "bytes \<Rightarrow> u32 list" where
  "schedule block =
    fold (\<lambda>i w. w[i := small_sig1 (w ! (i - 2)) + w ! (i - 7) + small_sig0 (w ! (i - 15)) + w ! (i - 16)]) [16..<64]
      (map (\<lambda>i. of_nat (be_nat [block ! (i * 4), block ! (i * 4 + 1), block ! (i * 4 + 2), block ! (i * 4 + 3)])) [0..<16]
       @ replicate 48 0)"

type_synonym sha_vars = "u32 \<times> u32 \<times> u32 \<times> u32 \<times> u32 \<times> u32 \<times> u32 \<times> u32"

fun sha_round :: "u32 list \<Rightarrow> nat \<Rightarrow> sha_vars \<Rightarrow> sha_vars" where
  "sha_round w i (a, b, c, d, e, f, g, h) =
    (let t1 = h + big_sig1 e + ch e f g + K256 ! i + w ! i; t2 = big_sig0 a + maj a b c
     in (t1 + t2, a, b, c, d + t1, e, f, g))"

definition compress :: "bytes \<Rightarrow> u32 list \<Rightarrow> u32 list" where
  "compress block hs =
    (case fold (sha_round (schedule block)) [0..<64]
            (hs ! 0, hs ! 1, hs ! 2, hs ! 3, hs ! 4, hs ! 5, hs ! 6, hs ! 7) of
       (a, b, c, d, e, f, g, h) \<Rightarrow>
         [hs ! 0 + a, hs ! 1 + b, hs ! 2 + c, hs ! 3 + d, hs ! 4 + e, hs ! 5 + f, hs ! 6 + g, hs ! 7 + h])"

section \<open>The streaming interface\<close>

record sha256_state =
  sha_h :: "u32 list"
  sha_buf :: bytes
  buf_len :: nat
  total_bytes :: nat

definition sha_new :: sha256_state where
  "sha_new = \<lparr> sha_h = H_INIT, sha_buf = replicate 64 0, buf_len = 0, total_bytes = 0 \<rparr>"

text \<open>\<open>buf[off..off + len].copy_from_slice(xs)\<close>.\<close>

definition copy_at :: "bytes \<Rightarrow> nat \<Rightarrow> bytes \<Rightarrow> bytes result" where
  "copy_at buf off xs = (if off + length xs \<le> length buf then Ok (take off buf @ xs @ drop (off + length xs) buf) else Panic)"

text \<open>Filling a buffer that is not empty, and compressing it when it is full.\<close>

definition sha_fill :: "bytes \<Rightarrow> sha256_state \<Rightarrow> (sha256_state \<times> bytes) result" where
  "sha_fill data s =
    (if buf_len s = 0 then Ok (s, data)
     else rbind (csub 64 (buf_len s)) (\<lambda>room.
       let n = min room (length data) in
       rbind (copy_at (sha_buf s) (buf_len s) (take n data)) (\<lambda>buf.
       let s1 = s \<lparr> sha_buf := buf, buf_len := buf_len s + n \<rparr> in
       Ok (if buf_len s1 = 64 then s1 \<lparr> sha_h := compress buf (sha_h s1), buf_len := 0 \<rparr> else s1, drop n data))))"

function sha_blocks :: "bytes \<Rightarrow> u32 list \<Rightarrow> u32 list \<times> bytes" where
  "sha_blocks data hs = (if 64 \<le> length data then sha_blocks (drop 64 data) (compress (take 64 data) hs) else (hs, data))"
  by pat_completeness auto
termination by (relation "measure (\<lambda>(data, _). length data)") auto

declare sha_blocks.simps [simp del]

text \<open>The complete blocks are compressed directly, the rest is kept in the (empty) buffer.\<close>

definition sha_tail :: "bytes \<Rightarrow> sha256_state \<Rightarrow> sha256_state result" where
  "sha_tail data s =
    (case sha_blocks data (sha_h s) of (hs, data) \<Rightarrow>
      if data = [] then Ok (s \<lparr> sha_h := hs \<rparr>)
      else rbind (copy_at (sha_buf s) 0 data) (\<lambda>buf.
        Ok (s \<lparr> sha_h := hs, sha_buf := buf, buf_len := length data \<rparr>)))"

definition sha_update :: "bytes \<Rightarrow> sha256_state \<Rightarrow> sha256_state result" where
  "sha_update data s =
    rbind (sha_fill data (s \<lparr> total_bytes := (total_bytes s + length data) mod 2 ^ 64 \<rparr>)) (\<lambda>(s, data). sha_tail data s)"

definition sha_finalize :: "sha256_state \<Rightarrow> bytes result" where
  "sha_finalize s =
    (let bit_len = total_bytes s * 8 mod 2 ^ 64 in
     rbind (rset (sha_buf s) (buf_len s) 0x80) (\<lambda>buf0.
     let n = buf_len s + 1;
         (hs, buf, n) = (if 56 < n then (compress (take n buf0 @ replicate (64 - n) 0) (sha_h s), replicate 64 0, 0)
                         else (sha_h s, buf0, n));
         block = take n buf @ replicate (56 - n) 0 @ be_bytes 8 bit_len
     in Ok (concat (map (\<lambda>h. be_bytes 4 (unat h)) (compress block hs)))))"

definition sha256 :: "bytes \<Rightarrow> bytes result" where
  "sha256 data = rbind (sha_update data sha_new) sha_finalize"

definition hex_digit :: "nat \<Rightarrow> u8" where
  "hex_digit n = str ''0123456789abcdef'' ! n"

definition sha256_hex :: "bytes \<Rightarrow> bytes result" where
  "sha256_hex data = rbind (sha256 data) (\<lambda>d. Ok (concat (map (\<lambda>b. [hex_digit (unat (drop_bit 4 b)), hex_digit (unat (b AND 0x0F))]) d)))"

section \<open>The standard\<close>

text \<open>A message is padded with the bit 1, zeros and its length in bits to a multiple of 64 bytes, cut into
  blocks of 64 bytes, and the blocks are compressed in order.\<close>

function blocks :: "bytes \<Rightarrow> bytes list" where
  "blocks xs = (if 64 \<le> length xs then take 64 xs # blocks (drop 64 xs) else [])"
  by pat_completeness auto
termination by (relation "measure length") auto

declare blocks.simps [simp del]

definition pad_zeros :: "nat \<Rightarrow> nat" where
  "pad_zeros n = (if n mod 64 < 56 then 55 - n mod 64 else 119 - n mod 64)"

definition sha_pad :: "bytes \<Rightarrow> bytes" where
  "sha_pad msg = msg @ 0x80 # replicate (pad_zeros (length msg)) 0 @ be_bytes 8 (8 * length msg mod 2 ^ 64)"

definition hash_blocks :: "bytes \<Rightarrow> u32 list" where
  "hash_blocks xs = fold compress (blocks xs) H_INIT"

definition sha_digest :: "bytes \<Rightarrow> bytes" where
  "sha_digest msg = concat (map (\<lambda>h. be_bytes 4 (unat h)) (hash_blocks (sha_pad msg)))"

definition whole :: "bytes \<Rightarrow> nat" where
  "whole xs = 64 * (length xs div 64)"

text \<open>The blocks of a message that continues a multiple of 64 bytes.\<close>

lemma blocks_short [simp]: "length xs < 64 \<Longrightarrow> blocks xs = []"
  by (simp add: blocks.simps[of xs])

lemma blocks_block: "length b = 64 \<Longrightarrow> blocks (b @ xs) = b # blocks xs"
  by (simp add: blocks.simps[of "b @ xs"])

lemma blocks_append: "64 dvd length xs \<Longrightarrow> blocks (xs @ ys) = blocks xs @ blocks ys"
proof (induction xs rule: blocks.induct)
  case (1 xs)
  show ?case
  proof (cases "64 \<le> length xs")
    case True
    then have "64 dvd length (drop 64 xs)" using 1(2) by (simp add: dvd_diff_nat)
    then show ?thesis using 1(1)[OF True] True
      by (simp add: blocks.simps[of "xs @ ys"] blocks.simps[of xs])
  next
    case False
    then have "xs = []" using 1(2) by (auto dest: dvd_imp_le)
    then show ?thesis by simp
  qed
qed

lemma blocks_whole: "blocks xs = blocks (take (whole xs) xs)"
proof -
  have "64 dvd length (take (whole xs) xs)" by (simp add: whole_def min_absorb2)
  then have "blocks (take (whole xs) xs @ drop (whole xs) xs) = blocks (take (whole xs) xs) @ blocks (drop (whole xs) xs)"
    by (rule blocks_append)
  moreover have "length (drop (whole xs) xs) < 64" by (simp add: whole_def minus_mult_div_eq_mod)
  ultimately show ?thesis by simp
qed

lemma sha_blocks_spec: "sha_blocks xs hs = (fold compress (blocks xs) hs, drop (whole xs) xs)"
proof (induction xs hs rule: sha_blocks.induct)
  case (1 xs hs)
  show ?case
  proof (cases "64 \<le> length xs")
    case True
    then have "whole xs = 64 + whole (drop 64 xs)" by (simp add: whole_def div_if[of "length xs"])
    then show ?thesis using 1[OF True] True by (simp add: sha_blocks.simps[of xs] blocks.simps[of xs] add.commute)
  next
    case False
    then show ?thesis by (simp add: sha_blocks.simps[of xs] whole_def)
  qed
qed

section \<open>The streaming hash implements the standard\<close>

text \<open>The state after the message \<open>msg\<close>: the whole blocks are compressed, the rest is in the buffer.\<close>

definition sha_after :: "bytes \<Rightarrow> sha256_state \<Rightarrow> bool" where
  "sha_after msg s \<longleftrightarrow> sha_h s = hash_blocks msg \<and> length (sha_buf s) = 64 \<and> buf_len s = length msg mod 64 \<and>
     take (buf_len s) (sha_buf s) = drop (whole msg) msg \<and> total_bytes s = length msg mod 2 ^ 64"

lemma sha_after_new: "sha_after [] sha_new"
  by (simp add: sha_after_def sha_new_def hash_blocks_def whole_def)

lemma msg_split: "msg = take (whole msg) msg @ drop (whole msg) msg" "64 dvd length (take (whole msg) msg)"
  "length (drop (whole msg) msg) = length msg mod 64"
  by (simp_all add: whole_def min_absorb2 minus_mult_div_eq_mod)

lemma hash_blocks_append:
  "hash_blocks (msg @ data) = fold compress (blocks (drop (whole msg) msg @ data)) (hash_blocks msg)"
proof -
  have "blocks (msg @ data) = blocks (take (whole msg) msg) @ blocks (drop (whole msg) msg @ data)"
    using blocks_append[OF msg_split(2)] msg_split(1) by (metis append.assoc)
  then show ?thesis using blocks_whole[of msg] by (simp add: hash_blocks_def)
qed

lemma drop_whole_append:
  "drop (whole (msg @ data)) (msg @ data) = drop (whole (drop (whole msg) msg @ data)) (drop (whole msg) msg @ data)"
proof -
  define t r where "t = take (whole msg) msg" and "r = drop (whole msg) msg"
  have a: "64 * ((a + b) div 64) = 64 * (a div 64) + 64 * ((a mod 64 + b) div 64)" for a b :: nat
  proof -
    have "a + b = (a mod 64 + b) + 64 * (a div 64)" by simp
    then have "(a + b) div 64 = a div 64 + (a mod 64 + b) div 64" by (metis add.commute div_mult_self2 zero_neq_numeral)
    then show ?thesis by simp
  qed
  have r: "length r = length msg mod 64" unfolding r_def by (rule msg_split(3))
  have w: "whole (msg @ data) = whole msg + whole (r @ data)"
    unfolding whole_def length_append r by (rule a)
  have "length t = whole msg" by (simp add: t_def whole_def min_absorb2)
  then have "drop (whole msg + whole (r @ data)) (t @ (r @ data)) = drop (whole (r @ data)) (r @ data)" by simp
  moreover have "t @ (r @ data) = msg @ data" by (simp add: t_def r_def)
  ultimately show ?thesis unfolding w r_def[symmetric] by simp
qed

lemma whole_block: "length b = 64 \<Longrightarrow> drop (whole (b @ d)) (b @ d) = drop (whole d) d"
  by (simp add: whole_def div_add_self1)

text \<open>The part of \<open>update\<close> after the buffer was filled, from an empty buffer.\<close>

lemma sha_rest:
  assumes "length (sha_buf s) = 64"
  obtains s' where "sha_tail data s = Ok s'"
    "sha_h s' = fold compress (blocks data) (sha_h s)" "length (sha_buf s') = 64" "total_bytes s' = total_bytes s"
    "drop (whole data) data = [] \<Longrightarrow> s' = s \<lparr> sha_h := sha_h s' \<rparr>"
    "drop (whole data) data \<noteq> [] \<Longrightarrow> buf_len s' = length data mod 64 \<and> take (buf_len s') (sha_buf s') = drop (whole data) data"
proof -
  let ?d = "drop (whole data) data"
  have l: "length ?d = length data mod 64" by (rule msg_split(3))
  show ?thesis
  proof (cases "?d = []")
    case True
    then show ?thesis using that[of "s \<lparr> sha_h := fold compress (blocks data) (sha_h s) \<rparr>"] assms
      by (simp add: sha_tail_def sha_blocks_spec)
  next
    case False
    have "length ?d < 64" unfolding l by simp
    then have "copy_at (sha_buf s) 0 ?d = Ok (?d @ drop (length ?d) (sha_buf s))"
      using assms by (simp add: copy_at_def del: length_drop)
    then show ?thesis
      using that[of "s \<lparr> sha_h := fold compress (blocks data) (sha_h s), sha_buf := ?d @ drop (length ?d) (sha_buf s), buf_len := length ?d \<rparr>"]
        False assms l \<open>length ?d < 64\<close> by (simp add: sha_tail_def sha_blocks_spec)
  qed
qed

lemma sha_after_rest:
  assumes "length (sha_buf s) = 64" "buf_len s = 0" "total_bytes s = length (msg @ data) mod 2 ^ 64"
    and "hash_blocks (msg @ data) = fold compress (blocks d) (sha_h s)"
    and "drop (whole (msg @ data)) (msg @ data) = drop (whole d) d"
  shows "\<exists>s'. sha_tail d s = Ok s' \<and>
    sha_after (msg @ data) s'"
proof -
  obtain s' where s': "sha_tail d s = Ok s'"
    "sha_h s' = fold compress (blocks d) (sha_h s)" "length (sha_buf s') = 64" "total_bytes s' = total_bytes s"
    "drop (whole d) d = [] \<Longrightarrow> s' = s \<lparr> sha_h := sha_h s' \<rparr>"
    "drop (whole d) d \<noteq> [] \<Longrightarrow> buf_len s' = length d mod 64 \<and> take (buf_len s') (sha_buf s') = drop (whole d) d"
    by (rule sha_rest[OF assms(1)]) blast
  have l: "length (msg @ data) mod 64 = length d mod 64"
    using arg_cong[OF assms(5), of length] msg_split(3) by metis
  have "buf_len s' = length (msg @ data) mod 64 \<and> take (buf_len s') (sha_buf s') = drop (whole (msg @ data)) (msg @ data)"
  proof (cases "drop (whole d) d = []")
    case True
    then have "length d mod 64 = 0" using msg_split(3)[of d] by simp
    moreover have "buf_len s' = 0" using s'(5)[OF True] assms(2) by (metis sha256_state.select_convs(3) sha256_state.surjective sha256_state.update_convs(1))
    ultimately show ?thesis using l True assms(5) by simp
  next
    case False
    from s'(6)[OF this] show ?thesis unfolding l assms(5) .
  qed
  then show ?thesis using s'(1-4) assms(3,4) unfolding sha_after_def by auto
qed

lemma sha_update_after:
  assumes "sha_after msg s"
  shows "\<exists>s'. sha_update data s = Ok s' \<and> sha_after (msg @ data) s'"
proof -
  let ?s = "s \<lparr> total_bytes := (total_bytes s + length data) mod 2 ^ 64 \<rparr>" and ?r = "drop (whole msg) msg"
  have s: "sha_h s = hash_blocks msg" "length (sha_buf s) = 64" "buf_len s = length msg mod 64"
    "take (buf_len s) (sha_buf s) = ?r" "total_bytes ?s = length (msg @ data) mod 2 ^ 64"
    using assms unfolding sha_after_def by (auto simp: mod_add_left_eq)
  have rl: "length ?r = buf_len s" using s(3) msg_split(3) by simp
  have b64: "buf_len s < 64" using s(3) by simp
  show ?thesis
  proof (cases "buf_len s = 0")
    case True
    then have r: "?r = []" using rl by simp
    have "\<exists>s'. sha_tail data ?s = Ok s' \<and>
      sha_after (msg @ data) s'"
      by (rule sha_after_rest) (use s True r hash_blocks_append[of msg data] drop_whole_append[of msg data] in simp_all)
    then show ?thesis using True by (simp add: sha_update_def sha_fill_def)
  next
    case False
    define n where "n = min (64 - buf_len s) (length data)"
    define buf where "buf = ?r @ take n data @ drop (buf_len s + n) (sha_buf s)"
    have tn: "length (take n data) = n" "buf_len s + n \<le> 64" using b64 by (auto simp: n_def)
    have cp: "copy_at (sha_buf s) (buf_len s) (take n data) = Ok buf"
      unfolding copy_at_def tn(1) s(4) buf_def using tn(2) s(2) by simp
    show ?thesis
    proof (cases "64 - buf_len s \<le> length data")
      case True
      let ?d = "drop (64 - buf_len s) data"
      have n: "n = 64 - buf_len s" using True by (simp add: n_def)
      then have buf: "buf = ?r @ take (64 - buf_len s) data" using s(2) b64 by (simp add: buf_def)
      then have l64: "length buf = 64" using b64 rl True by simp
      let ?s1 = "?s \<lparr> sha_buf := buf, sha_h := compress buf (sha_h s), buf_len := 0 \<rparr>"
      have rd: "?r @ data = buf @ ?d" using buf by simp
      have fill: "sha_fill data ?s = Ok (?s1, ?d)"
        using False b64 True cp[unfolded n] by (simp add: sha_fill_def Let_def csub_def min_absorb1)
      have "\<exists>s'. sha_tail ?d ?s1 = Ok s' \<and>
        sha_after (msg @ data) s'"
      proof (rule sha_after_rest)
        show "hash_blocks (msg @ data) = fold compress (blocks ?d) (sha_h ?s1)"
          unfolding hash_blocks_append[of msg data] rd blocks_block[OF l64] by (simp add: s(1))
        show "drop (whole (msg @ data)) (msg @ data) = drop (whole ?d) ?d"
          unfolding drop_whole_append[of msg data] rd by (rule whole_block[OF l64])
      qed (use l64 s(5) in simp_all)
      then show ?thesis using fill by (simp add: sha_update_def)
    next
      case small: False
      then have n: "n = length data" by (simp add: n_def)
      let ?s1 = "?s \<lparr> sha_buf := buf, buf_len := buf_len s + length data \<rparr>"
      have fill: "sha_fill data ?s = Ok (?s1, [])"
      proof -
        have c: "csub 64 (buf_len s) = Ok (64 - buf_len s)" and m: "min (64 - buf_len s) (length data) = length data"
          and ne: "buf_len s + length data \<noteq> 64"
          using b64 small by (auto simp: csub_def)
        have cp': "copy_at (sha_buf s) (buf_len s) data = Ok buf" using cp n by simp
        show ?thesis using False c m ne cp' by (simp add: sha_fill_def) (simp add: Let_def)
      qed
      have lt: "length (?r @ data) < 64" using small rl by simp
      have "hash_blocks (msg @ data) = hash_blocks msg" "drop (whole (msg @ data)) (msg @ data) = ?r @ data"
        unfolding hash_blocks_append[of msg data] drop_whole_append[of msg data] using lt by (simp_all add: whole_def)
      moreover have "length (msg @ data) mod 64 = (buf_len s + length data) mod 64"
        unfolding s(3) by (simp add: mod_add_left_eq)
      then have "buf_len s + length data = length (msg @ data) mod 64" using small by simp
      moreover have "take (buf_len s + length data) buf = ?r @ data" "length buf = 64"
        using n rl lt s(2) by (simp_all add: buf_def)
      ultimately have "sha_after (msg @ data) ?s1" using s by (simp add: sha_after_def)
      then show ?thesis using fill by (simp add: sha_update_def sha_tail_def sha_blocks_spec whole_def)
    qed
  qed
qed

lemma sha_finalize_digest:
  assumes "sha_after msg s"
  shows "sha_finalize s = Ok (sha_digest msg)"
proof -
  let ?r = "drop (whole msg) msg" and ?bl = "be_bytes 8 (8 * length msg mod 2 ^ 64)"
  have s: "sha_h s = hash_blocks msg" "length (sha_buf s) = 64" "buf_len s = length msg mod 64"
    "take (buf_len s) (sha_buf s) = ?r" "total_bytes s = length msg mod 2 ^ 64"
    using assms unfolding sha_after_def by auto
  have rl: "length ?r = buf_len s" using s(3) msg_split(3) by simp
  have b64: "buf_len s < 64" using s(3) by simp
  let ?buf0 = "(sha_buf s)[buf_len s := 0x80]"
  have set0: "rset (sha_buf s) (buf_len s) 0x80 = Ok ?buf0" using s(2) b64 by (simp add: rset_def)
  have t0: "take (buf_len s + 1) ?buf0 = ?r @ [0x80]"
    using s(2,4) b64 by (simp add: take_Suc_conv_app_nth)
  have bits: "total_bytes s * 8 mod 2 ^ 64 = 8 * length msg mod 2 ^ 64"
    unfolding s(5) by (simp add: mod_mult_right_eq mult.commute)
  have pad: "hash_blocks (sha_pad msg) =
      fold compress (blocks (?r @ 0x80 # replicate (pad_zeros (length msg)) 0 @ ?bl)) (hash_blocks msg)"
    unfolding sha_pad_def by (rule hash_blocks_append)
  show ?thesis
  proof (cases "56 < buf_len s + 1")
    case True
    let ?b1 = "?r @ 0x80 # replicate (63 - buf_len s) 0" and ?b2 = "replicate 56 0 @ ?bl"
    have "pad_zeros (length msg) = (63 - buf_len s) + 56" using True b64 s(3) by (simp add: pad_zeros_def)
    then have split: "?r @ 0x80 # replicate (pad_zeros (length msg)) 0 @ ?bl = ?b1 @ ?b2 @ []"
      by (simp only: replicate_add append.assoc append_Cons append_Nil2)
    have l: "length ?b1 = 64" "length ?b2 = 64" using rl b64 by simp_all
    have "hash_blocks (sha_pad msg) = compress ?b2 (compress ?b1 (hash_blocks msg))"
      unfolding pad split blocks_block[OF l(1)] blocks_block[OF l(2)] by simp
    moreover have "take (buf_len s + 1) ?buf0 @ replicate (64 - (buf_len s + 1)) 0 = ?b1" unfolding t0 by simp
    ultimately show ?thesis
      using True set0 s(1) bits by (simp add: sha_finalize_def sha_digest_def Let_def)
  next
    case False
    let ?b = "?r @ 0x80 # replicate (55 - buf_len s) 0 @ ?bl"
    have z: "pad_zeros (length msg) = 55 - buf_len s" using False s(3) by (simp add: pad_zeros_def)
    have "length ?b = 64" using rl False by simp
    then have "blocks ?b = [?b]" using blocks_block[of ?b "[]"] by simp
    then have h: "hash_blocks (sha_pad msg) = compress ?b (hash_blocks msg)" unfolding pad z by simp
    have "take (buf_len s + 1) ?buf0 @ replicate (56 - (buf_len s + 1)) 0 @ ?bl = ?b" unfolding t0 by simp
    then show ?thesis
      using False set0 s(1) bits h by (simp add: sha_finalize_def sha_digest_def Let_def)
  qed
qed

lemma sha_updates_after:
  "sha_after msg s \<Longrightarrow> \<exists>s'. rfold sha_update cs s = Ok s' \<and> sha_after (msg @ concat cs) s'"
proof (induction cs arbitrary: msg s)
  case (Cons c cs)
  obtain s1 where "sha_update c s = Ok s1" "sha_after (msg @ c) s1" using sha_update_after[OF Cons.prems] by blast
  then show ?case using Cons.IH[of "msg @ c" s1] by auto
qed simp

lemma sha256_digest: "sha256 data = Ok (sha_digest data)"
  using sha_update_after[OF sha_after_new, of data] sha_finalize_digest by (auto simp: sha256_def)

lemma length_compress: "length (compress b hs) = 8"
  by (simp add: compress_def split: prod.split)

lemma length_sha_digest: "length (sha_digest msg) = 32"
proof -
  have "length (fold compress bs hs) = 8" if "length hs = 8" for bs hs
    using that by (induction bs arbitrary: hs) (simp_all add: length_compress)
  then have "length (hash_blocks xs) = 8" for xs by (simp add: hash_blocks_def H_INIT_def)
  then show ?thesis by (simp add: sha_digest_def length_concat o_def sum_list_triv)
qed

section \<open>Property\<close>


end
