(* ===== verification/Users.thy ===== *)
theory Users
  imports Persist Sha256 Rust_Str
begin

text \<open>
  The local accounts (\<open>users/mod.rs\<close>): the text file \<open>/etc/passwd\<close> of the RAM file system with one line per
  account, the login check, and the operations that create, change and remove an account and write the
  persistent state.  The parser and the printer are inverse to each other on well-formed accounts, and
  every account the parser returns is well formed; the operations are edits of the list of accounts.
\<close>

section \<open>Accounts\<close>

record user =
  u_name :: bytes
  password_hash :: bytes
  u_uid :: nat
  u_gid :: nat
  gecos :: bytes
  home :: bytes
  shell :: bytes

definition PASSWD_PATH :: bytes where
  "PASSWD_PATH = str ''/etc/passwd''"

definition trim_cr :: "bytes \<Rightarrow> bytes" where
  "trim_cr l = rev (dropWhile (\<lambda>b. b = 13) (rev l))"

definition parse_user :: "bytes \<Rightarrow> user option" where
  "parse_user l =
    (let line = trim_cr l in
     if line = [] \<or> hd line = 0x23 then None
     else (case split_on 0x3A line of
         [f0, f1, f2, f3, f4, f5, f6] \<Rightarrow>
           (case parse_uint 32 f2 of
              None \<Rightarrow> None
            | Some n \<Rightarrow>
                (case parse_uint 32 f3 of
                   None \<Rightarrow> None
                 | Some m \<Rightarrow> Some \<lparr> u_name = f0, password_hash = f1, u_uid = n, u_gid = m,
                                      gecos = f4, home = f5, shell = f6 \<rparr>))
       | _ \<Rightarrow> None))"

definition parse_passwd :: "bytes \<Rightarrow> user list" where
  "parse_passwd content = List.map_filter parse_user (lines content)"

definition load_users :: "kernel \<Rightarrow> user list result" where
  "load_users k =
    (case ramfs_read (fsys k) PASSWD_PATH of
       Inl _ \<Rightarrow> Err ''users: /etc/passwd introuvable''
     | Inr bs \<Rightarrow> if utf8_valid bs then Ok (parse_passwd bs) else Err ''users: /etc/passwd non-UTF8'')"

definition find_user :: "bytes \<Rightarrow> kernel \<Rightarrow> user option" where
  "find_user name k =
    (case load_users k of Ok us \<Rightarrow> List.find (\<lambda>u. u_name u = name) us | Err _ \<Rightarrow> None | Panic \<Rightarrow> None)"

definition constant_time_eq :: "bytes \<Rightarrow> bytes \<Rightarrow> bool" where
  "constant_time_eq a b \<longleftrightarrow>
    (if length a \<noteq> length b then False else fold (\<lambda>i d. d OR (a ! i XOR b ! i)) [0..<length a] 0 = 0)"

definition authenticate :: "bytes \<Rightarrow> bytes \<Rightarrow> kernel \<Rightarrow> user option result" where
  "authenticate name password k =
    (case find_user name k of
       None \<Rightarrow> Ok None
     | Some u \<Rightarrow> rbind (sha256_hex password) (\<lambda>computed.
         Ok (if constant_time_eq computed (password_hash u) then Some u else None)))"

definition hash_password :: "bytes \<Rightarrow> bytes result" where
  "hash_password password = sha256_hex password"

definition user_line :: "user \<Rightarrow> bytes" where
  "user_line u = u_name u @ 0x3A # password_hash u @ 0x3A # show_nat (u_uid u) @ 0x3A # show_nat (u_gid u) @ 0x3A #
     gecos u @ 0x3A # home u @ 0x3A # shell u"

definition serialize :: "user list \<Rightarrow> bytes" where
  "serialize us = concat (map (\<lambda>u. user_line u @ [10]) us)"

definition save :: "user list \<Rightarrow> (kernel, unit) op" where
  "save us =
    sbind (supd (\<lambda>k. k \<lparr> fsys := ramfs_write PASSWD_PATH (serialize us) (fsys k) \<rparr>)) (\<lambda>_. save_from_ramfs)"

datatype user_error = NameTaken | NameInvalid | PasswordTooShort | SaveFailed string

definition save_or_fail :: "user list \<Rightarrow> 'a \<Rightarrow> (kernel, user_error + 'a) op" where
  "save_or_fail us x =
    sbind (stry (save us)) (\<lambda>r. case r of Ok _ \<Rightarrow> sret (Inr x) | Err e \<Rightarrow> sret (Inl (SaveFailed e)) | Panic \<Rightarrow> slift Panic)"

definition name_byte :: "u8 \<Rightarrow> bool" where
  "name_byte b \<longleftrightarrow> 0x30 \<le> b \<and> b \<le> 0x39 \<or> 0x41 \<le> b \<and> b \<le> 0x5A \<or> 0x61 \<le> b \<and> b \<le> 0x7A \<or> b = 0x5F \<or> b = 0x2D"

definition name_valid :: "bytes \<Rightarrow> bool" where
  "name_valid name \<longleftrightarrow> \<not> (name = [] \<or> 32 < length name) \<and> list_all name_byte name"

definition next_uid :: "user list \<Rightarrow> nat result" where
  "next_uid users =
    (case map u_uid (filter (\<lambda>u. 1000 \<le> u_uid u) users) of
       [] \<Rightarrow> Ok 1000
     | m # ms \<Rightarrow> cadd 32 (fold max ms m) 1)"

definition new_account :: "bytes \<Rightarrow> bytes \<Rightarrow> nat \<Rightarrow> user" where
  "new_account name hash n =
    \<lparr> u_name = name, password_hash = hash, u_uid = n, u_gid = n, gecos = name, home = str ''/home/'' @ name,
      shell = str ''/bin/sh'' \<rparr>"

definition create_user :: "bytes \<Rightarrow> bytes \<Rightarrow> (kernel, user_error + user) op" where
  "create_user name password =
    (if \<not> name_valid name then sret (Inl NameInvalid)
     else if length password < 4 then sret (Inl PasswordTooShort)
     else sbind (sget (\<lambda>k. unwrap_or [] (load_users k))) (\<lambda>users.
       if list_ex (\<lambda>u. u_name u = name) users then sret (Inl NameTaken)
       else sbind (slift (next_uid users)) (\<lambda>n.
         sbind (slift (hash_password password)) (\<lambda>hash.
         let u = new_account name hash n in save_or_fail (users @ [u]) u))))"

fun update_first :: "('a \<Rightarrow> bool) \<Rightarrow> ('a \<Rightarrow> 'a) \<Rightarrow> 'a list \<Rightarrow> 'a list" where
  "update_first P f [] = []"
| "update_first P f (x # xs) = (if P x then f x # xs else x # update_first P f xs)"

definition set_password :: "nat \<Rightarrow> bytes \<Rightarrow> (kernel, user_error + unit) op" where
  "set_password n password =
    (if length password < 4 then sret (Inl PasswordTooShort)
     else sbind (sget (\<lambda>k. unwrap_or [] (load_users k))) (\<lambda>users.
       if \<not> list_ex (\<lambda>u. u_uid u = n) users then sret (Inl NameInvalid)
       else sbind (slift (hash_password password)) (\<lambda>hash.
         save_or_fail (update_first (\<lambda>u. u_uid u = n) (\<lambda>u. u \<lparr> password_hash := hash \<rparr>) users) ())))"

definition delete_user :: "nat \<Rightarrow> (kernel, user_error + unit) op" where
  "delete_user n =
    (if n = 0 then sret (Inl NameInvalid)
     else sbind (sget (\<lambda>k. unwrap_or [] (load_users k))) (\<lambda>users.
       let users' = filter (\<lambda>u. u_uid u \<noteq> n) users in
       if length users' = length users then sret (Inl NameInvalid)
       else save_or_fail users' ()))"

section \<open>The account file is read as it is written\<close>

definition field_ok :: "bytes \<Rightarrow> bool" where
  "field_ok f \<longleftrightarrow> 0x3A \<notin> set f \<and> 10 \<notin> set f \<and> utf8_valid f"

definition user_ok :: "user \<Rightarrow> bool" where
  "user_ok u \<longleftrightarrow>
     field_ok (u_name u) \<and> field_ok (password_hash u) \<and> field_ok (gecos u) \<and> field_ok (home u) \<and> field_ok (shell u) \<and>
     u_uid u < 2 ^ 32 \<and> u_gid u < 2 ^ 32 \<and> (u_name u \<noteq> [] \<longrightarrow> hd (u_name u) \<noteq> 0x23) \<and>
     (shell u \<noteq> [] \<longrightarrow> last (shell u) \<noteq> 13)"

lemma field_ok_show: "field_ok (show_nat n)"
proof -
  have d: "48 \<le> unat b \<and> unat b \<le> 57" if "b \<in> set (show_nat n)" for b
    using show_nat_digits[OF that] by (simp add: word_le_nat_alt)
  have "utf8_valid (show_nat n)" by (rule utf8_valid_ascii) (use d in \<open>fastforce simp: ascii_bytes_def word_less_nat_alt\<close>)
  then show ?thesis using d[of "0x3A"] d[of 10] by (auto simp: field_ok_def)
qed

lemma user_lineD:
  assumes "user_ok u"
  shows "10 \<notin> set (user_line u)" "utf8_valid (user_line u)" "trim_cr (user_line u) = user_line u"
    "strip_cr (user_line u) = user_line u" "hd (user_line u) \<noteq> 0x23" "user_line u \<noteq> []"
proof -
  have l: "last (user_line u) \<noteq> 13" and ne: "user_line u \<noteq> []"
    using assms by (auto simp: user_line_def user_ok_def)
  show "10 \<notin> set (user_line u)" "utf8_valid (user_line u)"
    using assms field_ok_show[of "u_uid u"] field_ok_show[of "u_gid u"]
    by (simp_all add: user_line_def user_ok_def field_ok_def utf8_valid_split)
  show "trim_cr (user_line u) = user_line u"
    using l ne by (cases "user_line u" rule: rev_cases) (simp_all add: trim_cr_def)
  show "strip_cr (user_line u) = user_line u" "user_line u \<noteq> []" using l ne by (simp_all add: strip_cr_def)
  show "hd (user_line u) \<noteq> 0x23" using assms by (cases "u_name u") (simp_all add: user_line_def user_ok_def)
qed

lemma parse_user_line: "user_ok u \<Longrightarrow> parse_user (user_line u) = Some u"
proof -
  assume ok: "user_ok u"
  have "split_on 0x3A (user_line u) = [u_name u, password_hash u, show_nat (u_uid u), show_nat (u_gid u), gecos u, home u, shell u]"
    using ok field_ok_show[of "u_uid u"] field_ok_show[of "u_gid u"]
    by (simp add: user_line_def user_ok_def field_ok_def split_on_sep split_on_fresh)
  moreover have "parse_uint 32 (show_nat (u_uid u)) = Some (u_uid u)" "parse_uint 32 (show_nat (u_gid u)) = Some (u_gid u)"
    using ok by (simp_all only: user_ok_def parse_uint_show)
  ultimately show ?thesis using user_lineD[OF ok] by (simp add: parse_user_def)
qed

lemma lines_Nil [simp]: "lines [] = []"
  by (simp add: lines_def)

lemma lines_line: "10 \<notin> set l \<Longrightarrow> lines (l @ 10 # r) = strip_cr l # lines r"
  by (simp add: lines_def split_on_sep Let_def)

lemma parse_serialize: "\<forall>u \<in> set us. user_ok u \<Longrightarrow> parse_passwd (serialize us) = us"
proof (induction us)
  case (Cons u us)
  then have ok: "user_ok u" by simp
  have "lines (serialize (u # us)) = user_line u # lines (serialize us)"
    using lines_line[OF user_lineD(1)[OF ok], of "serialize us"] user_lineD(4)[OF ok] by (simp add: serialize_def)
  then show ?case using Cons parse_user_line[OF ok] by (simp add: parse_passwd_def List.map_filter_simps)
qed (simp add: parse_passwd_def serialize_def List.map_filter_simps)

lemma serialize_utf8: "\<forall>u \<in> set us. user_ok u \<Longrightarrow> utf8_valid (serialize us)"
  by (induction us) (simp_all add: serialize_def utf8_valid_append user_lineD(2) utf8_valid_split)

section \<open>What the parser returns is well formed\<close>

lemma trim_cr_prefix: "\<exists>n. l = trim_cr l @ replicate n 13"
proof (induction l rule: rev_induct)
  case (snoc b l)
  show ?case
  proof (cases "b = 13")
    case True
    obtain n where "l = trim_cr l @ replicate n 13" using snoc by blast
    then have "l @ [b] = trim_cr (l @ [b]) @ replicate n 13 @ [13]" using True by (simp add: trim_cr_def)
    then show ?thesis by (auto simp: replicate_append_same[symmetric] intro!: exI[of _ "Suc n"])
  qed (simp add: trim_cr_def)
qed (simp add: trim_cr_def)

lemma utf8_valid_trim: "utf8_valid l \<Longrightarrow> utf8_valid (trim_cr l)"
proof -
  assume v: "utf8_valid l"
  obtain n where l: "l = trim_cr l @ replicate n 13" using trim_cr_prefix by blast
  show ?thesis
  proof (cases n)
    case 0
    then show ?thesis using l v by simp
  next
    case (Suc m)
    then have "utf8_valid (trim_cr l @ 13 # replicate m 13)" using l v by simp
    then show ?thesis by (rule utf8_valid_before) simp
  qed
qed

lemma trim_cr_last: "trim_cr l \<noteq> [] \<Longrightarrow> last (trim_cr l) \<noteq> 13"
  using hd_dropWhile[of "\<lambda>b. b = (13 :: u8)" "rev l"] by (simp add: trim_cr_def last_rev)

lemma set_trim_cr: "set (trim_cr l) \<subseteq> set l"
  by (auto simp: trim_cr_def dest: set_dropWhileD)

lemma split_on_join: "join_with [c] (split_on c bs) = bs"
proof (induction bs)
  case (Cons b bs)
  then show ?case using split_on_nonempty[of c bs] by (cases "split_on c bs") (auto simp: join_with_def)
qed (simp add: join_with_def)

lemma parse_digits_bound: "parse_digits w acc bs = Some n \<Longrightarrow> acc < 2 ^ w \<Longrightarrow> n < 2 ^ w"
  by (induction w acc bs rule: parse_digits.induct) (auto simp: Let_def split: if_splits)

lemma parse_uint_bound: "parse_uint w bs = Some n \<Longrightarrow> n < 2 ^ w"
  using parse_digits_bound[of w 0 _ n] by (auto simp: parse_uint_def simp del: parse_digits.simps split: list.splits if_splits)

lemma parse_user_ok:
  assumes "parse_user l = Some u" "10 \<notin> set l" "utf8_valid l"
  shows "user_ok u"
proof -
  let ?t = "trim_cr l"
  obtain f0 f1 f2 f3 f4 f5 f6 where fs: "split_on 0x3A ?t = [f0, f1, f2, f3, f4, f5, f6]" and t: "?t \<noteq> []" "hd ?t \<noteq> 0x23"
    and u: "u_name u = f0" "password_hash u = f1" "gecos u = f4" "home u = f5" "shell u = f6"
      "parse_uint 32 f2 = Some (u_uid u)" "parse_uint 32 f3 = Some (u_gid u)"
    using assms(1) by (auto simp: parse_user_def Let_def split: if_splits list.splits option.splits)
  have ok: "field_ok f" if "f \<in> set (split_on 0x3A ?t)" for f
  proof -
    have "set f \<subseteq> set (join_with [0x3A] (split_on 0x3A ?t))"
      using that by (cases "split_on 0x3A ?t") (auto simp: join_with_def)
    then have "set f \<subseteq> set l" using set_trim_cr[of l] by (auto simp: split_on_join)
    then show ?thesis
      using assms(2,3) that split_on_no_sep split_on_utf8[OF _ utf8_valid_trim[OF assms(3)] that] by (auto simp: field_ok_def)
  qed
  have j: "?t = f0 @ 0x3A # f1 @ 0x3A # f2 @ 0x3A # f3 @ 0x3A # f4 @ 0x3A # f5 @ 0x3A # f6"
    using split_on_join[of "0x3A" ?t] unfolding fs by (simp add: join_with_def)
  have "f0 \<noteq> [] \<longrightarrow> hd f0 \<noteq> 0x23" using t(2) unfolding j by auto
  moreover have "f6 \<noteq> [] \<longrightarrow> last f6 \<noteq> 13" using trim_cr_last[OF t(1)] unfolding j by auto
  ultimately show ?thesis using u(1-5) ok fs parse_uint_bound[OF u(6)] parse_uint_bound[OF u(7)] by (simp add: user_ok_def)
qed

lemma lines_ok: "utf8_valid s \<Longrightarrow> l \<in> set (lines s) \<Longrightarrow> 10 \<notin> set l \<and> utf8_valid l"
proof -
  assume v: "utf8_valid s" and l: "l \<in> set (lines s)"
  have strip: "10 \<notin> set (strip_cr p) \<and> utf8_valid (strip_cr p)" if "p \<in> set (split_on 10 s)" for p
    using split_on_no_sep[OF that] split_on_utf8[OF _ v that] utf8_valid_before[of "butlast p" 13 "[]"]
    by (cases p rule: rev_cases) (auto simp: strip_cr_def)
  have "p \<in> set (split_on 10 s)" if "p \<in> set (butlast (split_on 10 s)) \<or> p = last (split_on 10 s)" for p
    using that in_set_butlastD last_in_set[OF split_on_nonempty[of 10 s]] by metis
  then have "(\<exists>p \<in> set (split_on 10 s). l = strip_cr p) \<or> l \<in> set (split_on 10 s)"
    using l by (auto simp: lines_def Let_def split: if_splits)
  then show ?thesis using strip split_on_no_sep[of l 10 s] split_on_utf8[OF _ v, of 10 l] by auto
qed

lemma parse_passwd_ok: "utf8_valid s \<Longrightarrow> u \<in> set (parse_passwd s) \<Longrightarrow> user_ok u"
proof -
  assume v: "utf8_valid s" and u: "u \<in> set (parse_passwd s)"
  have "\<exists>x \<in> set xs. parse_user x = Some u" if "u \<in> set (List.map_filter parse_user xs)" for xs
    using that by (induction xs) (auto simp: List.map_filter_simps split: option.splits)
  then show ?thesis using u lines_ok[OF v] parse_user_ok unfolding parse_passwd_def by blast
qed

section \<open>Passwords\<close>

definition pw_hash :: "bytes \<Rightarrow> bytes" where
  "pw_hash password = concat (map (\<lambda>b. [hex_digit (unat (drop_bit 4 b)), hex_digit (unat (b AND 0x0F))]) (sha_digest password))"

lemma sha256_hex_eq: "sha256_hex password = Ok (pw_hash password)"
  by (simp add: sha256_hex_def sha256_digest pw_hash_def)

lemma hex_digit_ascii: "n < 16 \<Longrightarrow> hex_digit n < 0x80 \<and> hex_digit n \<noteq> 0x3A \<and> hex_digit n \<noteq> 10"
proof -
  assume "n < 16"
  then have "hex_digit n \<in> set (str ''0123456789abcdef'')" unfolding hex_digit_def by (intro nth_mem) (simp add: str_def)
  then show ?thesis by (auto simp: str_def)
qed

lemma pw_hash_field: "field_ok (pw_hash password)"
proof -
  have "unat (drop_bit 4 b) < 16" for b :: u8
    using unat_less[of b] by (simp add: drop_bit_eq_div unat_div)
  moreover have "unat (b AND 0x0F) < 16" for b :: u8
    using word_and_le1[of b "0x0F"] by (simp add: word_le_nat_alt)
  ultimately have h: "x < 0x80 \<and> x \<noteq> 0x3A \<and> x \<noteq> 10" if "x \<in> set (pw_hash password)" for x
    using that hex_digit_ascii by (auto simp: pw_hash_def)
  then have "utf8_valid (pw_hash password)" by (intro utf8_valid_ascii) (auto simp: ascii_bytes_def)
  then show ?thesis using h by (auto simp: field_ok_def)
qed

lemma length_pw_hash: "length (pw_hash password) = 64"
  by (simp add: pw_hash_def length_concat o_def sum_list_triv length_sha_digest)

lemma or_xor_eq_0: "x OR (y XOR z) = 0 \<longleftrightarrow> x = 0 \<and> y = (z :: u8)"
proof -
  have "y = z" if "y XOR z = 0"
  proof -
    have "(y XOR z) XOR z = 0 XOR z" using that by (simp only:)
    then show ?thesis by (simp only: xor.assoc xor_self_eq xor.right_neutral xor.left_neutral)
  qed
  then show ?thesis by (auto simp: or_eq_0_iff)
qed

lemma fold_diff: "fold (\<lambda>i d. d OR (a ! i XOR b ! i)) js d = 0 \<longleftrightarrow> d = 0 \<and> (\<forall>i \<in> set js. a ! i = (b ! i :: u8))"
  by (induction js arbitrary: d) (simp_all add: or_xor_eq_0)

lemma constant_time_eq_iff: "constant_time_eq a b \<longleftrightarrow> a = b"
proof (cases "length a = length b")
  case True
  have "constant_time_eq a b \<longleftrightarrow> (\<forall>i < length a. a ! i = b ! i)"
    unfolding constant_time_eq_def fold_diff using True by auto
  then show ?thesis using True nth_equalityI[of a b] by blast
qed (auto simp: constant_time_eq_def)

lemma authenticate_eq:
  "authenticate name password k =
    (case find_user name k of Some u \<Rightarrow> Ok (if password_hash u = pw_hash password then Some u else None) | None \<Rightarrow> Ok None)"
  by (simp add: authenticate_def sha256_hex_eq constant_time_eq_iff split: option.split)

section \<open>Operations edit the list of accounts\<close>

definition accounts :: "kernel \<Rightarrow> user list" where
  "accounts k = unwrap_or [] (load_users k)"

lemma accounts_ok: "u \<in> set (accounts k) \<Longrightarrow> user_ok u"
  by (auto simp: accounts_def load_users_def parse_passwd_ok split: sum.splits if_splits)

lemma find_user_accounts: "find_user name k = List.find (\<lambda>u. u_name u = name) (accounts k)"
  by (simp add: find_user_def accounts_def split: result.split)

lemma accounts_written:
  assumes "\<forall>u \<in> set us. user_ok u" "fsys k' = ramfs_write PASSWD_PATH (serialize us) fs"
  shows "accounts k' = us"
  using assms by (simp add: accounts_def load_users_def ramfs_read_def ramfs_write_def serialize_utf8 parse_serialize)

lemma save_or_fail_outcome:
  assumes "\<forall>u \<in> set us. user_ok u" "save_or_fail us x k = (Ok r, k')"
  shows "accounts k' = us" "r = Inr x \<or> (\<exists>e. r = Inl (SaveFailed e))"
proof -
  let ?k = "k \<lparr> fsys := ramfs_write PASSWD_PATH (serialize us) (fsys k) \<rparr>"
  have s: "save us k = save_from_ramfs ?k" by (simp add: save_def sbind_pure)
  have *: "k' = snd (save_from_ramfs ?k) \<and> (r = Inr x \<or> (\<exists>e. r = Inl (SaveFailed e)))"
    using assms(2) by (cases "save_from_ramfs ?k"; cases "fst (save_from_ramfs ?k)")
      (auto simp: save_or_fail_def stry_def s op_simps sbind_def)
  then have "fsys k' = ramfs_write PASSWD_PATH (serialize us) (fsys k)" by (simp add: save_from_ramfs_fsys)
  then show "accounts k' = us" by (rule accounts_written[OF assms(1)])
  show "r = Inr x \<or> (\<exists>e. r = Inl (SaveFailed e))" using * by blast
qed

lemma save_or_fail_healthy:
  assumes "healthy (dks k) 0 d"
    and "length (blob_serialize (persisted (ramfs_write PASSWD_PATH (serialize us) (fsys k)))) \<le> PERSIST_BYTES"
  shows "\<exists>k'. save_or_fail us x k = (Ok (Inr x), k')"
  using save_healthy[of "k \<lparr> fsys := ramfs_write PASSWD_PATH (serialize us) (fsys k) \<rparr>" d] assms
  by (simp add: save_or_fail_def save_def stry_def sbind_def sret_def supd_def)

lemma fold_max_upper: "x \<le> m \<or> x \<in> set ms \<Longrightarrow> x \<le> fold max ms (m :: nat)"
proof (induction ms arbitrary: m)
  case (Cons a ms)
  have "x \<le> max a m \<or> x \<in> set ms" using Cons.prems by (simp add: le_max_iff_disj) blast
  from Cons.IH[OF this] show ?case by simp
qed simp

lemma next_uid_fresh:
  assumes "next_uid users = Ok n"
  shows "1000 \<le> n" "n < 2 ^ 32" "n \<notin> u_uid ` set users"
proof -
  let ?us = "map u_uid (filter (\<lambda>u. 1000 \<le> u_uid u) users)"
  have "1000 \<le> n \<and> n < 2 ^ 32 \<and> (\<forall>x \<in> set ?us. x < n)"
  proof (cases ?us)
    case (Cons a as)
    then have "a \<in> set ?us" by simp
    then have "1000 \<le> a" by auto
    moreover have "n = fold max as a + 1" "n < 2 ^ 32" using assms Cons by (auto simp: next_uid_def cadd_def split: if_splits)
    moreover have "x < fold max as a + 1" if "x \<in> set ?us" for x
      using that fold_max_upper[of x a as] unfolding Cons by (simp add: less_Suc_eq_le) blast
    moreover have "a \<le> fold max as a" by (rule fold_max_upper) simp
    ultimately show ?thesis by (intro conjI ballI) simp_all
  qed (use assms in \<open>simp add: next_uid_def\<close>)
  then have *: "1000 \<le> n" "n < 2 ^ 32" "\<And>x. x \<in> set ?us \<Longrightarrow> x < n" by blast+
  show "1000 \<le> n" "n < 2 ^ 32" by (fact *)+
  show "n \<notin> u_uid ` set users"
  proof
    assume "n \<in> u_uid ` set users"
    then have "n \<in> set ?us" using *(1) by auto
    then show False using *(3) by blast
  qed
qed

lemma new_account_ok: "name_valid name \<Longrightarrow> n < 2 ^ 32 \<Longrightarrow> user_ok (new_account name (pw_hash password) n)"
proof -
  assume v: "name_valid name" and n: "n < 2 ^ 32"
  have b: "b < 0x80 \<and> b \<noteq> 0x3A \<and> b \<noteq> 10 \<and> b \<noteq> 0x23" if "name_byte b" for b
    using that by (auto simp: name_byte_def word_le_nat_alt word_less_nat_alt)
  then have all: "\<forall>x \<in> set name. x < 0x80 \<and> x \<noteq> 0x3A \<and> x \<noteq> 10 \<and> x \<noteq> 0x23" using v by (auto simp: name_valid_def list_all_iff)
  then have f: "field_ok name" "hd name \<noteq> 0x23"
    using v by (auto simp: field_ok_def name_valid_def ascii_bytes_def intro!: utf8_valid_ascii)
  then show ?thesis using n pw_hash_field
    by (simp add: user_ok_def new_account_def str_def field_ok_def utf8_valid_append)
qed

lemma create_user_run:
  assumes "name_valid name" "4 \<le> length password" "name \<notin> u_name ` set (accounts k)" "next_uid (accounts k) = Ok n"
  shows "create_user name password k = save_or_fail (accounts k @ [new_account name (pw_hash password) n]) (new_account name (pw_hash password) n) k"
  using assms by (auto simp: create_user_def sbind_pure accounts_def[symmetric] list_ex_iff hash_password_def sha256_hex_eq Let_def)

lemma create_user_Ok:
  assumes "create_user name password k = (Ok r, k')" "r = Inr u \<or> r = Inl (SaveFailed e)"
  obtains n where "name_valid name" "4 \<le> length password" "name \<notin> u_name ` set (accounts k)" "next_uid (accounts k) = Ok n"
proof -
  have "name_valid name \<and> 4 \<le> length password \<and> name \<notin> u_name ` set (accounts k) \<and> (\<exists>n. next_uid (accounts k) = Ok n)"
    using assms by (auto simp: create_user_def sret_def sbind_pure accounts_def[symmetric] list_ex_iff
        split: if_splits elim!: sbind_OkE)
      (auto simp: slift_def sbind_def split: result.splits)
  then show thesis using that by blast
qed

lemma find_append: "List.find P (xs @ ys) = (case List.find P xs of Some x \<Rightarrow> Some x | None \<Rightarrow> List.find P ys)"
  by (induction xs) auto

lemma find_after_append:
  assumes "accounts k' = accounts k @ [u]" "u_name u = name" "name \<notin> u_name ` set (accounts k)"
  shows "find_user m k' = (if m = name then Some u else find_user m k)"
proof (cases "m = name")
  case True
  have none: "List.find (\<lambda>v. u_name v = name) (accounts k) = None"
    unfolding find_None_iff using assms(3) by (metis image_eqI)
  show ?thesis unfolding find_user_accounts assms(1) find_append using True none assms(2) by simp
next
  case False
  then show ?thesis unfolding find_user_accounts assms(1) find_append using assms(2) by (simp split: option.split)
qed

lemma set_password_run:
  assumes "set_password n password k = (Ok (Inr ()), k')"
  shows "\<exists>u \<in> set (accounts k). u_uid u = n"
    and "accounts k' = update_first (\<lambda>u. u_uid u = n) (\<lambda>u. u \<lparr> password_hash := pw_hash password \<rparr>) (accounts k)"
proof -
  let ?us = "update_first (\<lambda>u. u_uid u = n) (\<lambda>u. u \<lparr> password_hash := pw_hash password \<rparr>) (accounts k)"
  have r: "(\<exists>u \<in> set (accounts k). u_uid u = n) \<and> save_or_fail ?us () k = (Ok (Inr ()), k')"
    using assms by (auto simp: set_password_def sbind_pure sret_def accounts_def[symmetric] list_ex_iff hash_password_def sha256_hex_eq
        split: if_splits)
  have "\<forall>u \<in> set us. user_ok u \<Longrightarrow> u \<in> set (update_first P (\<lambda>u. u \<lparr> password_hash := pw_hash password \<rparr>) us) \<Longrightarrow> user_ok u" for us u P
    by (induction us) (auto simp: user_ok_def pw_hash_field split: if_splits)
  then have "\<forall>u \<in> set ?us. user_ok u" using accounts_ok[of _ k] by blast
  from save_or_fail_outcome(1)[OF this conjunct2[OF r]] show "accounts k' = ?us" .
  show "\<exists>u \<in> set (accounts k). u_uid u = n" using r by blast
qed

lemma delete_user_run:
  assumes "delete_user n k = (Ok (Inr ()), k')"
  shows "n \<noteq> 0" "accounts k' = filter (\<lambda>u. u_uid u \<noteq> n) (accounts k)" "\<exists>u \<in> set (accounts k). u_uid u = n"
proof -
  let ?us = "filter (\<lambda>u. u_uid u \<noteq> n) (accounts k)"
  have r: "n \<noteq> 0 \<and> length ?us \<noteq> length (accounts k) \<and> save_or_fail ?us () k = (Ok (Inr ()), k')"
    using assms by (auto simp: delete_user_def sbind_pure sret_def accounts_def[symmetric] Let_def split: if_splits)
  have "\<forall>u \<in> set ?us. user_ok u" using accounts_ok[of _ k] by simp
  from save_or_fail_outcome(1)[OF this conjunct2[OF conjunct2[OF r]]] show "accounts k' = ?us" .
  show "n \<noteq> 0" using r by blast
  show "\<exists>u \<in> set (accounts k). u_uid u = n"
  proof (rule ccontr)
    assume "\<not> ?thesis"
    then have "?us = accounts k" by (simp add: filter_id_conv)
    then show False using r by simp
  qed
qed

lemma create_user_result:
  assumes "create_user name password k = (Ok r, k')" "r = Inr u \<or> r = Inl (SaveFailed e)"
  obtains n where "accounts k' = accounts k @ [new_account name (pw_hash password) n]" "name \<notin> u_name ` set (accounts k)"
    "1000 \<le> n" "n \<notin> u_uid ` set (accounts k)" "r = Inr u \<Longrightarrow> u = new_account name (pw_hash password) n"
proof -
  obtain n where n: "name_valid name" "4 \<le> length password" "name \<notin> u_name ` set (accounts k)" "next_uid (accounts k) = Ok n"
    by (rule create_user_Ok[OF assms])
  have ok: "\<forall>v \<in> set (accounts k @ [new_account name (pw_hash password) n]). user_ok v"
    using accounts_ok[of _ k] new_account_ok[OF n(1) next_uid_fresh(2)[OF n(4)]] by auto
  have run: "save_or_fail (accounts k @ [new_account name (pw_hash password) n]) (new_account name (pw_hash password) n) k = (Ok r, k')"
    using create_user_run[OF n] assms(1) by simp
  show thesis
    by (rule that[OF save_or_fail_outcome(1)[OF ok run] n(3) next_uid_fresh(1)[OF n(4)] next_uid_fresh(3)[OF n(4)]])
      (use save_or_fail_outcome(2)[OF ok run] in auto)
qed


end
