(* ===== verification/Account_Theorems.thy ===== *)
theory Account_Theorems
  imports Users Storage_Theorems
begin

text \<open>
  Properties of the local accounts: every account ever loaded is well formed, the account file is read back
  as written, the three operations edit the list of accounts, a new account can log in, and what a failed
  save leaves behind.
\<close>

section \<open>The account file\<close>

text \<open>C28: Every account is well formed.  Whatever \<open>/etc/passwd\<close> holds, the accounts loaded from it have
  32-bit identifiers and fields in UTF-8 without a separator, so that writing the list back gives a
  readable file with the same accounts.\<close>

theorem accounts_well_formed:
  "list_all user_ok (accounts k) \<and> utf8_valid (serialize (accounts k)) \<and> parse_passwd (serialize (accounts k)) = accounts k"
  using accounts_ok[of _ k] parse_serialize serialize_utf8 by (simp add: list_all_iff)

text \<open>C29: Printing and parsing the account file.  Any list of well-formed accounts is read back from the
  file written for it.\<close>

theorem passwd_round_trip:
  assumes "\<forall>u \<in> set us. user_ok u" "ramfs_read (fsys k) PASSWD_PATH = Inr (serialize us)"
  shows "load_users k = Ok us"
  using assms parse_serialize serialize_utf8 by (simp add: load_users_def)

theorem passwd_round_trip_witness:
  "load_users ((sample_kernel [] [] 0) \<lparr> fsys := ramfs_write PASSWD_PATH (serialize [new_account (str ''luc'') [] 1000]) ramfs_new \<rparr>) =
    Ok [new_account (str ''luc'') [] 1000]"
  by (rule passwd_round_trip) (simp_all add: ramfs_read_def ramfs_write_def new_account_def user_ok_def field_ok_def str_def)

section \<open>The operations\<close>

datatype account_op = Create bytes bytes | Set_Password nat bytes | Delete nat

fun run_account :: "account_op \<Rightarrow> (kernel, user_error + unit) op" where
  "run_account (Create name password) = sbind (create_user name password) (\<lambda>r. sret (case r of Inl e \<Rightarrow> Inl e | Inr _ \<Rightarrow> Inr ()))"
| "run_account (Set_Password n password) = set_password n password"
| "run_account (Delete n) = delete_user n"

text \<open>What each operation means for the list of accounts.\<close>

fun account_edit :: "account_op \<Rightarrow> user list \<Rightarrow> user list \<Rightarrow> bool" where
  "account_edit (Create name password) us us' \<longleftrightarrow>
     (\<exists>n \<ge> 1000. us' = us @ [new_account name (pw_hash password) n] \<and> n \<notin> u_uid ` set us \<and> name \<notin> u_name ` set us)"
| "account_edit (Set_Password n password) us us' \<longleftrightarrow>
     n \<in> u_uid ` set us \<and> us' = update_first (\<lambda>v. u_uid v = n) (\<lambda>v. v \<lparr> password_hash := pw_hash password \<rparr>) us"
| "account_edit (Delete n) us us' \<longleftrightarrow> n \<noteq> 0 \<and> n \<in> u_uid ` set us \<and> us' = filter (\<lambda>v. u_uid v \<noteq> n) us"

text \<open>C27: The operations edit the list of accounts.  A successful creation appends one account with the
  given name, a new identifier of at least 1000 and the default home and shell; a successful change of
  password changes the hash of the first account with that identifier; a successful removal drops the
  accounts with that identifier and never root's.\<close>

theorem account_edits:
  assumes "run_account c k = (Ok (Inr ()), k')"
  shows "account_edit c (accounts k) (accounts k')"
proof (cases c)
  case (Create name password)
  then obtain u where "create_user name password k = (Ok (Inr u), k')"
    using assms by (auto elim!: sbind_OkE simp: sret_def split: sum.splits)
  then obtain m where "accounts k' = accounts k @ [new_account name (pw_hash password) m]" "name \<notin> u_name ` set (accounts k)"
    "1000 \<le> m" "m \<notin> u_uid ` set (accounts k)"
    by (rule create_user_result[where u = u]) auto
  then show ?thesis using Create by auto
next
  case (Set_Password n password)
  then show ?thesis using set_password_run[of n password k k'] assms by auto
next
  case (Delete n)
  then show ?thesis using delete_user_run[of n k k'] assms by auto
qed

definition sample_accounts :: kernel where
  "sample_accounts = (sample_kernel [] [] 0) \<lparr> dks := Some [sample_disk []],
     fsys := ramfs_write PASSWD_PATH (serialize [new_account (str ''luc'') [] 1000]) ramfs_new \<rparr>"

theorem account_edits_witness:
  "\<exists>k'. run_account (Delete 1000) sample_accounts = (Ok (Inr ()), k') \<and> accounts k' = []"
proof -
  have "user_ok (new_account (str ''luc'') [] 1000)" by (simp add: new_account_def user_ok_def field_ok_def str_def)
  then have a: "accounts sample_accounts = [new_account (str ''luc'') [] 1000]"
    by (intro accounts_written) (simp_all add: sample_accounts_def)
  have h: "healthy (dks sample_accounts) 0 (sample_disk [])" using sample_disk_healthy by (simp add: sample_accounts_def)
  have "persisted (ramfs_write PASSWD_PATH [] (fsys sample_accounts)) = [(PASSWD_PATH, [])]"
    by (simp add: persisted_def PERSISTED_PATHS_def PASSWD_PATH_def List.map_filter_simps ramfs_read_def ramfs_write_def ramfs_new_def
        str_def sample_accounts_def)
  then have "length (blob_serialize (persisted (ramfs_write PASSWD_PATH (serialize []) (fsys sample_accounts)))) \<le> PERSIST_BYTES"
    by (simp add: serialize_def blob_serialize_def blob_entry_def Let_def PERSIST_MAGIC_def PASSWD_PATH_def str_def)
  from save_or_fail_healthy[OF h this, of "()"] obtain k' where "save_or_fail [] () sample_accounts = (Ok (Inr ()), k')" by (elim exE)
  then have run: "run_account (Delete 1000) sample_accounts = (Ok (Inr ()), k')"
    using a by (simp add: delete_user_def sbind_pure accounts_def[symmetric] Let_def new_account_def)
  have "accounts k' = []" using account_edits[OF run] a by (simp add: new_account_def)
  then show ?thesis using run by blast
qed

section \<open>Logging in\<close>

text \<open>C26: A new account can log in.  On a machine whose disk works and has room for the state, creating an
  account with an acceptable new name and password succeeds; afterwards exactly that name and password
  open the account, and every other name logs in exactly as before.\<close>

theorem new_account_logs_in:
  assumes "name_valid name" "4 \<le> length password" "name \<notin> u_name ` set (accounts k)" "next_uid (accounts k) = Ok n"
    and "healthy (dks k) 0 d"
    and "length (blob_serialize (persisted (ramfs_write PASSWD_PATH
          (serialize (accounts k @ [new_account name (pw_hash password) n])) (fsys k)))) \<le> PERSIST_BYTES"
  shows "\<exists>k'. create_user name password k = (Ok (Inr (new_account name (pw_hash password) n)), k') \<and>
    authenticate name password k' = Ok (Some (new_account name (pw_hash password) n)) \<and>
    (\<forall>p. pw_hash p \<noteq> pw_hash password \<longrightarrow> authenticate name p k' = Ok None) \<and>
    (\<forall>m p. m \<noteq> name \<longrightarrow> authenticate m p k' = authenticate m p k)"
proof -
  let ?u = "new_account name (pw_hash password) n"
  obtain k' where run: "save_or_fail (accounts k @ [?u]) ?u k = (Ok (Inr ?u), k')"
    using save_or_fail_healthy[OF assms(5,6), of ?u] by (elim exE)
  then have c: "create_user name password k = (Ok (Inr ?u), k')" using create_user_run[OF assms(1-4)] by simp
  have ok: "\<forall>v \<in> set (accounts k @ [?u]). user_ok v"
    using accounts_ok[of _ k] new_account_ok[OF assms(1) next_uid_fresh(2)[OF assms(4)]] by auto
  have a: "accounts k' = accounts k @ [?u]" by (rule save_or_fail_outcome(1)[OF ok run])
  have u: "u_name ?u = name" "password_hash ?u = pw_hash password" by (simp_all add: new_account_def)
  note find = find_after_append[OF a u(1) assms(3)]
  show ?thesis
    by (rule exI[of _ k']) (use c u(2) in \<open>simp add: authenticate_eq find\<close>)
qed

theorem new_account_logs_in_witness:
  "\<exists>k'. create_user (str ''luc'') (str ''1234'') ((sample_kernel [] [] 0) \<lparr> dks := Some [sample_disk []], fsys := ramfs_new \<rparr>) =
      (Ok (Inr (new_account (str ''luc'') (pw_hash (str ''1234'')) 1000)), k') \<and>
    authenticate (str ''luc'') (str ''1234'') k' = Ok (Some (new_account (str ''luc'') (pw_hash (str ''1234'')) 1000))"
proof -
  let ?k = "(sample_kernel [] [] 0) \<lparr> dks := Some [sample_disk []], fsys := ramfs_new \<rparr>"
  let ?u = "new_account (str ''luc'') (pw_hash (str ''1234'')) 1000"
  have a: "accounts ?k = []" by (simp add: accounts_def load_users_def ramfs_read_def ramfs_new_def)
  have h: "healthy (dks ?k) 0 (sample_disk [])" using sample_disk_healthy by simp
  have p: "persisted (ramfs_write PASSWD_PATH (serialize [?u]) ramfs_new) = [(PASSWD_PATH, serialize [?u])]"
    by (simp add: persisted_def PERSISTED_PATHS_def PASSWD_PATH_def List.map_filter_simps ramfs_read_def ramfs_write_def ramfs_new_def str_def)
  have "length (pw_hash (str ''1234'')) = 64" by (rule length_pw_hash)
  then have "length (blob_serialize [(PASSWD_PATH, serialize [?u])]) \<le> PERSIST_BYTES"
    by (simp add: blob_serialize_def blob_entry_def Let_def PERSIST_MAGIC_def PASSWD_PATH_def str_def serialize_def user_line_def new_account_def
        show_nat_rec)
  then have room: "length (blob_serialize (persisted (ramfs_write PASSWD_PATH (serialize (accounts ?k @ [?u])) (fsys ?k)))) \<le> PERSIST_BYTES"
    using a p by simp
  have "name_valid (str ''luc'')" "4 \<le> length (str ''1234'')" "str ''luc'' \<notin> u_name ` set (accounts ?k)" "next_uid (accounts ?k) = Ok 1000"
    using a by (simp_all add: name_valid_def name_byte_def str_def next_uid_def)
  from new_account_logs_in[OF this h room] show ?thesis by blast
qed

section \<open>A save that fails\<close>

text \<open>C30: A failed save is not undone.  When creating an account reports that the state could not be saved,
  the account nevertheless exists: it could not log in before and logs in now.\<close>

theorem failed_save_keeps_account:
  assumes "create_user name password k = (Ok (Inl (SaveFailed e)), k')"
  shows "authenticate name password k = Ok None \<and> (\<exists>u. u_name u = name \<and> authenticate name password k' = Ok (Some u))"
proof -
  obtain n where n: "accounts k' = accounts k @ [new_account name (pw_hash password) n]" "name \<notin> u_name ` set (accounts k)"
    by (rule create_user_result[OF assms, where e = e]) auto
  have u: "u_name (new_account name (pw_hash password) n) = name" "password_hash (new_account name (pw_hash password) n) = pw_hash password"
    by (simp_all add: new_account_def)
  have "find_user name k = None" unfolding find_user_accounts find_None_iff using n(2) by (metis image_eqI)
  then show ?thesis using find_after_append[OF n(1) u(1) n(2)] u by (auto simp: authenticate_eq)
qed

theorem failed_save_keeps_account_witness:
  "\<exists>e k'. create_user (str ''luc'') (str ''1234'') (sample_kernel [] [] 0) = (Ok (Inl (SaveFailed e)), k') \<and>
    (\<exists>u. authenticate (str ''luc'') (str ''1234'') k' = Ok (Some u))"
proof -
  let ?k = "sample_kernel [] [] 0"
  have a: "accounts ?k = []" by (simp add: accounts_def load_users_def ramfs_read_def sample_kernel_def ramfs_new_def)
  have "name_valid (str ''luc'')" "4 \<le> length (str ''1234'')" "str ''luc'' \<notin> u_name ` set (accounts ?k)" "next_uid (accounts ?k) = Ok 1000"
    using a by (simp_all add: name_valid_def name_byte_def str_def next_uid_def)
  note run = create_user_run[OF this]
  have "\<exists>e k'. save_or_fail us x ?k = (Ok (Inl (SaveFailed e)), k')" for us and x :: user
    by (simp add: save_or_fail_def save_def stry_def save_from_ramfs_def on_disks_def ata_write_def disk_at_def sample_kernel_def
        sbind_def sret_def supd_def sget_def slift_def serr_def)
  then obtain e k' where c: "create_user (str ''luc'') (str ''1234'') ?k = (Ok (Inl (SaveFailed e)), k')"
    unfolding run by blast
  from failed_save_keeps_account[OF this] c show ?thesis by blast
qed

end
