(* ===== verification/Spec2Isabelle.thy ===== *)
theory Spec2Isabelle
  imports Memory_Theorems Screen_Theorems Process_Theorems Shared_Memory User_Calls Storage_Theorems Account_Theorems
begin

text \<open>
  \<^bold>\<open>A verification development of the kernel.\<close>

  The repository is a hobby x86-64 kernel in Rust (\<open>src/kernel\<close>), the constants and records it
  shares with its programs (\<open>src/abi\<close>) and a small userland (\<open>src/userland\<close>).  The development
  translates the parts of the kernel that compute on their own state, keeps the parts of the
  machine and of third-party crates as parameters, and proves the theorems the code is meant
  to satisfy.
\<close>

end
